(* ===== verification/Prelude.thy ===== *)
theory Prelude
  imports
    "HOL-Library.Multiset"
    "HOL-Library.AList"
    "HOL-Library.Char_ord"
    "HOL-Library.List_Lexorder"
    "HOL-Library.Sublist"
    "HOL-Library.Word"
begin

text \<open>
  What the components share: the machine integers of the Go types, Go maps as association
  lists, the two sorting routines of the package \<^verbatim>\<open>sort\<close>, and the generic lemmas on
  lists, sorting and association lists that the component theories rely on.

  A Go map is an association list with distinct keys: \<open>AList.update\<close> is the assignment
  \<^verbatim>\<open>m[k] = v\<close>, \<open>map_of\<close> the lookup, \<open>AList.delete\<close> the builtin \<^verbatim>\<open>delete\<close>. A nil map
  and an empty map are the same list; the code never distinguishes them except to
  allocate. The order in which \<^verbatim>\<open>range\<close> visits a map is unspecified in Go; where it can
  influence a result the model takes it as a parameter, a function that permutes its
  argument (\<open>is_order\<close>).
\<close>

type_synonym int32 = "32 word"
type_synonym int64 = "64 word"
type_synonym ('k, 'v) gomap = "('k \<times> 'v) list"
type_synonym 'a order = "'a list \<Rightarrow> 'a list"

named_theorems text_simps \<open>facts about the bytes of rendered text\<close>
named_theorems go_eval \<open>definitions unfolded to evaluate a closed term with the simplifier\<close>
named_theorems frame_simps \<open>fields and keys that an operation leaves alone\<close>

section \<open>Go maps\<close>

abbreviation has_key :: "('k, 'v) gomap \<Rightarrow> 'k \<Rightarrow> bool" where
  "has_key m k \<equiv> map_of m k \<noteq> None"

abbreviation keys_of :: "('k, 'v) gomap \<Rightarrow> 'k set" where
  "keys_of m \<equiv> fst ` set m"

lemma has_key_iff: "has_key m k \<longleftrightarrow> k \<in> keys_of m"
  by (simp add: map_of_eq_None_iff)

lemma keys_of_update [simp]: "keys_of (AList.update k v m) = insert k (keys_of m)"
  by (simp add: dom_update flip: dom_map_of_conv_image_fst) (simp add: update_conv')

lemma distinct_update_keys [simp, intro]:
  "distinct (map fst m) \<Longrightarrow> distinct (map fst (AList.update k v m))"
  by (rule distinct_update)

lemma map_of_update_get [simp]:
  "map_of (AList.update k v m) k' = (if k' = k then Some v else map_of m k')"
  by (simp add: update_conv')

lemma map_of_delete_get [simp]:
  "map_of (AList.delete k m) k' = (if k' = k then None else map_of m k')"
  by (simp add: delete_conv')

lemma keys_of_delete [simp]: "keys_of (AList.delete k m) = keys_of m - {k}"
  by (auto simp: AList.delete_eq)

lemma keys_of_Cons [simp]: "keys_of (p # m) = insert (fst p) (keys_of m)"
  by simp

text \<open>A loop of assignments: under each key, the last one counts.\<close>

lemma map_of_fold_update:
  "map_of (foldl (\<lambda>m x. AList.update (k x) (v x) m) m xs) y =
     (case find (\<lambda>x. k x = y) (rev xs) of None \<Rightarrow> map_of m y | Some x \<Rightarrow> Some (v x))"
  by (induction xs rule: rev_induct) auto

lemma find_unique:
  assumes "distinct (map k xs)" and "x \<in> set xs"
  shows "find (\<lambda>z. k z = k x) xs = Some x" and "find (\<lambda>z. k z = k x) (rev xs) = Some x"
proof -
  have F: "find (\<lambda>z. k z = k x) ys = Some x" if "distinct (map k ys)" "x \<in> set ys" for ys
    using that by (induction ys) (auto simp: image_iff)
  show "find (\<lambda>z. k z = k x) xs = Some x" by (rule F [OF assms])
  show "find (\<lambda>z. k z = k x) (rev xs) = Some x" using F [of "rev xs"] assms by (simp add: rev_map [symmetric])
qed

section \<open>Sorting\<close>

text \<open>
  \<^verbatim>\<open>sort.Strings\<close> is the library's \<open>sort\<close>: the order on strings is the byte-wise
  lexicographic one of \<open>List_Lexorder\<close> over \<open>Char_ord\<close>. \<^verbatim>\<open>sort.Slice\<close> is not stable: it may
  leave elements with equal keys in any order. \<open>sort_slice\<close> is a stable sort after an
  arbitrary permutation, so its results over all orders are exactly the sorted
  permutations of its input.
\<close>

definition is_order :: "'a order \<Rightarrow> bool" where
  "is_order ord \<longleftrightarrow> (\<forall>xs. mset (ord xs) = mset xs)"

definition sort_slice :: "'a order \<Rightarrow> ('a \<Rightarrow> 'b::linorder) \<Rightarrow> 'a list \<Rightarrow> 'a list" where
  "sort_slice ord key xs = sort_key key (ord xs)"

lemma is_orderD: "is_order ord \<Longrightarrow> mset (ord xs) = mset xs"
  by (simp add: is_order_def)

lemma is_order_set [simp]: "is_order ord \<Longrightarrow> set (ord xs) = set xs"
  by (metis is_orderD set_mset_mset)

lemma is_order_id [simp, intro]: "is_order (\<lambda>xs. xs)"
  by (simp add: is_order_def)

lemma is_order_rev [simp, intro]: "is_order rev"
  by (simp add: is_order_def)

lemma mset_sort_slice: "is_order ord \<Longrightarrow> mset (sort_slice ord key xs) = mset xs"
  by (simp add: sort_slice_def is_orderD)

lemma set_sort_slice [simp]: "is_order ord \<Longrightarrow> set (sort_slice ord key xs) = set xs"
  by (simp add: sort_slice_def)

lemma sorted_sort_slice [simp]: "sorted (map key (sort_slice ord key xs))"
  by (simp add: sort_slice_def)

lemma length_sort_slice [simp]: "is_order ord \<Longrightarrow> length (sort_slice ord key xs) = length xs"
  by (metis mset_sort_slice size_mset)

text \<open>Without ties the result does not depend on the order.\<close>

lemma sort_key_mset_unique:
  assumes "mset xs = mset ys" and "inj_on key (set xs)"
  shows "sort_key key xs = sort_key key ys"
proof (rule sort_key_inj_key_eq)
  show "mset xs = mset (sort_key key ys)" using assms(1) by simp
  show "inj_on key (set xs)" by fact
  show "sorted (map key (sort_key key ys))" by simp
qed

lemma sort_slice_unique:
  assumes "is_order ord1" and "is_order ord2" and "mset xs = mset ys" and "inj_on key (set xs)"
  shows "sort_slice ord1 key xs = sort_slice ord2 key ys"
  unfolding sort_slice_def
  by (rule sort_key_mset_unique) (use assms in \<open>simp_all add: is_orderD\<close>)

lemma sort_cong_set:
  fixes xs ys :: "'a::linorder list"
  assumes "distinct xs" and "distinct ys" and "set xs = set ys"
  shows "sort xs = sort ys"
  using assms by (metis sorted_list_of_set_sort_remdups remdups_id_iff_distinct)

lemma sort_sorted_id: "sorted (xs::'a::linorder list) \<Longrightarrow> sort xs = xs"
  by (rule sorted_sort_id)

section \<open>Errors\<close>

text \<open>
  A Go function that returns \<^verbatim>\<open>(T, error)\<close> is a function into \<open>'e + 'a\<close>; one that returns an
  \<^verbatim>\<open>error\<close> only is a function into \<open>'e option\<close>, with \<open>None\<close> for nil. \<open>first_error\<close> is a loop that
  returns at the first error.
\<close>

fun first_error :: "('a \<Rightarrow> 'e option) \<Rightarrow> 'a list \<Rightarrow> 'e option" where
  "first_error f [] = None"
| "first_error f (x # xs) = (case f x of Some e \<Rightarrow> Some e | None \<Rightarrow> first_error f xs)"

lemma first_error_None: "first_error f xs = None \<longleftrightarrow> (\<forall>x \<in> set xs. f x = None)"
  by (induction xs) (auto split: option.splits)

lemma first_error_Some: "first_error f xs = Some e \<Longrightarrow> \<exists>x \<in> set xs. f x = Some e"
  by (induction xs) (auto split: option.splits)

section \<open>Lists\<close>

lemma list_all_append_iff [simp]: "list_all P (xs @ ys) \<longleftrightarrow> list_all P xs \<and> list_all P ys"
  by simp

lemma dropWhile_idem [simp]: "dropWhile P (dropWhile P xs) = dropWhile P xs"
  by (induction xs) auto

end
