(* ===== verification/Go_Strings.thy ===== *)
theory Go_Strings
  imports Go_Unicode
begin

text \<open>
  Go's package \<^verbatim>\<open>strings\<close>, as far as the operator uses it, on strings as lists of bytes:
  \<^verbatim>\<open>TrimSpace\<close>, \<^verbatim>\<open>Trim\<close>, \<^verbatim>\<open>TrimRight\<close>, \<^verbatim>\<open>TrimSuffix\<close>, \<^verbatim>\<open>HasPrefix\<close>, \<^verbatim>\<open>HasSuffix\<close>, \<^verbatim>\<open>Split\<close>, \<^verbatim>\<open>Join\<close>,
  \<^verbatim>\<open>Index\<close>, \<^verbatim>\<open>Fields\<close> and \<^verbatim>\<open>Replace\<close>, with the facts about them that the components use.
\<close>

section \<open>White space\<close>

text \<open>
  The UTF-8 encodings of the runes for which \<^verbatim>\<open>unicode.IsSpace\<close> holds. Such an encoding at
  the head of a string decodes to that rune, and at its end it is the last rune, also in
  a string that is not valid UTF-8, since no encoding is a proper suffix of another rune.
\<close>

definition space_runes :: "string list" where
  "space_runes =
     [[CHR 0x09], [CHR 0x0A], [CHR 0x0B], [CHR 0x0C], [CHR 0x0D], [CHR 0x20],
      [CHR 0xC2, CHR 0x85], [CHR 0xC2, CHR 0xA0], [CHR 0xE1, CHR 0x9A, CHR 0x80],
      [CHR 0xE2, CHR 0x80, CHR 0x80], [CHR 0xE2, CHR 0x80, CHR 0x81],
      [CHR 0xE2, CHR 0x80, CHR 0x82], [CHR 0xE2, CHR 0x80, CHR 0x83],
      [CHR 0xE2, CHR 0x80, CHR 0x84], [CHR 0xE2, CHR 0x80, CHR 0x85],
      [CHR 0xE2, CHR 0x80, CHR 0x86], [CHR 0xE2, CHR 0x80, CHR 0x87],
      [CHR 0xE2, CHR 0x80, CHR 0x88], [CHR 0xE2, CHR 0x80, CHR 0x89],
      [CHR 0xE2, CHR 0x80, CHR 0x8A], [CHR 0xE2, CHR 0x80, CHR 0xA8],
      [CHR 0xE2, CHR 0x80, CHR 0xA9], [CHR 0xE2, CHR 0x80, CHR 0xAF],
      [CHR 0xE2, CHR 0x81, CHR 0x9F], [CHR 0xE3, CHR 0x80, CHR 0x80]]"

definition starts_with :: "string list \<Rightarrow> string \<Rightarrow> string option" where
  "starts_with ts s = find (\<lambda>t. t \<noteq> [] \<and> prefix t s) ts"

lemma starts_with_Some:
  "starts_with ts s = Some t \<Longrightarrow> t \<in> set ts \<and> t \<noteq> [] \<and> prefix t s"
  by (auto simp: starts_with_def find_Some_iff)

lemma starts_with_None:
  "starts_with ts s = None \<longleftrightarrow> (\<forall>t \<in> set ts. t \<noteq> [] \<longrightarrow> \<not> prefix t s)"
  by (auto simp: starts_with_def find_None_iff)

text \<open>Drop tokens from the head of a string as long as one matches.\<close>

function strip_tokens :: "string list \<Rightarrow> string \<Rightarrow> string" where
  "strip_tokens ts s =
     (case starts_with ts s of
        None \<Rightarrow> s
      | Some t \<Rightarrow> strip_tokens ts (drop (length t) s))"
  by pat_completeness auto
termination
  by (relation "measure (\<lambda>(ts, s). length s)")
     (auto dest!: starts_with_Some simp: prefix_def)

declare strip_tokens.simps [simp del]

text \<open>\<^verbatim>\<open>strings.TrimSpace\<close>.\<close>

definition trim_space :: "string \<Rightarrow> string" where
  "trim_space s =
     rev (strip_tokens (map rev space_runes) (rev (strip_tokens space_runes s)))"

lemma strip_tokens_suffix: "suffix (strip_tokens ts s) s"
proof (induction ts s rule: strip_tokens.induct)
  case (1 ts s)
  then show ?case
    by (subst strip_tokens.simps)
       (auto split: option.splits intro: suffix_order.trans suffix_drop)
qed

lemma strip_tokens_done: "starts_with ts (strip_tokens ts s) = None"
proof (induction ts s rule: strip_tokens.induct)
  case (1 ts s)
  then show ?case
    by (subst strip_tokens.simps) (auto split: option.splits)
qed

lemma strip_tokens_id: "starts_with ts s = None \<Longrightarrow> strip_tokens ts s = s"
  by (subst strip_tokens.simps) simp

lemma starts_with_prefix_None:
  "starts_with ts s = None \<Longrightarrow> prefix s' s \<Longrightarrow> starts_with ts s' = None"
  by (auto simp: starts_with_None intro: prefix_order.trans)

lemma trim_space_stripped:
  "starts_with space_runes (trim_space s) = None"
  "starts_with (map rev space_runes) (rev (trim_space s)) = None"
proof -
  let ?s1 = "strip_tokens space_runes s"
  have "prefix (trim_space s) ?s1"
    unfolding trim_space_def
    using strip_tokens_suffix [of "map rev space_runes" "rev ?s1"]
    by (simp add: suffix_to_prefix)
  then show "starts_with space_runes (trim_space s) = None"
    using strip_tokens_done starts_with_prefix_None by blast
  show "starts_with (map rev space_runes) (rev (trim_space s)) = None"
    by (simp add: trim_space_def strip_tokens_done)
qed

lemma trim_space_id:
  "starts_with space_runes s = None \<Longrightarrow> starts_with (map rev space_runes) (rev s) = None
   \<Longrightarrow> trim_space s = s"
  by (simp add: trim_space_def strip_tokens_id)

lemma trim_space_idem [simp]: "trim_space (trim_space s) = trim_space s"
  by (simp add: trim_space_id trim_space_stripped)

lemma set_trim_space: "set (trim_space s) \<subseteq> set s"
proof -
  have "set (trim_space s) \<subseteq> set (strip_tokens space_runes s)"
    unfolding trim_space_def
    using strip_tokens_suffix [of "map rev space_runes" "rev (strip_tokens space_runes s)"]
    by (metis set_mono_suffix set_rev)
  also have "\<dots> \<subseteq> set s" by (rule set_mono_suffix [OF strip_tokens_suffix])
  finally show ?thesis .
qed

text \<open>Visible ASCII characters are not white space and occur in no encoding of one.\<close>

definition graphic :: "char \<Rightarrow> bool" where
  "graphic c \<longleftrightarrow> 33 \<le> byte c \<and> byte c \<le> 126"

lemma dot_graphic: "graphic CHR ''.''"
  by (simp add: graphic_def)

lemma graphic_no_space: "graphic c \<Longrightarrow> t \<in> set space_runes \<Longrightarrow> c \<notin> set t"
  by (auto simp: graphic_def space_runes_def)

lemma starts_with_graphic:
  assumes "s \<noteq> [] \<Longrightarrow> graphic (hd s)"
  shows "starts_with space_runes s = None"
  unfolding starts_with_None
proof (intro ballI impI notI)
  fix t assume t: "t \<in> set space_runes" "t \<noteq> []" "prefix t s"
  then have "hd t = hd s" "s \<noteq> []" by (auto simp: prefix_def)
  with t assms graphic_no_space [of "hd s" t] show False
    using hd_in_set [of t] by auto
qed

lemma starts_with_graphic_rev:
  assumes "s \<noteq> [] \<Longrightarrow> graphic (hd s)"
  shows "starts_with (map rev space_runes) s = None"
  unfolding starts_with_None
proof (intro ballI impI notI)
  fix t assume t: "t \<in> set (map rev space_runes)" "t \<noteq> []" "prefix t s"
  then obtain u where u: "u \<in> set space_runes" "t = rev u" by auto
  from t(2,3) have "hd t = hd s" "s \<noteq> []" by (auto simp: prefix_def)
  with t u assms graphic_no_space [of "hd s" u] show False
    using hd_in_set [of t] by auto
qed

lemma trim_space_graphic [text_simps]:
  assumes "s \<noteq> [] \<Longrightarrow> graphic (hd s) \<and> graphic (last s)"
  shows "trim_space s = s"
proof (rule trim_space_id)
  show "starts_with space_runes s = None"
    by (rule starts_with_graphic) (use assms in blast)
  show "starts_with (map rev space_runes) (rev s) = None"
    by (rule starts_with_graphic_rev) (use assms in \<open>simp add: hd_rev\<close>)
qed

lemma trim_space_all_graphic: "\<forall>c \<in> set s. graphic c \<Longrightarrow> trim_space s = s"
  by (rule trim_space_graphic) auto

section \<open>Trim, suffixes and prefixes\<close>

text \<open>\<^verbatim>\<open>strings.Trim\<close> and \<^verbatim>\<open>strings.TrimRight\<close> with a cutset of one byte; \<^verbatim>\<open>strings.TrimSuffix\<close>.\<close>

definition trim_right_char :: "char \<Rightarrow> string \<Rightarrow> string" where
  "trim_right_char c s = rev (dropWhile ((=) c) (rev s))"

definition trim_char :: "char \<Rightarrow> string \<Rightarrow> string" where
  "trim_char c s = trim_right_char c (dropWhile ((=) c) s)"

definition trim_suffix :: "string \<Rightarrow> string \<Rightarrow> string" where
  "trim_suffix s t = (if suffix t s then take (length s - length t) s else s)"

lemma trim_suffix_append [simp]: "trim_suffix (s @ t) t = s"
  by (simp add: trim_suffix_def suffix_def)

lemma trim_suffix_id: "\<not> suffix t s \<Longrightarrow> trim_suffix s t = s"
  by (simp add: trim_suffix_def)

lemma trim_suffix_split: "suffix t s \<Longrightarrow> trim_suffix s t @ t = s"
  by (auto simp: trim_suffix_def suffix_def)

lemma set_trim_suffix: "set (trim_suffix s t) \<subseteq> set s"
  by (auto simp: trim_suffix_def dest: in_set_takeD)

lemma trim_right_char_snoc [simp]:
  "trim_right_char c (s @ [d]) = (if d = c then trim_right_char c s else s @ [d])"
  by (simp add: trim_right_char_def)

lemma trim_right_char_Nil [simp]: "trim_right_char c [] = []"
  by (simp add: trim_right_char_def)

lemma trim_right_char_id: "s = [] \<or> last s \<noteq> c \<Longrightarrow> trim_right_char c s = s"
  by (cases s rule: rev_cases) auto

lemma trim_right_char_last: "trim_right_char c s = [] \<or> last (trim_right_char c s) \<noteq> c"
  by (induction s rule: rev_induct) auto

lemma trim_right_char_prefix: "prefix (trim_right_char c s) s"
  by (induction s rule: rev_induct) (auto intro: prefix_order.trans)

lemma trim_right_char_idem [simp]:
  "trim_right_char c (trim_right_char c s) = trim_right_char c s"
  by (rule trim_right_char_id [OF trim_right_char_last])

lemma trim_right_char_append_all:
  "\<forall>d \<in> set t. d = c \<Longrightarrow> trim_right_char c (s @ t) = trim_right_char c s"
proof (induction t rule: rev_induct)
  case Nil
  then show ?case by simp
next
  case (snoc d t)
  then show ?case by (simp flip: append_assoc)
qed

lemma trim_right_char_decomp:
  "\<exists>n. s = trim_right_char c s @ replicate n c"
proof (induction s rule: rev_induct)
  case Nil
  then show ?case by simp
next
  case (snoc d s)
  then obtain n where n: "s = trim_right_char c s @ replicate n c" by blast
  show ?case
  proof (cases "d = c")
    case True
    then have "s @ [d] = trim_right_char c (s @ [d]) @ replicate (Suc n) c"
      by (subst n) (simp add: replicate_append_same)
    then show ?thesis by blast
  next
    case False
    then show ?thesis by (intro exI [of _ 0]) simp
  qed
qed

lemma hd_dropWhile_char: "dropWhile ((=) c) s = [] \<or> hd (dropWhile ((=) c) s) \<noteq> c"
  by (induction s) auto

lemma trim_char_ends:
  "trim_char c s = [] \<or> (hd (trim_char c s) \<noteq> c \<and> last (trim_char c s) \<noteq> c)"
proof (cases "trim_char c s")
  case Nil
  then show ?thesis by simp
next
  case (Cons d u)
  have "prefix (trim_char c s) (dropWhile ((=) c) s)"
    by (simp add: trim_char_def trim_right_char_prefix)
  with Cons have "hd (trim_char c s) = hd (dropWhile ((=) c) s)" "dropWhile ((=) c) s \<noteq> []"
    by (auto simp: prefix_def simp del: dropWhile_eq_Nil_conv)
  then show ?thesis
    using hd_dropWhile_char [of c s] trim_right_char_last [of c "dropWhile ((=) c) s"]
    by (auto simp: trim_char_def)
qed

lemma trim_char_id: "s = [] \<or> (hd s \<noteq> c \<and> last s \<noteq> c) \<Longrightarrow> trim_char c s = s"
  by (cases s) (auto simp: trim_char_def intro!: trim_right_char_id)

lemma trim_char_idem [simp]: "trim_char c (trim_char c s) = trim_char c s"
  by (rule trim_char_id [OF trim_char_ends])

lemma set_trim_char: "set (trim_char c s) \<subseteq> set s"
  unfolding trim_char_def
  by (meson order_trans set_mono_prefix trim_right_char_prefix set_dropWhileD subsetI)

lemma trim_char_keeps: "d \<noteq> c \<Longrightarrow> d \<in> set s \<Longrightarrow> d \<in> set (trim_char c s)"
proof -
  assume dc: "d \<noteq> c"
  have drop: "d \<in> set s \<Longrightarrow> d \<in> set (dropWhile ((=) c) s)" for s
    using dc by (induction s) auto
  then show "d \<in> set s \<Longrightarrow> d \<in> set (trim_char c s)"
    by (simp add: trim_char_def trim_right_char_def)
qed

section \<open>Split, Join, Fields\<close>

text \<open>\<^verbatim>\<open>strings.Split\<close> with a separator of one byte: the empty string gives one empty part.\<close>

fun split_on :: "char \<Rightarrow> string \<Rightarrow> string list" where
  "split_on c [] = [[]]"
| "split_on c (d # s) =
     (if d = c then [] # split_on c s
      else (case split_on c s of [] \<Rightarrow> [[d]] | p # ps \<Rightarrow> (d # p) # ps))"

text \<open>\<^verbatim>\<open>strings.Join\<close>.\<close>

fun join :: "string \<Rightarrow> string list \<Rightarrow> string" where
  "join sep [] = []"
| "join sep [p] = p"
| "join sep (p # q # ps) = p @ sep @ join sep (q # ps)"

lemma split_on_nonempty [simp]: "split_on c s \<noteq> []"
  by (induction s) (auto split: list.splits)

lemma split_on_no_sep: "c \<notin> set s \<Longrightarrow> split_on c s = [s]"
  by (induction s) auto

lemma split_on_append: "split_on c (s @ c # t) = split_on c s @ split_on c t"
proof (induction s)
  case Nil
  then show ?case by simp
next
  case (Cons d s)
  then show ?case by (cases "split_on c s") auto
qed

lemma split_on_parts: "p \<in> set (split_on c s) \<Longrightarrow> c \<notin> set p"
proof (induction s arbitrary: p)
  case Nil
  then show ?case by simp
next
  case (Cons d s)
  then show ?case by (cases "split_on c s") (auto split: if_splits)
qed

lemma split_on_bytes: "p \<in> set (split_on c s) \<Longrightarrow> set p \<subseteq> set s"
proof (induction s arbitrary: p)
  case Nil
  then show ?case by simp
next
  case (Cons d s)
  then show ?case by (cases "split_on c s") (fastforce split: if_splits)+
qed

lemma join_Cons: "ps \<noteq> [] \<Longrightarrow> join sep (p # ps) = p @ sep @ join sep ps"
  by (cases ps) auto

lemma join_split [simp]: "join [c] (split_on c s) = s"
proof (induction s)
  case Nil
  then show ?case by simp
next
  case (Cons d s)
  then show ?case
    by (cases "split_on c s"; cases "tl (split_on c s)") (auto simp: join_Cons)
qed

lemma split_join: "ps \<noteq> [] \<Longrightarrow> \<forall>p \<in> set ps. c \<notin> set p \<Longrightarrow> split_on c (join [c] ps) = ps"
proof (induction ps)
  case Nil
  then show ?case by simp
next
  case (Cons p ps)
  then show ?case
    by (cases "ps = []") (simp_all add: join_Cons split_on_append split_on_no_sep)
qed

lemma set_join: "set (join sep ps) \<subseteq> set sep \<union> \<Union> (set ` set ps)"
  by (induction sep ps rule: join.induct) auto

text \<open>
  \<^verbatim>\<open>strings.Fields\<close>: the maximal runs of bytes outside white space. Stepping by bytes is
  the same as stepping by runes, because every encoding of a space starts with an ASCII
  byte or a leading byte.
\<close>

function str_fields_from :: "string \<Rightarrow> string \<Rightarrow> string list" where
  "str_fields_from cur s =
     (case starts_with space_runes s of
        Some t \<Rightarrow>
          (if cur = [] then [] else [rev cur]) @ str_fields_from [] (drop (length t) s)
      | None \<Rightarrow>
          (case s of
             [] \<Rightarrow> (if cur = [] then [] else [rev cur])
           | c # s' \<Rightarrow> str_fields_from (c # cur) s'))"
  by pat_completeness auto
termination
  by (relation "measure (\<lambda>(cur, s). length s)")
     (auto dest!: starts_with_Some simp: prefix_def)

declare str_fields_from.simps [simp del]

definition str_fields :: "string \<Rightarrow> string list" where
  "str_fields s = str_fields_from [] s"

lemma newline_space: "[CHR 0x0A] \<in> set space_runes"
  by (simp add: space_runes_def)

lemma str_fields_from_no_newline:
  "CHR 0x0A \<notin> set cur \<Longrightarrow> p \<in> set (str_fields_from cur s) \<Longrightarrow> CHR 0x0A \<notin> set p"
proof (induction cur s rule: str_fields_from.induct)
  case (1 cur s)
  show ?case
  proof (cases "starts_with space_runes s")
    case (Some t)
    with 1 show ?thesis by (auto simp: str_fields_from.simps [of cur] split: if_splits)
  next
    case None
    show ?thesis
    proof (cases s)
      case Nil
      with None 1 show ?thesis by (auto simp: str_fields_from.simps [of cur] split: if_splits)
    next
      case (Cons c s')
      have "c \<noteq> CHR 0x0A"
        using None Cons newline_space by (auto simp: starts_with_None)
      with None Cons 1 show ?thesis by (auto simp: str_fields_from.simps [of cur] split: if_splits)
    qed
  qed
qed

lemma str_fields_no_newline [text_simps]: "p \<in> set (str_fields s) \<Longrightarrow> CHR 0x0A \<notin> set p"
  unfolding str_fields_def by (erule str_fields_from_no_newline [rotated]) simp

subsection \<open>Fields hold no white space\<close>

definition space_free :: "string \<Rightarrow> bool" where
  "space_free q \<longleftrightarrow> (\<forall>a b. q = a @ b \<longrightarrow> starts_with space_runes b = None)"

lemma space_free_Nil [simp]: "space_free []"
  by (auto simp: space_free_def starts_with_None)

lemma space_free_Cons:
  "starts_with space_runes (c # q) = None \<Longrightarrow> space_free q \<Longrightarrow> space_free (c # q)"
  by (auto simp: space_free_def Cons_eq_append_conv)

lemma str_fields_from_free:
  "p \<in> set (str_fields_from cur s) \<Longrightarrow>
     space_free p \<or> (\<exists>q. p = rev cur @ q \<and> space_free q \<and> prefix q s)"
proof (induction cur s rule: str_fields_from.induct)
  case (1 cur s)
  show ?case
  proof (cases "starts_with space_runes s")
    case (Some t)
    then have "p = rev cur \<or> p \<in> set (str_fields_from [] (drop (length t) s))"
      using 1 by (auto simp: str_fields_from.simps [of cur s] split: if_splits)
    then show ?thesis
    proof
      assume "p = rev cur"
      then show ?thesis by (intro disjI2 exI [of _ "[]"]) simp
    next
      assume "p \<in> set (str_fields_from [] (drop (length t) s))"
      from "1.IH"(2) [OF Some this] show ?thesis by auto
    qed
  next
    case None
    show ?thesis
    proof (cases s)
      case Nil
      with None 1 have "p = rev cur" by (auto simp: str_fields_from.simps [of cur] split: if_splits)
      then show ?thesis by (intro disjI2 exI [of _ "[]"]) simp
    next
      case (Cons c s')
      with None 1 have "p \<in> set (str_fields_from (c # cur) s')"
        by (auto simp: str_fields_from.simps [of cur] split: if_splits)
      from "1.IH"(1) [OF None Cons this] show ?thesis
      proof
        assume "\<exists>q. p = rev (c # cur) @ q \<and> space_free q \<and> prefix q s'"
        then obtain q where q: "p = rev cur @ c # q" "space_free q" "prefix q s'" by auto
        then have "prefix (c # q) s" using Cons by simp
        then have "starts_with space_runes (c # q) = None" using None starts_with_prefix_None by blast
        with q \<open>prefix (c # q) s\<close> show ?thesis by (auto intro: space_free_Cons)
      qed simp
    qed
  qed
qed

lemma space_free_trim: "space_free p \<Longrightarrow> trim_space p = p"
proof (rule trim_space_id)
  assume p: "space_free p"
  then show "starts_with space_runes p = None" by (auto simp: space_free_def)
  show "starts_with (map rev space_runes) (rev p) = None"
    unfolding starts_with_None
  proof (intro ballI impI notI)
    fix t assume t: "t \<in> set (map rev space_runes)" "t \<noteq> []" "prefix t (rev p)"
    then obtain u where u: "u \<in> set space_runes" "t = rev u" by auto
    with t have "suffix u p" by (simp add: suffix_to_prefix)
    then obtain a where "p = a @ u" by (auto simp: suffix_def)
    with p have "starts_with space_runes u = None" by (auto simp: space_free_def)
    with u t show False by (auto simp: starts_with_None)
  qed
qed

lemma str_fields_trim: "p \<in> set (str_fields s) \<Longrightarrow> trim_space p = p"
  using str_fields_from_free [of p "[]" s] by (auto simp: str_fields_def space_free_trim)

section \<open>Index and Replace\<close>

text \<open>\<^verbatim>\<open>strings.Index\<close>, with \<open>None\<close> for -1.\<close>

fun str_index :: "string \<Rightarrow> string \<Rightarrow> nat option" where
  "str_index sub [] = (if sub = [] then Some 0 else None)"
| "str_index sub (c # s) =
     (if prefix sub (c # s) then Some 0 else map_option Suc (str_index sub s))"

text \<open>\<^verbatim>\<open>strings.Replace(s, old, new, 1)\<close>.\<close>

definition replace_first :: "string \<Rightarrow> string \<Rightarrow> string \<Rightarrow> string" where
  "replace_first s old new =
     (case str_index old s of
        None \<Rightarrow> s
      | Some i \<Rightarrow> take i s @ new @ drop (i + length old) s)"

lemma str_index_Some:
  "str_index sub s = Some i \<Longrightarrow> s = take i s @ sub @ drop (i + length sub) s"
proof (induction s arbitrary: i)
  case Nil
  then show ?case by (simp split: if_splits)
next
  case (Cons c s)
  show ?case
  proof (cases "prefix sub (c # s)")
    case True
    with Cons.prems show ?thesis by (auto simp: prefix_def)
  next
    case False
    with Cons.prems obtain j where j: "str_index sub s = Some j" "i = Suc j" by auto
    from Cons.IH [OF j(1)] j(2) show ?thesis by simp
  qed
qed

lemma str_index_None: "str_index sub s = None \<longleftrightarrow> \<not> sublist sub s"
  by (induction s) (auto simp: sublist_Cons_right)

lemma str_index_Some_length: "str_index sub s = Some i \<Longrightarrow> i + length sub \<le> length s"
  by (induction s arbitrary: i) (auto dest: prefix_length_le split: if_splits)

text \<open>
  A substring whose first byte occurs nowhere else in it: its first occurrence in
  \<open>a @ sub @ b\<close> is the one shown, unless it already occurs in \<open>a\<close>.
\<close>

definition self_delimiting :: "string \<Rightarrow> bool" where
  "self_delimiting sub \<longleftrightarrow> sub \<noteq> [] \<and> hd sub \<notin> set (tl sub)"

lemma prefix_overlap:
  assumes "self_delimiting sub" and "prefix sub (c # a @ sub @ b)"
  shows "prefix sub (c # a)"
proof (rule ccontr)
  assume np: "\<not> prefix sub (c # a)"
  from assms(2) obtain r where r: "c # a @ sub @ b = sub @ r" by (auto simp: prefix_def)
  then have "length (c # a) < length sub"
    using np by (metis append_Cons append_eq_append_conv_if append_take_drop_id not_le prefixI)
  then have "sub ! length (c # a) = (c # a @ sub @ b) ! length (c # a)"
    using r by (metis nth_append)
  also have "\<dots> = hd sub"
    using assms(1) by (simp add: self_delimiting_def nth_append hd_conv_nth)
  finally have "hd sub = tl sub ! length a"
    using assms(1) \<open>length (c # a) < length sub\<close>
    by (cases sub) (auto simp: self_delimiting_def)
  moreover have "length a < length (tl sub)" using \<open>length (c # a) < length sub\<close> by simp
  ultimately show False using assms(1) by (metis nth_mem self_delimiting_def)
qed

lemma str_index_first:
  assumes "self_delimiting sub" and "\<not> sublist sub a"
  shows "str_index sub (a @ sub @ b) = Some (length a)"
  using assms(2)
proof (induction a)
  case Nil
  show ?case using assms(1) by (cases sub) (auto simp: self_delimiting_def)
next
  case (Cons c a)
  then have "\<not> prefix sub (c # a @ sub @ b)"
    using prefix_overlap [OF assms(1)] by (auto simp: sublist_Cons_right)
  with Cons show ?case by (auto simp: sublist_Cons_right)
qed

text \<open>Bytes that cannot start an occurrence are skipped.\<close>

lemma str_index_skip:
  assumes "sub \<noteq> []" and "hd sub \<notin> set a"
  shows "str_index sub (a @ s) = map_option ((+) (length a)) (str_index sub s)"
  using assms(2)
proof (induction a)
  case Nil
  then show ?case by (simp add: option.map_id0 [unfolded id_def] option.map_ident)
next
  case (Cons c a)
  with assms(1) have "\<not> prefix sub (c # a @ s)" by (cases sub) auto
  with Cons show ?case by (auto simp: option.map_comp comp_def)
qed

end
