(* ===== verification/Go_Strconv.thy ===== *)
theory Go_Strconv
  imports Go_Strings
begin

text \<open>
  Go's package \<^verbatim>\<open>strconv\<close> and the verbs of \<^verbatim>\<open>fmt\<close> the operator uses: decimal and hexadecimal
  numbers, \<^verbatim>\<open>ParseUint\<close> with 32 bits, \<^verbatim>\<open>Atoi\<close>, and quoting (\<^verbatim>\<open>Quote\<close>, \<^verbatim>\<open>%q\<close>).
\<close>

section \<open>Decimal numbers\<close>

definition digit :: "nat \<Rightarrow> char" where
  "digit d = char_of (48 + d)"

definition is_digit :: "char \<Rightarrow> bool" where
  "is_digit c \<longleftrightarrow> 48 \<le> byte c \<and> byte c \<le> 57"

definition digit_val :: "char \<Rightarrow> nat" where
  "digit_val c = byte c - 48"

text \<open>\<^verbatim>\<open>%d\<close> and \<^verbatim>\<open>FormatUint(n, 10)\<close> on a number that is not negative.\<close>

fun dec :: "nat \<Rightarrow> string" where
  "dec n = (if n < 10 then [digit n] else dec (n div 10) @ [digit (n mod 10)])"

declare dec.simps [simp del]

text \<open>\<^verbatim>\<open>%d\<close> on a signed integer.\<close>

definition dec_int :: "int \<Rightarrow> string" where
  "dec_int i = (if i < 0 then CHR ''-'' # dec (nat (- i)) else dec (nat i))"

definition digits_val :: "string \<Rightarrow> nat" where
  "digits_val s = foldl (\<lambda>a c. a * 10 + digit_val c) 0 s"

lemma digit_is_digit [simp]: "d < 10 \<Longrightarrow> is_digit (digit d)"
  by (simp add: is_digit_def digit_def byte_char_of)

lemma digit_val_digit [simp]: "d < 10 \<Longrightarrow> digit_val (digit d) = d"
  by (simp add: digit_val_def digit_def byte_char_of)

lemma dec_digits: "list_all is_digit (dec n)"
proof (induction n rule: dec.induct)
  case (1 n)
  then show ?case by (cases "n < 10") (simp_all add: dec.simps [of n])
qed

lemma dec_nonempty [simp]: "dec n \<noteq> []"
  by (subst dec.simps) simp

lemma digits_val_snoc [simp]: "digits_val (s @ [c]) = digits_val s * 10 + digit_val c"
  by (simp add: digits_val_def)

lemma digits_val_dec [simp]: "digits_val (dec n) = n"
proof (induction n rule: dec.induct)
  case (1 n)
  show ?case
  proof (cases "n < 10")
    case True
    then show ?thesis by (simp add: dec.simps [of n] digits_val_def)
  next
    case False
    with "1.IH" show ?thesis by (simp add: dec.simps [of n])
  qed
qed

lemma dec_inject [simp]: "dec m = dec n \<longleftrightarrow> m = n"
  by (metis digits_val_dec)

lemma is_digit_graphic: "is_digit c \<Longrightarrow> graphic c"
  by (simp add: is_digit_def graphic_def)

lemma dec_graphic: "c \<in> set (dec n) \<Longrightarrow> graphic c"
  using dec_digits [of n] by (auto simp: list_all_iff is_digit_graphic)

lemma dec_bytes: "c \<in> set (dec n) \<Longrightarrow> is_digit c"
  using dec_digits [of n] by (auto simp: list_all_iff)

lemma not_digit_minus [simp]: "\<not> is_digit CHR ''-''"
  by (simp add: is_digit_def)

lemma dec_int_inject [simp]: "dec_int i = dec_int j \<longleftrightarrow> i = j"
proof
  assume eq: "dec_int i = dec_int j"
  have hd: "hd (dec n) \<noteq> CHR ''-''" for n
    using dec_bytes [of "hd (dec n)" n] by (metis dec_nonempty hd_in_set not_digit_minus)
  show "i = j"
    using eq hd [of "nat i"] hd [of "nat j"]
    by (auto simp: dec_int_def split: if_splits) (metis list.sel(1))+
qed simp

lemma dec_int_bytes: "c \<in> set (dec_int i) \<Longrightarrow> is_digit c \<or> c = CHR ''-''"
  by (auto simp: dec_int_def dest: dec_bytes split: if_splits)

text \<open>\<^verbatim>\<open>fmt\<close>'s zero padding on the left, as in the date layout.\<close>

definition pad0 :: "nat \<Rightarrow> nat \<Rightarrow> string" where
  "pad0 w n = replicate (w - length (dec n)) CHR ''0'' @ dec n"

text \<open>
  \<^verbatim>\<open>strconv.ParseUint(s, 10, 32)\<close>: with base 10 given there is no sign, no prefix and no
  underscore; an empty string, another byte or a value beyond 32 bits is an error.
\<close>

definition parse_uint32 :: "string \<Rightarrow> nat option" where
  "parse_uint32 s =
     (if s \<noteq> [] \<and> list_all is_digit s \<and> digits_val s < 2 ^ 32 then Some (digits_val s) else None)"

lemma parse_uint32_dec: "parse_uint32 (dec n) = (if n < 2 ^ 32 then Some n else None)"
  by (simp add: parse_uint32_def dec_digits)

lemma parse_uint32_bound: "parse_uint32 s = Some n \<Longrightarrow> n < 2 ^ 32"
  by (auto simp: parse_uint32_def split: if_splits)

text \<open>\<^verbatim>\<open>strconv.Atoi\<close> on a 64-bit platform: an optional sign and decimal digits.\<close>

definition atoi :: "string \<Rightarrow> int option" where
  "atoi s =
     (let (neg, ds) =
        (case s of
           [] \<Rightarrow> (False, [])
         | c # r \<Rightarrow> if c = CHR ''-'' then (True, r) else if c = CHR ''+'' then (False, r) else (False, s))
      in if ds = [] \<or> \<not> list_all is_digit ds then None
         else if neg then (if digits_val ds \<le> 2 ^ 63 then Some (- int (digits_val ds)) else None)
         else (if digits_val ds < 2 ^ 63 then Some (int (digits_val ds)) else None))"

lemma graphic_sign: "graphic CHR ''-''" "graphic CHR ''+''"
  by (simp_all add: graphic_def)

lemma atoi_graphic: "atoi s \<noteq> None \<Longrightarrow> c \<in> set s \<Longrightarrow> graphic c"
  by (cases s)
     (auto simp: atoi_def list_all_iff is_digit_graphic graphic_sign split: if_splits)

lemma atoi_nonempty: "atoi s \<noteq> None \<Longrightarrow> s \<noteq> []"
  by (auto simp: atoi_def)

section \<open>Hexadecimal\<close>

definition hex_digit :: "nat \<Rightarrow> char" where
  "hex_digit d = (if d < 10 then char_of (48 + d) else char_of (87 + d))"

text \<open>The lowest \<open>k\<close> hexadecimal digits.\<close>

fun hex_pad :: "nat \<Rightarrow> nat \<Rightarrow> string" where
  "hex_pad 0 n = []"
| "hex_pad (Suc k) n = hex_pad k (n div 16) @ [hex_digit (n mod 16)]"

text \<open>\<^verbatim>\<open>%x\<close> on bytes.\<close>

definition hex_bytes :: "nat list \<Rightarrow> string" where
  "hex_bytes bs = concat (map (hex_pad 2) bs)"

definition is_hex :: "char \<Rightarrow> bool" where
  "is_hex c \<longleftrightarrow> is_digit c \<or> (97 \<le> byte c \<and> byte c \<le> 102)"

lemma hex_digit_is_hex: "d < 16 \<Longrightarrow> is_hex (hex_digit d)"
  by (simp add: hex_digit_def is_hex_def is_digit_def byte_char_of)

lemma hex_pad_hex: "c \<in> set (hex_pad k n) \<Longrightarrow> is_hex c"
  by (induction k arbitrary: n) (auto simp: hex_digit_is_hex)

lemma length_hex_pad [simp]: "length (hex_pad k n) = k"
  by (induction k arbitrary: n) auto

lemma hex_bytes_hex: "c \<in> set (hex_bytes bs) \<Longrightarrow> is_hex c"
  by (auto simp: hex_bytes_def hex_pad_hex)

lemma length_hex_bytes [simp]: "length (hex_bytes bs) = 2 * length bs"
  by (simp add: hex_bytes_def length_concat comp_def sum_list_triv)

lemma is_hex_graphic: "is_hex c \<Longrightarrow> graphic c"
  by (auto simp: is_hex_def graphic_def is_digit_def)

section \<open>Quoting\<close>

text \<open>
  \<^verbatim>\<open>appendEscapedRune\<close> for the quote character \<open>q\<close>. Decoded runes are always valid, so the
  replacement of an invalid rune by U+FFFD does not arise.
\<close>

definition escape_rune :: "char \<Rightarrow> nat \<Rightarrow> string" where
  "escape_rune q r =
     (if r = byte q \<or> r = 92 then [CHR 0x5C, char_of r]
      else if is_print r then utf8_encode r
      else if r = 7 then [CHR 0x5C, CHR ''a'']
      else if r = 8 then [CHR 0x5C, CHR ''b'']
      else if r = 12 then [CHR 0x5C, CHR ''f'']
      else if r = 10 then [CHR 0x5C, CHR ''n'']
      else if r = 13 then [CHR 0x5C, CHR ''r'']
      else if r = 9 then [CHR 0x5C, CHR ''t'']
      else if r = 11 then [CHR 0x5C, CHR ''v'']
      else if r < 32 \<or> r = 127 then [CHR 0x5C, CHR ''x''] @ hex_pad 2 r
      else if r < 65536 then [CHR 0x5C, CHR ''u''] @ hex_pad 4 r
      else [CHR 0x5C, CHR ''U''] @ hex_pad 8 r)"

text \<open>\<^verbatim>\<open>strconv.Quote\<close>, which is \<^verbatim>\<open>%q\<close> on strings: an invalid byte is written \<^verbatim>\<open>\xHH\<close>.\<close>

definition quote :: "string \<Rightarrow> string" where
  "quote s =
     [CHR 0x22]
     @ concat (map (\<lambda>(r, bs).
          if r = rune_error \<and> length bs = 1 then [CHR 0x5C, CHR ''x''] @ hex_pad 2 (byte (hd bs))
          else escape_rune CHR 0x22 r) (go_runes s))
     @ [CHR 0x22]"

text \<open>\<^verbatim>\<open>%q\<close> on a rune.\<close>

definition quote_rune :: "nat \<Rightarrow> string" where
  "quote_rune r = [CHR 0x27] @ escape_rune CHR 0x27 r @ [CHR 0x27]"

text \<open>Quoted text never contains a raw line break.\<close>

lemma byte_less: "byte d < (256::nat)"
  by (metis of_char_mod_256 mod_less_divisor zero_less_numeral)

lemma fold_cont_bound:
  "foldl (\<lambda>a d. a * 64 + (byte d - 128)) x ds + 3 \<le> (x + 3) * 64 ^ length ds"
proof (induction ds rule: rev_induct)
  case Nil
  then show ?case by simp
next
  case (snoc d ds)
  have "byte d - 128 \<le> (127::nat)" using byte_less [of d] by linarith
  with snoc show ?case by simp
qed

lemma decode_rune_bound: "fst (decode_rune c s) < 2097152"
proof -
  have fold: "foldl (\<lambda>a d. a * 64 + (byte d - 128)) x (take n s) < 2097152"
    if "(x + 3) * 64 ^ n < 2097152" for x n
  proof -
    have "(x + 3) * 64 ^ length (take n s) \<le> (x + 3) * 64 ^ n"
      by (intro mult_le_mono power_increasing) auto
    with fold_cont_bound [of x "take n s"] that show ?thesis by linarith
  qed
  have lead: "(w = 2 \<and> byte c \<le> (223::nat)) \<or> (w = 3 \<and> byte c \<le> (239::nat)) \<or> (w = 4 \<and> byte c \<le> (244::nat))"
    if "lead_info (byte c) = Some (w, lo, hi)" for w lo hi
    using that by (auto simp: lead_info_def split: if_splits)
  have "foldl (\<lambda>a d. a * 64 + (byte d - 128))
          (if w = 2 then byte c - 192 else if w = 3 then byte c - 224 else byte c - 240)
          (take (w - 1) s) < 2097152"
    if "lead_info (byte c) = Some (w, lo, hi)" for w lo hi
    using lead [OF that] by (intro fold) auto
  then show ?thesis
    by (cases "lead_info (byte c)") (auto simp: decode_rune_def Let_def rune_error_def)
qed

lemma utf8_encode_bytes:
  assumes "128 \<le> r" and "r < 2097152" and "c \<in> set (utf8_encode r)"
  shows "128 \<le> (byte c :: nat)"
proof -
  have "240 + r div 262144 < 256" using assms(2) by (simp add: div_less_iff_less_mult)
  moreover have "r < 65536 \<Longrightarrow> 224 + r div 4096 < 256" by (simp add: div_less_iff_less_mult)
  moreover have "r < 2048 \<Longrightarrow> 192 + r div 64 < 256" by (simp add: div_less_iff_less_mult)
  ultimately show ?thesis
    using assms(1,3) by (auto simp: utf8_encode_def byte_char_of split: if_splits)
qed

lemma utf8_encode_no_newline:
  assumes "32 \<le> r" and "r < 2097152"
  shows "CHR 0x0A \<notin> set (utf8_encode r)"
proof
  assume nl: "CHR 0x0A \<in> set (utf8_encode r)"
  have b: "byte CHR 0x0A = (10::nat)" by simp
  show False
  proof (cases "r < 128")
    case True
    with nl assms have "CHR 0x0A = (char_of r :: char)" by (simp add: utf8_encode_def)
    then have "byte CHR 0x0A = (byte (char_of r) :: nat)" by simp
    with True assms b show False by (simp add: byte_char_of)
  next
    case False
    then show False using utf8_encode_bytes [OF _ assms(2) nl] b by simp
  qed
qed

lemma hex_pad_no_newline: "CHR 0x0A \<notin> set (hex_pad k n)"
  using hex_pad_hex [of "CHR 0x0A" k n] by (auto simp: is_hex_def is_digit_def)

lemma num_92: "(char_of (92::nat) :: char) \<noteq> CHR 0x0A"
  by (simp add: char_of_def)

lemma escape_rune_no_newline:
  assumes "r < 2097152" and "q \<noteq> CHR 0x0A"
  shows "CHR 0x0A \<notin> set (escape_rune q r)"
proof -
  have "is_print r \<Longrightarrow> CHR 0x0A \<notin> set (utf8_encode r)"
    by (rule utf8_encode_no_newline) (use assms in \<open>auto simp: is_print_def split: if_splits\<close>)
  moreover have "(char_of r :: char) \<noteq> CHR 0x0A" if "r = byte q \<or> r = 92"
    using that assms(2) by (metis char_of_char num_92)
  ultimately show ?thesis
    using assms(2) by (auto simp: escape_rune_def hex_pad_no_newline)
qed

lemma go_runes_bound: "(r, bs) \<in> set (go_runes s) \<Longrightarrow> r < 2097152"
proof (induction s rule: go_runes.induct)
  case 1
  then show ?case by simp
next
  case (2 c s)
  obtain q w where qw: "decode_rune c s = (q, w)" by force
  with decode_rune_bound [of c s] have "q < 2097152" by simp
  with 2 qw show ?case by auto
qed

lemma quote_no_newline [text_simps]: "CHR 0x0A \<notin> set (quote s)"
  by (auto simp: quote_def hex_pad_no_newline
        dest: go_runes_bound escape_rune_no_newline [where q = "CHR 0x22"] split: if_splits)

end
