(* ===== verification/Api_Types.thy ===== *)
theory Api_Types
  imports Go_Strconv
begin

text \<open>
  The API types of \<^verbatim>\<open>api/v1alpha1\<close> and the fields of the Kubernetes metadata they embed.
  The string types \<^verbatim>\<open>DNSRecordType\<close> and \<^verbatim>\<open>UnresolvedRecordPolicy\<close> stay strings, since a value
  outside the declared constants can reach the code; optional pointers are options.
  Type and list metadata (\<^verbatim>\<open>TypeMeta\<close>, \<^verbatim>\<open>ListMeta\<close>) carry nothing the operator reads. Values
  have no identity here; as they lie in memory, with their deep copies, they are in \<^verbatim>\<open>Deep_Copy\<close>.
\<close>

section \<open>Record types and policies\<close>

type_synonym DNSRecordType = string
type_synonym UnresolvedRecordPolicy = string

definition DNSRecordTypeA :: DNSRecordType where [simp]: "DNSRecordTypeA = ''A''"
definition DNSRecordTypeAAAA :: DNSRecordType where [simp]: "DNSRecordTypeAAAA = ''AAAA''"
definition DNSRecordTypeCNAME :: DNSRecordType where [simp]: "DNSRecordTypeCNAME = ''CNAME''"
definition DNSRecordTypeTXT :: DNSRecordType where [simp]: "DNSRecordTypeTXT = ''TXT''"
definition DNSRecordTypeMX :: DNSRecordType where [simp]: "DNSRecordTypeMX = ''MX''"
definition DNSRecordTypeSRV :: DNSRecordType where [simp]: "DNSRecordTypeSRV = ''SRV''"

definition UnresolvedRecordPolicyNXDOMAIN :: UnresolvedRecordPolicy where
  [simp]: "UnresolvedRecordPolicyNXDOMAIN = ''NXDOMAIN''"
definition UnresolvedRecordPolicyForward :: UnresolvedRecordPolicy where
  [simp]: "UnresolvedRecordPolicyForward = ''Forward''"

section \<open>Kubernetes metadata\<close>

text \<open>
  The fields of \<^verbatim>\<open>metav1.ObjectMeta\<close> that the operator reads or writes. A deletion
  timestamp is \<open>None\<close> when \<^verbatim>\<open>DeletionTimestamp.IsZero()\<close>.
\<close>

record ObjectMeta =
  om_Name :: string
  om_Namespace :: string
  om_Generation :: int64
  om_DeletionTimestamp :: "nat option"
  om_Finalizers :: "string list"

text \<open>\<^verbatim>\<open>metav1.Condition\<close>.\<close>

record Condition =
  c_Type :: string
  c_Status :: string
  c_ObservedGeneration :: int64
  c_LastTransitionTime :: nat
  c_Reason :: string
  c_Message :: string

section \<open>PrivateDNSZone\<close>

record NamespaceSelector =
  MatchNames :: "string list"

record PrivateDNSRecordSpecInline =
  in_Name :: string
  in_Type :: DNSRecordType
  in_TTL :: "int32 option"
  in_Values :: "string list"

record PrivateDNSZoneSpec =
  zs_Zone :: string
  zs_TTL :: "int32 option"
  zs_UnresolvedRecordPolicy :: UnresolvedRecordPolicy
  zs_AllowedNamespaces :: NamespaceSelector
  zs_Records :: "PrivateDNSRecordSpecInline list"

record PrivateDNSZoneStatus =
  zst_ObservedGeneration :: int64
  zst_Conditions :: "Condition list"
  zst_Records :: int
  zst_Serial :: string
  zst_ZoneFileKey :: string
  zst_LastAppliedHash :: string

record PrivateDNSZone =
  z_Meta :: ObjectMeta
  z_Spec :: PrivateDNSZoneSpec
  z_Status :: PrivateDNSZoneStatus

section \<open>PrivateDNSRecord\<close>

record ZoneReference =
  zr_Name :: string

record PrivateDNSRecordSpec =
  rs_ZoneRef :: ZoneReference
  rs_Name :: string
  rs_Type :: DNSRecordType
  rs_TTL :: "int32 option"
  rs_Values :: "string list"

record PrivateDNSRecordStatus =
  rst_ObservedGeneration :: int64
  rst_Conditions :: "Condition list"
  rst_FQDN :: string

record PrivateDNSRecord =
  rec_Meta :: ObjectMeta
  rec_Spec :: PrivateDNSRecordSpec
  rec_Status :: PrivateDNSRecordStatus

abbreviation z_Name :: "PrivateDNSZone \<Rightarrow> string" where
  "z_Name z \<equiv> om_Name (z_Meta z)"

abbreviation z_deleting :: "PrivateDNSZone \<Rightarrow> bool" where
  "z_deleting z \<equiv> om_DeletionTimestamp (z_Meta z) \<noteq> None"

abbreviation rec_Name :: "PrivateDNSRecord \<Rightarrow> string" where
  "rec_Name r \<equiv> om_Name (rec_Meta r)"

abbreviation rec_Namespace :: "PrivateDNSRecord \<Rightarrow> string" where
  "rec_Namespace r \<equiv> om_Namespace (rec_Meta r)"

end
