(* ===== verification/Go_Net.thy ===== *)
theory Go_Net
  imports Go_Strconv
begin

text \<open>
  \<^verbatim>\<open>net.ParseIP\<close> and \<^verbatim>\<open>IP.To4\<close>, following \<^verbatim>\<open>net/netip.ParseAddr\<close>: dotted decimal for IPv4,
  and for IPv6 groups of up to four hexadecimal digits with at most one ellipsis and an
  optional trailing IPv4 part. An address with a zone is refused by \<^verbatim>\<open>net.ParseIP\<close>.
  An address is its 16 bytes; an IPv4 address is mapped to \<open>::ffff:a.b.c.d\<close>.
\<close>

section \<open>IPv4\<close>

text \<open>
  The loop of \<^verbatim>\<open>parseIPv4Fields\<close>: \<open>fs\<close> the finished fields (newest first), \<open>val\<close> and \<open>dl\<close>
  the value and the number of digits of the current one.
\<close>

fun parse_v4_loop :: "nat list \<Rightarrow> nat \<Rightarrow> nat \<Rightarrow> string \<Rightarrow> nat list option" where
  "parse_v4_loop fs val dl [] =
     (if length fs < 3 then None else Some (rev (val # fs)))"
| "parse_v4_loop fs val dl (c # s) =
     (if is_digit c then
        (if dl = 1 \<and> val = 0 then None
         else if val * 10 + digit_val c > 255 then None
         else parse_v4_loop fs (val * 10 + digit_val c) (dl + 1) s)
      else if c = CHR ''.'' then
        (if dl = 0 \<or> s = [] then None
         else if length fs = 3 then None
         else parse_v4_loop (val # fs) 0 0 s)
      else None)"

definition parse_v4_fields :: "string \<Rightarrow> nat list option" where
  "parse_v4_fields s = parse_v4_loop [] 0 0 s"

section \<open>IPv6\<close>

definition hex_val :: "char \<Rightarrow> nat option" where
  "hex_val c =
     (if is_digit c then Some (byte c - 48)
      else if 97 \<le> byte c \<and> byte c \<le> (102::nat) then Some (byte c - 87)
      else if 65 \<le> byte c \<and> byte c \<le> (70::nat) then Some (byte c - 55)
      else None)"

text \<open>
  One group: the value, the number of digits and the rest; \<open>None\<close> for more than four
  digits. (Four hexadecimal digits never exceed 16 bits, so the second check of the code
  cannot fail.)
\<close>

fun hex_group :: "nat \<Rightarrow> nat \<Rightarrow> string \<Rightarrow> (nat \<times> nat \<times> string) option" where
  "hex_group acc off [] = Some (acc, off, [])"
| "hex_group acc off (c # s) =
     (case hex_val c of
        None \<Rightarrow> Some (acc, off, c # s)
      | Some d \<Rightarrow> if off > 3 then None else hex_group (acc * 16 + d) (off + 1) s)"

lemma hex_group_rest:
  "hex_group acc off s = Some (a, n, r) \<Longrightarrow> length r + n = length s + off"
  by (induction acc off s rule: hex_group.induct) (auto split: option.splits if_splits)

text \<open>
  The loop of \<^verbatim>\<open>parseIPv6\<close>: the bytes parsed so far, the position of the ellipsis if there
  was one, and the rest of the input; the result also says what is left over.
\<close>

function parse_v6_loop ::
    "nat list \<Rightarrow> nat option \<Rightarrow> string \<Rightarrow> (nat list \<times> nat option \<times> string) option" where
  "parse_v6_loop ip el s =
     (if length ip \<ge> 16 then Some (ip, el, s)
      else case hex_group 0 0 s of
        None \<Rightarrow> None
      | Some (acc, off, r) \<Rightarrow>
          if off = 0 then None
          else case r of
            [] \<Rightarrow> Some (ip @ [acc div 256, acc mod 256], el, [])
          | c # r1 \<Rightarrow>
              if c = CHR ''.'' then
                (if el = None \<and> length ip \<noteq> 12 then None
                 else if length ip + 4 > 16 then None
                 else case parse_v4_fields s of
                   None \<Rightarrow> None
                 | Some fs \<Rightarrow> Some (ip @ fs, el, []))
              else if c \<noteq> CHR '':'' then None
              else case r1 of
                [] \<Rightarrow> None
              | d # r2 \<Rightarrow>
                  if d = CHR '':'' then
                    (if el \<noteq> None then None
                     else if r2 = [] then
                       Some (ip @ [acc div 256, acc mod 256], Some (length ip + 2), [])
                     else parse_v6_loop (ip @ [acc div 256, acc mod 256]) (Some (length ip + 2)) r2)
                  else parse_v6_loop (ip @ [acc div 256, acc mod 256]) el r1)"
  by pat_completeness auto
termination
  by (relation "measure (\<lambda>(ip, el, s). length s)") (auto dest!: hex_group_rest)

declare parse_v6_loop.simps [simp del]

definition parse_v6 :: "string \<Rightarrow> nat list option" where
  "parse_v6 s =
     (let (el, s1) = (if prefix ''::'' s then (Some 0, drop 2 s) else (None, s))
      in if el = Some 0 \<and> s1 = [] then Some (replicate 16 0)
         else case parse_v6_loop [] el s1 of
           None \<Rightarrow> None
         | Some (ip, el', r) \<Rightarrow>
             if r \<noteq> [] then None
             else if length ip < 16 then
               (case el' of
                  None \<Rightarrow> None
                | Some e \<Rightarrow> Some (take e ip @ replicate (16 - length ip) 0 @ drop e ip))
             else if el' \<noteq> None then None
             else Some ip)"

section \<open>ParseIP\<close>

text \<open>
  The first of the bytes \<^verbatim>\<open>.\<close>, \<^verbatim>\<open>:\<close> and \<^verbatim>\<open>%\<close> decides how the address is read; with a zone
  (\<^verbatim>\<open>%\<close> after a colon) \<^verbatim>\<open>net.ParseIP\<close> returns nil.
\<close>

definition parse_ip :: "string \<Rightarrow> nat list option" where
  "parse_ip s =
     (case find (\<lambda>c. c \<in> set ''.:%'') s of
        None \<Rightarrow> None
      | Some c \<Rightarrow>
          if c = CHR ''.'' then
            map_option (\<lambda>fs. replicate 10 0 @ [255, 255] @ fs) (parse_v4_fields s)
          else if c = CHR '':'' then
            (if CHR ''%'' \<in> set s then None else parse_v6 s)
          else None)"

text \<open>\<^verbatim>\<open>ip.To4() != nil\<close>.\<close>

definition is_v4 :: "nat list \<Rightarrow> bool" where
  "is_v4 ip \<longleftrightarrow> take 12 ip = replicate 10 0 @ [255, 255]"

section \<open>The bytes of an address\<close>

lemma parse_v4_loop_graphic:
  "parse_v4_loop fs v dl s = Some r \<Longrightarrow> c \<in> set s \<Longrightarrow> graphic c"
  by (induction fs v dl s rule: parse_v4_loop.induct)
     (auto simp: is_digit_graphic dot_graphic split: if_splits)

lemma hex_val_graphic: "hex_val c \<noteq> None \<Longrightarrow> graphic c"
  by (auto simp: hex_val_def is_digit_def graphic_def split: if_splits)

lemma hex_group_consumed:
  "hex_group acc off s = Some (a, n, r) \<Longrightarrow> \<exists>u. s = u @ r \<and> (\<forall>c \<in> set u. graphic c)"
proof (induction acc off s rule: hex_group.induct)
  case (2 acc off c s)
  show ?case
  proof (cases "hex_val c")
    case None
    with 2 show ?thesis by auto
  next
    case (Some d)
    with 2 obtain u where "s = u @ r" "\<forall>c \<in> set u. graphic c" by (auto split: if_splits)
    moreover have "graphic c" using Some by (simp add: hex_val_graphic)
    ultimately show ?thesis by (intro exI [of _ "c # u"]) auto
  qed
qed auto

lemma parse_v6_loop_graphic:
  "parse_v6_loop ip el s = Some (ip', el', []) \<Longrightarrow> c \<in> set s \<Longrightarrow> graphic c"
proof (induction ip el s rule: parse_v6_loop.induct)
  case (1 ip el s)
  have colon: "graphic CHR '':''" by (simp add: graphic_def)
  show ?case
  proof (cases "length ip \<ge> 16")
    case True
    with 1 show ?thesis by (simp add: parse_v6_loop.simps [of ip])
  next
    case False
    with 1 obtain acc off r where g: "hex_group 0 0 s = Some (acc, off, r)"
      by (auto simp: parse_v6_loop.simps [of ip] split: option.splits)
    from hex_group_consumed [OF g] obtain u where u: "s = u @ r" "\<forall>c \<in> set u. graphic c" by blast
    note prem = "1.prems"(1) [unfolded parse_v6_loop.simps [of ip el s] g, simplified False if_False]
    have "graphic c" if cr: "c \<in> set r"
    proof -
      have off: "off \<noteq> 0" using prem by (simp split: if_splits)
      from cr obtain d r1 where r: "r = d # r1" by (cases r) auto
      show ?thesis
      proof (cases "d = CHR ''.''")
        case True
        then obtain fs where "parse_v4_fields s = Some fs"
          using prem off r by (auto split: if_splits option.splits)
        then show ?thesis using "1.prems"(2) by (auto simp: parse_v4_fields_def dest: parse_v4_loop_graphic)
      next
        case dot: False
        then have d: "d = CHR '':''" using prem off r by (simp split: if_splits)
        obtain e r2 where r1: "r1 = e # r2" using prem off r d by (cases r1) auto
        note step = "1.IH" [OF False g refl refl off r dot]
        show ?thesis
        proof (cases "e = CHR '':''")
          case True
          with prem off r d r1 cr colon show ?thesis
            using step(1) [of e r2] by (cases "r2 = []") (auto split: if_splits)
        next
          case e: False
          with prem off r d r1 cr colon show ?thesis using step(2) [of e r2] by auto
        qed
      qed
    qed
    with u "1.prems" show ?thesis by auto
  qed
qed

lemma parse_ip_graphic: "parse_ip s \<noteq> None \<Longrightarrow> c \<in> set s \<Longrightarrow> graphic c"
proof -
  assume ip: "parse_ip s \<noteq> None" and c: "c \<in> set s"
  have v6: "graphic c" if "parse_v6 s = Some r" for r
  proof (cases "prefix ''::'' s")
    case True
    then obtain t where t: "s = ''::'' @ t" by (auto simp: prefix_def)
    have "t = [] \<or> (\<exists>ip el. parse_v6_loop [] (Some 0) t = Some (ip, el, []))"
      using that t by (auto simp: parse_v6_def split: option.splits if_splits)
    then show ?thesis
      using c t by (auto dest: parse_v6_loop_graphic simp: graphic_def)
  next
    case False
    then have "\<exists>ip el. parse_v6_loop [] None s = Some (ip, el, [])"
      using that by (auto simp: parse_v6_def split: option.splits if_splits)
    then show ?thesis using c by (auto dest: parse_v6_loop_graphic)
  qed
  have "(\<exists>fs. parse_v4_fields s = Some fs) \<or> (\<exists>r. parse_v6 s = Some r)"
    using ip by (auto simp: parse_ip_def split: option.splits if_splits)
  then show ?thesis using c v6 by (auto simp: parse_v4_fields_def dest: parse_v4_loop_graphic)
qed

end
