(* ===== verification/Dns_Names.thy ===== *)
theory Dns_Names
  imports Api_Types Go_Net
begin

text \<open>
  The first part of \<^verbatim>\<open>internal/dns/record.go\<close>: the record type and its errors, and the
  normalisation and validation of domain names. The lemmas characterise the names that
  pass (\<open>canonical\<close>), and show that a normalised zone and a fully qualified name are
  canonical, stable under normalising again, and inside their zone.
\<close>

section \<open>Data\<close>

definition DefaultTTL :: int32 where
  "DefaultTTL = 300"

record Source =
  src_Kind :: string
  src_Namespace :: string
  src_Name :: string

record Record =
  r_Zone :: string
  r_Name :: string
  r_FQDN :: string
  r_Type :: DNSRecordType
  r_TTL :: int32
  r_Values :: "string list"
  r_Source :: Source

record ValidationError =
  ve_Source :: Source
  ve_FQDN :: string
  ve_Message :: string

text \<open>The errors of the package: \<^verbatim>\<open>fmt.Errorf\<close> with its text, or a \<^verbatim>\<open>ValidationError\<close>.\<close>

datatype go_error = PlainError string | RecordError ValidationError

definition ValidationError_Error :: "ValidationError \<Rightarrow> string" where
  "ValidationError_Error e =
     (if src_Namespace (ve_Source e) \<noteq> [] then
        src_Namespace (ve_Source e) @ ''/'' @ src_Name (ve_Source e) @ '' '' @ ve_FQDN e @ '': '' @ ve_Message e
      else src_Name (ve_Source e) @ '' '' @ ve_FQDN e @ '': '' @ ve_Message e)"

fun error_text :: "go_error \<Rightarrow> string" where
  "error_text (PlainError m) = m"
| "error_text (RecordError e) = ValidationError_Error e"

section \<open>Domain names\<close>

definition normalizeDomain :: "string \<Rightarrow> string" where
  "normalizeDomain value =
     (let value = to_lower (trim_space value);
          value = trim_char CHR ''.'' value
      in if value = [] then ''.'' else value @ ''.'')"

text \<open>The body of the loop over the labels in \<^verbatim>\<open>validateDomain\<close>.\<close>

definition label_rune_ok :: "nat \<Rightarrow> bool" where
  "label_rune_ok r \<longleftrightarrow> (97 \<le> r \<and> r \<le> 122) \<or> (48 \<le> r \<and> r \<le> 57) \<or> r = 45"

definition check_label :: "string \<Rightarrow> string \<Rightarrow> go_error option" where
  "check_label value label =
     (if label = [] then Some (PlainError (''domain '' @ quote value @ '' contains an empty label''))
      else if length label > 63 then
        Some (PlainError (''label '' @ quote label @ '' exceeds 63 characters''))
      else if prefix ''-'' label \<or> suffix ''-'' label then
        Some (PlainError (''label '' @ quote label @ '' must not start or end with '' @ [CHR 0x27, CHR ''-'', CHR 0x27]))
      else first_error
        (\<lambda>(r, bs). if label_rune_ok r then None
           else Some (PlainError (''label '' @ quote label @ '' contains invalid character '' @ quote_rune r)))
        (go_runes label))"

definition validateDomain :: "string \<Rightarrow> go_error option" where
  "validateDomain value =
     (let value = trim_suffix value ''.'' in
      if length value > 253 then
        Some (PlainError (''domain '' @ quote value @ '' exceeds 253 characters''))
      else first_error (check_label value) (split_on CHR ''.'' value))"

definition NormalizeZone :: "string \<Rightarrow> go_error + string" where
  "NormalizeZone zone =
     (let normalized = normalizeDomain zone in
      if normalized = ''.'' \<or> normalized = [] then Inl (PlainError ''zone must not be empty'')
      else case validateDomain normalized of
        Some err \<Rightarrow> Inl err
      | None \<Rightarrow> Inr normalized)"

definition FQDN :: "string \<Rightarrow> string \<Rightarrow> go_error + string" where
  "FQDN name zone0 =
     (case NormalizeZone zone0 of
        Inl err \<Rightarrow> Inl err
      | Inr zone \<Rightarrow>
          (let name = trim_space name in
           if name = [] \<or> name = ''@'' then Inr zone
           else if suffix ''.'' name then
             (let fqdn = normalizeDomain name in
              if \<not> suffix (''.'' @ zone) fqdn \<and> fqdn \<noteq> zone then
                Inl (PlainError (''fqdn '' @ quote fqdn @ '' is outside zone '' @ quote zone))
              else case validateDomain fqdn of
                Some err \<Rightarrow> Inl err
              | None \<Rightarrow> Inr fqdn)
           else
             (let fqdn = normalizeDomain (name @ ''.'' @ zone) in
              case validateDomain fqdn of
                Some err \<Rightarrow> Inl err
              | None \<Rightarrow> Inr fqdn)))"

section \<open>Canonical names\<close>

text \<open>
  The names that pass: labels of one to 63 lower case letters, digits and hyphens that do
  not start or end with a hyphen, at most 253 bytes, and one trailing dot.
\<close>

definition ldh :: "char \<Rightarrow> bool" where
  "ldh c \<longleftrightarrow> label_rune_ok (byte c)"

definition valid_label :: "string \<Rightarrow> bool" where
  "valid_label l \<longleftrightarrow>
     l \<noteq> [] \<and> length l \<le> 63 \<and> hd l \<noteq> CHR ''-'' \<and> last l \<noteq> CHR ''-'' \<and> list_all ldh l"

definition valid_name :: "string \<Rightarrow> bool" where
  "valid_name v \<longleftrightarrow> length v \<le> 253 \<and> list_all valid_label (split_on CHR ''.'' v)"

definition canonical :: "string \<Rightarrow> bool" where
  "canonical d \<longleftrightarrow> d \<noteq> [] \<and> last d = CHR ''.'' \<and> valid_name (butlast d)"

lemma canonical_iff: "canonical d \<longleftrightarrow> (\<exists>v. d = v @ ''.'' \<and> valid_name v)"
  by (cases d rule: rev_cases) (auto simp: canonical_def)

lemma ldh_graphic: "ldh c \<Longrightarrow> graphic c"
  by (auto simp: ldh_def label_rune_ok_def graphic_def)

lemma ldh_ascii: "ldh c \<Longrightarrow> byte c < (128::nat)"
  by (auto simp: ldh_def label_rune_ok_def)

lemma ldh_lower: "ldh c \<Longrightarrow> ascii_lower c = c"
  by (auto simp: ldh_def label_rune_ok_def ascii_lower_def)

lemma ldh_not_dot: "\<not> ldh CHR ''.''"
  by (simp add: ldh_def label_rune_ok_def)

subsection \<open>Runes and bytes\<close>

lemma fold_cont_lower:
  "x * 64 ^ length ds \<le> foldl (\<lambda>a d. a * 64 + (byte d - (128::nat))) x ds"
proof (induction ds arbitrary: x)
  case (Cons d ds)
  have "x * 64 ^ length (d # ds) \<le> (x * 64 + (byte d - 128)) * 64 ^ length ds"
    by (simp add: algebra_simps)
  also have "\<dots> \<le> foldl (\<lambda>a d. a * 64 + (byte d - 128)) (x * 64 + (byte d - 128)) ds"
    by (rule Cons.IH)
  finally show ?case by simp
qed simp

lemma fold_cont_high:
  assumes "128 \<le> (x * 64 + (byte d - (128::nat))) * 64 ^ length ds"
  shows "128 \<le> foldl (\<lambda>a d. a * 64 + (byte d - 128)) x (d # ds)"
  using order_trans [OF assms fold_cont_lower] by simp

lemma decode_rune_high: "128 \<le> (byte c::nat) \<Longrightarrow> 128 \<le> fst (decode_rune c s)"
proof -
  assume c: "128 \<le> (byte c::nat)"
  show ?thesis
  proof (cases "lead_info (byte c)")
    case None
    with c show ?thesis by (simp add: decode_rune_def rune_error_def)
  next
    case (Some t)
    obtain w lo hi where t: "t = (w, lo, hi)" by (cases t)
    have w: "2 \<le> w" using Some t by (auto simp: lead_info_def split: if_splits)
    define x where "x = (if w = 2 then byte c - 192 else if w = 3 then byte c - 224 else byte c - 240 :: nat)"
    have "128 \<le> foldl (\<lambda>a d. a * 64 + (byte d - 128)) x (take (w - 1) s)"
      if ok: "w - 1 \<le> length s" "cont_byte lo hi (s ! 0)"
    proof -
      from w ok(1) obtain d ds where ds: "take (w - 1) s = d # ds" "length ds = w - 2" "d = s ! 0"
        by (cases "take (w - 1) s"; cases s) (auto simp: take_Cons' split: if_splits)
      have "128 \<le> (x * 64 + (byte d - (128::nat))) * 64 ^ (w - 2)"
        using Some t c ok(2) unfolding x_def ds(3)
        by (auto simp: lead_info_def cont_byte_def split: if_splits)
      then show ?thesis using fold_cont_high ds by simp
    qed
    then show ?thesis
      using Some t c by (auto simp: decode_rune_def Let_def rune_error_def x_def)
  qed
qed

lemma runes_ascii_iff: "(\<forall>(r, bs) \<in> set (go_runes s). r < 128) \<longleftrightarrow> ascii s"
proof
  assume "ascii s"
  then show "\<forall>(r, bs) \<in> set (go_runes s). r < 128" by (auto simp: go_runes_ascii ascii_def)
next
  show "\<forall>(r, bs) \<in> set (go_runes s). r < 128 \<Longrightarrow> ascii s"
  proof (induction s rule: go_runes.induct)
    case (2 c s)
    obtain r w where rw: "decode_rune c s = (r, w)" by force
    from "2.prems" rw have "r < 128" by auto
    with decode_rune_high [of c s] rw have c: "byte c < (128::nat)" by fastforce
    with rw have "w = 1" by simp
    with 2 rw c show ?case by auto
  qed simp
qed

lemma label_runes_iff:
  "(\<forall>(r, bs) \<in> set (go_runes s). label_rune_ok r) \<longleftrightarrow> list_all ldh s" (is "?L \<longleftrightarrow> ?R")
proof -
  have "?L \<Longrightarrow> ascii s"
    using runes_ascii_iff [of s] by (fastforce simp: label_rune_ok_def)
  moreover have "?R \<Longrightarrow> ascii s"
    by (auto simp: list_all_iff ascii_def ldh_ascii)
  ultimately show ?thesis
    by (cases "ascii s") (auto simp: go_runes_ascii list_all_iff ldh_def)
qed

subsection \<open>validateDomain accepts exactly the valid names\<close>

lemma check_label_None: "check_label v l = None \<longleftrightarrow> valid_label l"
proof -
  have "prefix ''-'' l \<longleftrightarrow> l \<noteq> [] \<and> hd l = CHR ''-''" by (cases l) auto
  moreover have "suffix ''-'' l \<longleftrightarrow> l \<noteq> [] \<and> last l = CHR ''-''"
    by (cases l rule: rev_cases) (auto simp: suffix_def)
  moreover have "first_error
        (\<lambda>(r, bs). if label_rune_ok r then None else Some (m r)) (go_runes l) = None
      \<longleftrightarrow> list_all ldh l" for m :: "nat \<Rightarrow> go_error"
    by (auto simp: first_error_None split: prod.splits if_splits simp flip: label_runes_iff)
  ultimately show ?thesis
    by (auto simp: check_label_def valid_label_def split: if_splits)
qed

lemma validateDomain_None: "validateDomain v = None \<longleftrightarrow> valid_name (trim_suffix v ''.'')"
  by (auto simp: validateDomain_def Let_def first_error_None check_label_None valid_name_def list_all_iff)

lemma validateDomain_dot [simp]: "validateDomain (v @ ''.'') = None \<longleftrightarrow> valid_name v"
  by (simp add: validateDomain_None)

lemma validateDomain_canonical: "canonical d \<Longrightarrow> validateDomain d = None"
  by (auto simp: canonical_iff)

subsection \<open>Valid names are stable\<close>

lemma valid_name_bytes: "valid_name v \<Longrightarrow> c \<in> set v \<Longrightarrow> ldh c \<or> c = CHR ''.''"
proof -
  assume v: "valid_name v" and c: "c \<in> set v"
  have "c \<in> set (join ''.'' (split_on CHR ''.'' v))" using c by simp
  then have "c = CHR ''.'' \<or> (\<exists>l \<in> set (split_on CHR ''.'' v). c \<in> set l)"
    using set_join [of "''.''" "split_on CHR ''.'' v"] by auto
  with v show ?thesis by (auto simp: valid_name_def valid_label_def list_all_iff)
qed

lemma valid_name_ends:
  assumes "valid_name v"
  shows "v \<noteq> []" and "hd v \<noteq> CHR ''.''" and "last v \<noteq> CHR ''.''"
proof -
  show ne: "v \<noteq> []" using assms by (auto simp: valid_name_def valid_label_def)
  show "hd v \<noteq> CHR ''.''"
  proof
    assume "hd v = CHR ''.''"
    with ne obtain u where "v = CHR ''.'' # u" by (cases v) auto
    with assms show False by (simp add: valid_name_def valid_label_def)
  qed
  show "last v \<noteq> CHR ''.''"
  proof
    assume "last v = CHR ''.''"
    with ne obtain u where "v = u @ CHR ''.'' # []" by (cases v rule: rev_cases) auto
    then have "[] \<in> set (split_on CHR ''.'' v)" by (simp only: split_on_append) simp
    with assms show False by (auto simp: valid_name_def valid_label_def list_all_iff)
  qed
qed

lemma canonical_bytes: "canonical d \<Longrightarrow> c \<in> set d \<Longrightarrow> ldh c \<or> c = CHR ''.''"
  by (auto simp: canonical_iff dest: valid_name_bytes)

lemma canonical_graphic: "canonical d \<Longrightarrow> c \<in> set d \<Longrightarrow> graphic c"
  using canonical_bytes ldh_graphic dot_graphic by blast

lemma to_lower_ldh: "\<forall>c \<in> set s. ldh c \<or> c = CHR ''.'' \<Longrightarrow> to_lower s = s"
proof -
  assume s: "\<forall>c \<in> set s. ldh c \<or> c = CHR ''.''"
  then have "ascii s" by (auto simp: ascii_def ldh_ascii)
  moreover have "map ascii_lower s = s"
  proof (rule map_idI)
    fix c assume "c \<in> set s"
    with s have "ldh c \<or> c = CHR ''.''" by blast
    moreover have "ascii_lower CHR ''.'' = CHR ''.''" by (simp add: ascii_lower_def)
    ultimately show "ascii_lower c = c" using ldh_lower by metis
  qed
  ultimately show ?thesis by (simp add: to_lower_ascii)
qed

lemma normalizeDomain_canonical [simp]: "canonical d \<Longrightarrow> normalizeDomain d = d"
proof -
  assume d: "canonical d"
  then obtain v where v: "d = v @ ''.''" "valid_name v" by (auto simp: canonical_iff)
  note e = valid_name_ends [OF v(2)]
  have "trim_space d = d"
    by (rule trim_space_all_graphic) (use canonical_graphic [OF d] in blast)
  moreover have "to_lower d = d"
    by (rule to_lower_ldh) (use canonical_bytes [OF d] in blast)
  moreover have "trim_char CHR ''.'' d = v"
  proof -
    have "dropWhile ((=) CHR ''.'') d = d" using e(1,2) v(1) by (cases v) auto
    then show ?thesis using v(1) e(3) by (simp add: trim_char_def trim_right_char_id)
  qed
  ultimately show ?thesis using v(1) e(1) by (simp add: normalizeDomain_def)
qed

lemma normalizeDomain_form:
  "normalizeDomain x = ''.'' \<or> (\<exists>v. v \<noteq> [] \<and> normalizeDomain x = v @ ''.'')"
  by (auto simp: normalizeDomain_def Let_def)

lemma normalizeDomain_dotted: "\<exists>v. normalizeDomain x = v @ ''.''"
  by (auto simp: normalizeDomain_def Let_def)

lemma normalizeDomain_trim [simp]: "normalizeDomain (trim_space x) = normalizeDomain x"
  by (simp add: normalizeDomain_def)

lemma validate_normalized_iff:
  "validateDomain (normalizeDomain x) = None \<longleftrightarrow> canonical (normalizeDomain x)"
  using normalizeDomain_dotted [of x] by (auto simp: canonical_iff)

section \<open>Zones\<close>

lemma NormalizeZone_iff:
  "NormalizeZone z = Inr n \<longleftrightarrow> n = normalizeDomain z \<and> canonical n"
proof -
  have "\<not> canonical ''.''" by (auto simp: canonical_def valid_name_def valid_label_def)
  moreover have "\<not> canonical []" by (simp add: canonical_def)
  ultimately have
    "NormalizeZone z = Inr n \<longleftrightarrow> canonical (normalizeDomain z) \<and> n = normalizeDomain z"
    using validate_normalized_iff [of z]
    by (auto simp: NormalizeZone_def Let_def split: option.splits)
  then show ?thesis by metis
qed

lemma NormalizeZone_canonical: "NormalizeZone z = Inr n \<Longrightarrow> canonical n"
  using NormalizeZone_iff by blast

lemma NormalizeZone_idem [simp]: "canonical n \<Longrightarrow> NormalizeZone n = Inr n"
  by (simp add: NormalizeZone_iff)

section \<open>Fully qualified names\<close>

definition in_zone :: "string \<Rightarrow> string \<Rightarrow> bool" where
  "in_zone zone fqdn \<longleftrightarrow> fqdn = zone \<or> suffix (''.'' @ zone) fqdn"

lemma decode_rune_append:
  assumes "t = [] \<or> byte (hd t) < (128::nat)"
  shows "decode_rune c (s @ t) = decode_rune c s"
proof (cases "lead_info (byte c)")
  case None
  then show ?thesis by (simp add: decode_rune_def Let_def)
next
  case (Some i)
  obtain w lo hi where i: "i = (w, lo, hi)" by (cases i)
  have w: "2 \<le> w" "w \<le> 4" and lo: "128 \<le> lo"
    using Some i by (auto simp: lead_info_def split: if_splits)
  show ?thesis
  proof (cases "w - 1 \<le> length s")
    case True
    with w have "s \<noteq> []" "take (w - 1) (s @ t) = take (w - 1) s"
      "take (w - 2) (drop 1 (s @ t)) = take (w - 2) (drop 1 s)"
      by (auto simp: take_Cons')
    with True Some i show ?thesis by (simp add: decode_rune_def Let_def nth_append)
  next
    case False
    have "\<not> (w - 1 \<le> length (s @ t) \<and> cont_byte lo hi ((s @ t) ! 0)
        \<and> list_all (cont_byte 128 191) (take (w - 2) (drop 1 (s @ t))))"
    proof
      assume *: "w - 1 \<le> length (s @ t) \<and> cont_byte lo hi ((s @ t) ! 0)
        \<and> list_all (cont_byte 128 191) (take (w - 2) (drop 1 (s @ t)))"
      with False have t: "t \<noteq> []" by auto
      show False
      proof (cases "s = []")
        case True
        with * t assms lo show False by (cases t) (auto simp: cont_byte_def)
      next
        case s: False
        then obtain a s' b t' where st: "s = a # s'" "t = b # t'"
          using t by (cases s; cases t) auto
        then have "length s' < w - 2" using False by simp
        then have "b \<in> set (take (w - 2) (s' @ b # t'))" by (auto simp: take_Cons')
        then have "b \<in> set (take (w - 2) (drop 1 (s @ t)))" using st by simp
        with * have "cont_byte 128 191 b" by (metis list_all_iff)
        with assms st show False by (auto simp: cont_byte_def)
      qed
    qed
    with False Some i show ?thesis by (auto simp: decode_rune_def Let_def Suc_le_eq)
  qed
qed

lemma decode_rune_width: "snd (decode_rune c s) \<le> Suc (length s) \<and> 1 \<le> snd (decode_rune c s)"
proof (cases "lead_info (byte c)")
  case None
  then show ?thesis by (simp add: decode_rune_def Let_def)
next
  case (Some i)
  obtain w lo hi where i: "i = (w, lo, hi)" by (cases i)
  have "1 \<le> w" using Some i by (auto simp: lead_info_def split: if_splits)
  with Some i show ?thesis by (auto simp: decode_rune_def Let_def)
qed

lemma go_runes_append:
  assumes "t = [] \<or> byte (hd t) < (128::nat)"
  shows "go_runes (s @ t) = go_runes s @ go_runes t"
proof (induction s rule: go_runes.induct)
  case 1
  then show ?case by simp
next
  case (2 c s)
  obtain r w where rw: "decode_rune c s = (r, w)" by force
  with decode_rune_width [of c s] have "w - 1 \<le> length s" by (simp add: le_diff_conv)
  with 2 rw show ?case by (simp add: decode_rune_append [OF assms])
qed

lemma to_lower_append:
  "t = [] \<or> byte (hd t) < (128::nat) \<Longrightarrow> to_lower (s @ t) = to_lower s @ to_lower t"
  by (simp add: to_lower_def go_runes_append)

text \<open>A trimmed name followed by a dot and a canonical zone has no white space at its ends.\<close>

lemma trim_space_qualify:
  assumes "canonical zone"
  shows "trim_space (trim_space name @ ''.'' @ zone) = trim_space name @ ''.'' @ zone"
proof (rule trim_space_id)
  have nd: "CHR ''.'' \<notin> set t" if "t \<in> set space_runes" for t
    using graphic_no_space [OF dot_graphic that] .
  have "\<not> prefix t (trim_space name @ ''.'' @ zone)" if t: "t \<in> set space_runes" "t \<noteq> []" for t
  proof
    assume "prefix t (trim_space name @ ''.'' @ zone)"
    then consider "prefix t (trim_space name)" | u where "t = trim_space name @ CHR ''.'' # u"
      by (auto simp: prefix_append prefix_Cons)
    then show False
    proof cases
      case 1
      with trim_space_stripped(1) [of name] t show False by (simp add: starts_with_None)
    next
      case 2
      with nd [OF t(1)] show False by simp
    qed
  qed
  then show "starts_with space_runes (trim_space name @ ''.'' @ zone) = None"
    by (simp add: starts_with_None)
  have "zone \<noteq> []" "graphic (last zone)"
    using assms dot_graphic by (auto simp: canonical_def)
  then show "starts_with (map rev space_runes) (rev (trim_space name @ ''.'' @ zone)) = None"
    by (intro starts_with_graphic_rev) (auto simp: hd_rev)
qed

lemma dropWhile_dots:
  "dropWhile ((=) CHR ''.'') (l @ x) =
     (if \<forall>c \<in> set l. c = CHR ''.'' then dropWhile ((=) CHR ''.'') x else dropWhile ((=) CHR ''.'') l @ x)"
  by (induction l) auto

lemma normalizeDomain_qualify:
  assumes "canonical zone"
  shows "in_zone zone (normalizeDomain (trim_space name @ ''.'' @ zone))"
proof -
  let ?L = "to_lower (trim_space name)"
  from assms obtain v where v: "zone = v @ ''.''" "valid_name v" by (auto simp: canonical_iff)
  note e = valid_name_ends [OF v(2)]
  have "to_lower (trim_space name @ ''.'' @ zone) = ?L @ to_lower (''.'' @ zone)"
    by (rule to_lower_append) simp
  also have "to_lower (''.'' @ zone) = ''.'' @ zone"
    by (rule to_lower_ldh) (use canonical_bytes [OF assms] in auto)
  finally have low: "to_lower (trim_space name @ ''.'' @ zone) = ?L @ ''.'' @ v @ ''.''"
    using v(1) by simp
  have dv: "dropWhile ((=) CHR ''.'') (v @ ''.'') = v @ ''.''" using e(1,2) by (cases v) auto
  have tv: "trim_right_char CHR ''.'' (u @ v @ ''.'') = u @ v" for u
  proof -
    have "trim_right_char CHR ''.'' (u @ v @ ''.'') = trim_right_char CHR ''.'' (u @ v)"
      using trim_right_char_snoc [of "CHR ''.''" "u @ v" "CHR ''.''"] by simp
    also have "\<dots> = u @ v" by (rule trim_right_char_id) (use e(1,3) in simp)
    finally show ?thesis .
  qed
  show ?thesis
  proof (cases "\<forall>c \<in> set ?L. c = CHR ''.''")
    case True
    then have "trim_char CHR ''.'' (?L @ ''.'' @ v @ ''.'') = v"
      using dv tv [of "[]"] by (simp add: trim_char_def dropWhile_dots)
    then have "normalizeDomain (trim_space name @ ''.'' @ zone) = v @ ''.''"
      unfolding normalizeDomain_def trim_space_qualify [OF assms] low using e(1) by simp
    then show ?thesis using v(1) by (simp add: in_zone_def)
  next
    case False
    define L where "L = dropWhile ((=) CHR ''.'') ?L"
    have d: "dropWhile ((=) CHR ''.'') (?L @ x) = L @ x" for x
      using False by (auto simp: dropWhile_dots L_def)
    have "trim_char CHR ''.'' (?L @ ''.'' @ v @ ''.'') = L @ ''.'' @ v"
      using tv [of "L @ ''.''"] by (simp add: trim_char_def d)
    then have "normalizeDomain (trim_space name @ ''.'' @ zone) = L @ ''.'' @ v @ ''.''"
      unfolding normalizeDomain_def trim_space_qualify [OF assms] low by simp
    then show ?thesis using v(1) by (simp add: in_zone_def suffix_def)
  qed
qed

lemma FQDN_Inr:
  assumes "FQDN name zone0 = Inr d"
  shows "canonical d" and "in_zone (normalizeDomain zone0) d" and "canonical (normalizeDomain zone0)"
proof -
  obtain zone where zone: "NormalizeZone zone0 = Inr zone"
    using assms by (auto simp: FQDN_def split: sum.splits)
  then have z: "zone = normalizeDomain zone0" "canonical zone" by (auto simp: NormalizeZone_iff)
  then show "canonical (normalizeDomain zone0)" by simp
  let ?n = "trim_space name"
  consider "d = zone"
    | "d = normalizeDomain ?n" "in_zone zone d" "validateDomain d = None"
    | "d = normalizeDomain (?n @ ''.'' @ zone)" "validateDomain d = None"
    using assms zone
    by (auto simp: FQDN_def Let_def in_zone_def split: if_splits option.splits)
  then have "canonical d \<and> in_zone zone d"
  proof cases
    case 1
    then show ?thesis using z by (simp add: in_zone_def)
  next
    case 2
    then show ?thesis using validate_normalized_iff by auto
  next
    case 3
    then show ?thesis using validate_normalized_iff normalizeDomain_qualify [OF z(2)] by metis
  qed
  then show "canonical d" "in_zone (normalizeDomain zone0) d" using z(1) by auto
qed

text \<open>Qualifying a qualified name again changes nothing.\<close>

lemma FQDN_absolute:
  assumes "canonical d" and "canonical zone" and "in_zone zone d"
  shows "FQDN d zone = Inr d"
proof -
  have t: "trim_space d = d"
    by (rule trim_space_all_graphic) (use canonical_graphic [OF assms(1)] in blast)
  obtain v where v: "d = v @ ''.''" "valid_name v" using assms(1) by (auto simp: canonical_iff)
  then have "suffix ''.'' d" "d \<noteq> []" "d \<noteq> ''@''" by (auto simp: suffix_def Cons_eq_append_conv)
  then show ?thesis
    using assms t validateDomain_canonical [OF assms(1)] by (auto simp: FQDN_def in_zone_def)
qed

section \<open>The bytes of a host name before it is normalised\<close>

lemma to_lower_ascii_byte:
  assumes "c \<in> set s" and "byte c < (128::nat)"
  shows "ascii_lower c \<in> set (to_lower s)"
proof -
  obtain a b where s: "s = a @ c # b" using assms(1) by (meson split_list)
  have "to_lower s = to_lower a @ to_lower ([c] @ b)"
    unfolding s using to_lower_append [of "c # b" a] assms(2) by simp
  moreover have "ascii_lower c \<in> set (to_lower (c # b))"
    using assms(2) by (simp add: to_lower_def rune_lower_ascii)
  ultimately show ?thesis by simp
qed

text \<open>The ASCII bytes of a value that normalises to a valid name.\<close>

lemma target_bytes:
  assumes "canonical (normalizeDomain v)" and "c \<in> set (trim_space v)" and "byte c < (128::nat)"
  shows "c = CHR ''.'' \<or> ldh (ascii_lower c)"
proof -
  have l: "ascii_lower c \<in> set (to_lower (trim_space v))" using assms(2,3) by (rule to_lower_ascii_byte)
  show ?thesis
  proof (cases "ascii_lower c = CHR ''.''")
    case True
    have "\<not> (65 \<le> byte c \<and> byte c \<le> (90::nat))"
    proof
      assume up: "65 \<le> byte c \<and> byte c \<le> (90::nat)"
      then have "byte (ascii_lower c) = byte c + (32::nat)" by (simp add: ascii_lower_def byte_char_of)
      with True up show False by simp
    qed
    with True show ?thesis by (simp add: ascii_lower_def split: if_splits)
  next
    case False
    then have "ascii_lower c \<in> set (normalizeDomain v)"
      using trim_char_keeps [OF False l] by (auto simp: normalizeDomain_def Let_def)
    with canonical_bytes [OF assms(1) this] False show ?thesis by blast
  qed
qed

lemma target_no_newline:
  assumes "canonical (normalizeDomain v)"
  shows "CHR 0x0A \<notin> set (trim_space v)"
proof
  assume "CHR 0x0A \<in> set (trim_space v)"
  from target_bytes [OF assms this] have "ldh (CHR 0x0A)" by (simp add: ascii_lower_def)
  then show False by (simp add: ldh_def label_rune_ok_def)
qed

end
