(* ===== verification/Dns_Record.thy ===== *)
theory Dns_Record
  imports Dns_Names
begin

text \<open>
  The second part of \<^verbatim>\<open>internal/dns/record.go\<close>: the validation of one record and of a set of
  records.
\<close>

section \<open>Validation of one record\<close>

definition validateValue :: "DNSRecordType \<Rightarrow> string \<Rightarrow> go_error option" where
  "validateValue recordType value0 =
     (let value = trim_space value0 in
      if recordType = DNSRecordTypeA then
        (case parse_ip value of
           None \<Rightarrow> Some (PlainError (''value '' @ quote value @ '' for an A record must be an IPv4 address''))
         | Some ip \<Rightarrow>
             if \<not> is_v4 ip then
               Some (PlainError (''value '' @ quote value @ '' for an A record must be an IPv4 address''))
             else None)
      else if recordType = DNSRecordTypeAAAA then
        (case parse_ip value of
           None \<Rightarrow> Some (PlainError (''value '' @ quote value @ '' for an AAAA record must be an IPv6 address''))
         | Some ip \<Rightarrow>
             if is_v4 ip then
               Some (PlainError (''value '' @ quote value @ '' for an AAAA record must be an IPv6 address''))
             else None)
      else if recordType = DNSRecordTypeCNAME then validateDomain (normalizeDomain value)
      else if recordType = DNSRecordTypeTXT then
        (if value = [] then Some (PlainError ''value for a TXT record must not be empty'') else None)
      else if recordType = DNSRecordTypeMX then
        (let parts = str_fields value in
         if length parts \<noteq> 2 then
           Some (PlainError (''value '' @ quote value @ '' for an MX record must be ''
             @ [CHR 0x27] @ ''<priority> <host>'' @ [CHR 0x27]))
         else if atoi (parts ! 0) = None then
           Some (PlainError (''priority '' @ quote (parts ! 0) @ '' in an MX record must be an integer''))
         else validateDomain (normalizeDomain (parts ! 1)))
      else if recordType = DNSRecordTypeSRV then
        (let parts = str_fields value in
         if length parts \<noteq> 4 then
           Some (PlainError (''value '' @ quote value @ '' for an SRV record must be ''
             @ [CHR 0x27] @ ''<priority> <weight> <port> <target>'' @ [CHR 0x27]))
         else case first_error
             (\<lambda>part. if atoi part = None
                then Some (PlainError (''numeric field '' @ quote part @ '' in an SRV record must be an integer''))
                else None) (take 3 parts) of
           Some err \<Rightarrow> Some err
         | None \<Rightarrow> validateDomain (normalizeDomain (parts ! 3)))
      else Some (PlainError (''unsupported record type '' @ quote recordType)))"

definition record_error :: "Record \<Rightarrow> string \<Rightarrow> go_error" where
  "record_error record message =
     RecordError \<lparr>ve_Source = r_Source record, ve_FQDN = r_FQDN record, ve_Message = message\<rparr>"

definition ValidateRecord :: "Record \<Rightarrow> go_error list" where
  "ValidateRecord record =
     (if sint (r_TTL record) \<le> 0 then [record_error record ''ttl must be greater than zero''] else [])
     @ (if length (r_Values record) = 0 then [record_error record ''at least one value is required''] else [])
     @ concat (map (\<lambda>value. case validateValue (r_Type record) value of
          None \<Rightarrow> []
        | Some err \<Rightarrow> [record_error record (error_text err)]) (r_Values record))"

section \<open>Validation of a set of records\<close>

text \<open>\<^verbatim>\<open>byFQDN[record.FQDN] = append(byFQDN[record.FQDN], record)\<close> over all records.\<close>

definition group_by_fqdn :: "Record list \<Rightarrow> (string, Record list) gomap" where
  "group_by_fqdn records =
     foldl (\<lambda>m record. AList.update (r_FQDN record)
        ((case map_of m (r_FQDN record) of None \<Rightarrow> [] | Some rs \<Rightarrow> rs) @ [record]) m) [] records"

text \<open>
  The inner loop: the distinct normalised CNAME targets, the first CNAME record, and the
  number of records of another type.
\<close>

definition scan_step :: "string list \<times> Record option \<times> nat \<Rightarrow> Record \<Rightarrow> string list \<times> Record option \<times> nat" where
  "scan_step st record =
     (let (targets, cnameSource, otherTypes) = st in
      if r_Type record \<noteq> DNSRecordTypeCNAME then (targets, cnameSource, otherTypes + 1)
      else
        (foldl (\<lambda>ts value. List.insert (normalizeDomain value) ts) targets (r_Values record),
         (case cnameSource of None \<Rightarrow> Some record | Some c \<Rightarrow> Some c),
         otherTypes))"

definition scan_set :: "Record list \<Rightarrow> string list \<times> Record option \<times> nat" where
  "scan_set rs = foldl scan_step ([], None, 0) rs"

definition set_errors :: "string \<Rightarrow> Record list \<Rightarrow> go_error list" where
  "set_errors fqdn rs =
     (let (targets, cnameSource, otherTypes) = scan_set rs in
      case cnameSource of
        None \<Rightarrow> []
      | Some c \<Rightarrow>
          if length targets = 0 then []
          else if otherTypes > 0 then
            [RecordError \<lparr>ve_Source = r_Source c, ve_FQDN = fqdn,
               ve_Message = ''CNAME cannot share a name with any other record type''\<rparr>]
          else if length targets > 1 then
            [RecordError \<lparr>ve_Source = r_Source c, ve_FQDN = fqdn,
               ve_Message = ''CNAME must have exactly one target, found '' @ dec (length targets)\<rparr>]
          else [])"

definition ValidateRecordSet :: "Record list \<Rightarrow> go_error list" where
  "ValidateRecordSet records =
     (let byFQDN = group_by_fqdn records;
          fqdns = sort (map fst byFQDN)
      in concat (map (\<lambda>fqdn. set_errors fqdn (the (map_of byFQDN fqdn))) fqdns))"

definition ValidateRecords :: "Record list \<Rightarrow> go_error list" where
  "ValidateRecords records = concat (map ValidateRecord records) @ ValidateRecordSet records"

section \<open>What the checks accept\<close>

lemma validateValue_trim [simp]: "validateValue t (trim_space v) = validateValue t v"
  by (simp add: validateValue_def)

lemma ValidateRecord_Nil:
  "ValidateRecord r = [] \<longleftrightarrow>
     0 < sint (r_TTL r) \<and> r_Values r \<noteq> [] \<and> (\<forall>v \<in> set (r_Values r). validateValue (r_Type r) v = None)"
  by (auto simp: ValidateRecord_def split: option.splits)

lemma ValidateRecord_errors:
  "e \<in> set (ValidateRecord r) \<Longrightarrow> \<exists>m. e = record_error r m"
  by (auto simp: ValidateRecord_def split: if_splits option.splits)

text \<open>Which error is reported first, on every branch.\<close>

lemma ValidateRecord_hd:
  "\<not> 0 < sint (r_TTL r) \<Longrightarrow> hd (ValidateRecord r) = record_error r ''ttl must be greater than zero''"
  "0 < sint (r_TTL r) \<Longrightarrow> r_Values r = []
   \<Longrightarrow> ValidateRecord r = [record_error r ''at least one value is required'']"
  by (simp_all add: ValidateRecord_def)

lemma ValidateRecord_first_bad_value:
  assumes "0 < sint (r_TTL r)" and "r_Values r = us @ v # vs"
    and "\<forall>u \<in> set us. validateValue (r_Type r) u = None" and "validateValue (r_Type r) v = Some e"
  shows "hd (ValidateRecord r) = record_error r (error_text e)"
proof -
  let ?f = "\<lambda>value. case validateValue (r_Type r) value of
          None \<Rightarrow> [] | Some err \<Rightarrow> [record_error r (error_text err)]"
  have none: "concat (map ?f us) = []" using assms(3) by simp
  have "ValidateRecord r = concat (map ?f us) @ concat (map ?f (v # vs))"
    using assms(1,2) by (simp add: ValidateRecord_def)
  then show ?thesis unfolding none using assms(4) by simp
qed

section \<open>CNAME conflicts\<close>

text \<open>
  The specification of the set check. At one name, the CNAME records have a set of
  normalised targets; there is a conflict if there is a target and either a record of
  another type or a second target.
\<close>

definition cname_targets :: "Record list \<Rightarrow> string \<Rightarrow> string set" where
  "cname_targets rs f =
     {normalizeDomain v | r v. r \<in> set rs \<and> r_FQDN r = f \<and> r_Type r = DNSRecordTypeCNAME \<and> v \<in> set (r_Values r)}"

definition cname_conflict :: "Record list \<Rightarrow> string \<Rightarrow> bool" where
  "cname_conflict rs f \<longleftrightarrow>
     cname_targets rs f \<noteq> {} \<and>
     ((\<exists>r \<in> set rs. r_FQDN r = f \<and> r_Type r \<noteq> DNSRecordTypeCNAME) \<or> card (cname_targets rs f) > 1)"

lemma cname_targetsI:
  "r \<in> set rs \<Longrightarrow> r_FQDN r = f \<Longrightarrow> r_Type r = DNSRecordTypeCNAME \<Longrightarrow> v \<in> set (r_Values r)
   \<Longrightarrow> normalizeDomain v \<in> cname_targets rs f"
  by (auto simp: cname_targets_def)

lemma finite_cname_targets [simp]: "finite (cname_targets rs f)"
proof -
  have "cname_targets rs f \<subseteq> normalizeDomain ` (\<Union>r \<in> set rs. set (r_Values r))"
    by (auto simp: cname_targets_def)
  then show ?thesis by (rule finite_subset) simp
qed

lemma cname_conflictD:
  assumes "cname_conflict rs f"
  shows "\<exists>r \<in> set rs. r_FQDN r = f \<and> r_Type r = DNSRecordTypeCNAME"
  using assms by (auto simp: cname_conflict_def cname_targets_def)

text \<open>Grouping.\<close>

lemma group_by_fqdn_get:
  "map_of (group_by_fqdn rs) f =
     (if f \<in> r_FQDN ` set rs then Some (filter (\<lambda>r. r_FQDN r = f) rs) else None)"
proof (induction rs arbitrary: f rule: rev_induct)
  case Nil
  then show ?case by (simp add: group_by_fqdn_def)
next
  case (snoc r rs)
  have "g \<notin> r_FQDN ` set rs \<Longrightarrow> filter (\<lambda>r. r_FQDN r = g) rs = []" for g
    by (auto simp: filter_empty_conv)
  with snoc show ?case by (simp add: group_by_fqdn_def)
qed

lemma distinct_group: "distinct (map fst (group_by_fqdn rs))"
  by (induction rs rule: rev_induct) (auto simp: group_by_fqdn_def)

lemma set_group: "set (map fst (group_by_fqdn rs)) = r_FQDN ` set rs"
proof -
  have "f \<in> fst ` set (group_by_fqdn rs) \<longleftrightarrow> f \<in> r_FQDN ` set rs" for f
    using group_by_fqdn_get [of rs f] has_key_iff [of "group_by_fqdn rs" f] by (auto split: if_splits)
  then show ?thesis by auto
qed

text \<open>The inner loop.\<close>

lemma fold_insert_targets:
  "distinct ts \<Longrightarrow>
     distinct (foldl (\<lambda>ts v. List.insert (normalizeDomain v) ts) ts vs) \<and>
     set (foldl (\<lambda>ts v. List.insert (normalizeDomain v) ts) ts vs) = set ts \<union> normalizeDomain ` set vs"
  by (induction vs arbitrary: ts) auto

lemma scan_set_spec:
  fixes rs
  defines "st \<equiv> scan_set rs"
  shows "distinct (fst st)"
    and "set (fst st) = {normalizeDomain v | r v. r \<in> set rs \<and> r_Type r = DNSRecordTypeCNAME \<and> v \<in> set (r_Values r)}"
    and "fst (snd st) = find (\<lambda>r. r_Type r = DNSRecordTypeCNAME) rs"
    and "snd (snd st) = length (filter (\<lambda>r. r_Type r \<noteq> DNSRecordTypeCNAME) rs)"
  unfolding st_def
proof (induction rs rule: rev_induct)
  case Nil
  {
    case 1 show ?case by (simp add: scan_set_def)
  next
    case 2 show ?case by (simp add: scan_set_def)
  next
    case 3 show ?case by (simp add: scan_set_def)
  next
    case 4 show ?case by (simp add: scan_set_def)
  }
next
  case (snoc r rs)
  obtain ts c n where st: "scan_set rs = (ts, c, n)" by (cases "scan_set rs")
  note IH = snoc [unfolded st, simplified]
  have new: "scan_set (rs @ [r]) = scan_step (ts, c, n) r"
    using st by (simp add: scan_set_def)
  have fnd: "find P (xs @ ys) = (case find P xs of None \<Rightarrow> find P ys | Some x \<Rightarrow> Some x)"
    for P and xs ys :: "Record list"
    by (induction xs) auto
  {
    case 1 show ?case
      using IH(1) fold_insert_targets [of ts "r_Values r"] by (simp add: new scan_step_def)
  next
    case 2 show ?case
      using IH(1,2) fold_insert_targets [of ts "r_Values r"]
      by (auto simp: new scan_step_def)
  next
    case 3 show ?case
      using IH(3) by (auto simp: new scan_step_def fnd split: option.splits)
  next
    case 4 show ?case using IH(4) by (simp add: new scan_step_def)
  }
qed

text \<open>The errors at one name.\<close>

lemma cname_targets_filter:
  "cname_targets rs f = {normalizeDomain v | r v. r \<in> set (filter (\<lambda>r. r_FQDN r = f) rs)
      \<and> r_Type r = DNSRecordTypeCNAME \<and> v \<in> set (r_Values r)}"
  by (auto simp: cname_targets_def)

text \<open>The error a conflict at one name is reported with: it blames the first CNAME record.\<close>

definition conflict_detail :: "Record list \<Rightarrow> string \<Rightarrow> ValidationError" where
  "conflict_detail rs f =
     \<lparr>ve_Source = r_Source (the (find (\<lambda>r. r_FQDN r = f \<and> r_Type r = DNSRecordTypeCNAME) rs)),
      ve_FQDN = f,
      ve_Message =
        (if \<exists>r \<in> set rs. r_FQDN r = f \<and> r_Type r \<noteq> DNSRecordTypeCNAME
         then ''CNAME cannot share a name with any other record type''
         else ''CNAME must have exactly one target, found '' @ dec (card (cname_targets rs f)))\<rparr>"

abbreviation conflict_error :: "Record list \<Rightarrow> string \<Rightarrow> go_error" where
  "conflict_error rs f \<equiv> RecordError (conflict_detail rs f)"

lemma conflict_detail_FQDN [simp]: "ve_FQDN (conflict_detail rs f) = f"
  by (simp add: conflict_detail_def)

lemma find_filter: "find P (filter Q xs) = find (\<lambda>x. Q x \<and> P x) xs"
  by (induction xs) auto

lemma set_errors_spec:
  "set_errors f (filter (\<lambda>r. r_FQDN r = f) rs) =
     (if cname_conflict rs f then [conflict_error rs f] else [])"
proof -
  let ?F = "filter (\<lambda>r. r_FQDN r = f) rs"
  obtain ts c n where st: "scan_set ?F = (ts, c, n)" by (cases "scan_set ?F")
  note spec = scan_set_spec [of ?F, unfolded st, simplified]
  have ts: "set ts = cname_targets rs f" using spec(2) by (auto simp: cname_targets_def)
  have len: "length ts = card (cname_targets rs f)"
    using distinct_card [OF spec(1)] ts by simp
  have n: "n > 0 \<longleftrightarrow> (\<exists>r \<in> set rs. r_FQDN r = f \<and> r_Type r \<noteq> DNSRecordTypeCNAME)"
    using spec(4) by (auto simp: filter_empty_conv)
  have c: "c = find (\<lambda>r. r_FQDN r = f \<and> r_Type r = DNSRecordTypeCNAME) rs"
    using spec(3) by (simp add: find_filter)
  have none: "c = None \<Longrightarrow> cname_targets rs f = {}"
    using c by (auto simp: find_None_iff cname_targets_def)
  show ?thesis
    using n len none c ts
    by (auto simp: set_errors_def st cname_conflict_def conflict_detail_def split: option.splits)
qed

lemma ValidateRecordSet_spec:
  "ValidateRecordSet rs =
     map (conflict_error rs) (filter (cname_conflict rs) (sort (remdups (map r_FQDN rs))))"
proof -
  let ?g = "group_by_fqdn rs" and ?fs = "sort (remdups (map r_FQDN rs))"
  have fs: "sort (map fst ?g) = ?fs"
    by (rule sort_cong_set) (use set_group [of rs] in \<open>simp_all add: distinct_group\<close>)
  have "map (\<lambda>f. set_errors f (the (map_of ?g f))) ?fs =
      map (\<lambda>f. if cname_conflict rs f then [conflict_error rs f] else []) ?fs"
    by (rule map_cong) (auto simp: group_by_fqdn_get set_errors_spec)
  moreover have "concat (map (\<lambda>f. if P f then [g f] else []) fs) = map g (filter P fs)"
    for P and g :: "string \<Rightarrow> go_error" and fs
    by (induction fs) auto
  ultimately show ?thesis by (simp only: ValidateRecordSet_def Let_def fs)
qed

lemma ValidateRecordSet_Nil: "ValidateRecordSet rs = [] \<longleftrightarrow> (\<forall>f. \<not> cname_conflict rs f)"
  by (auto simp: ValidateRecordSet_spec filter_empty_conv dest: cname_conflictD)

lemma ValidateRecordSet_set:
  "set (ValidateRecordSet rs) = conflict_error rs ` Collect (cname_conflict rs)"
proof -
  have "{f \<in> r_FQDN ` set rs. cname_conflict rs f} = Collect (cname_conflict rs)"
    using cname_conflictD by fastforce
  then show ?thesis by (simp add: ValidateRecordSet_spec)
qed

lemma ValidateRecords_Nil:
  "ValidateRecords rs = [] \<longleftrightarrow> (\<forall>r \<in> set rs. ValidateRecord r = []) \<and> (\<forall>f. \<not> cname_conflict rs f)"
  by (auto simp: ValidateRecords_def ValidateRecordSet_Nil)

text \<open>Conflicts only go away when records or values are left out.\<close>

lemma cname_targets_mono:
  assumes "\<And>s. s \<in> set ss \<Longrightarrow> \<exists>r \<in> set rs. r_FQDN r = r_FQDN s \<and> r_Type r = r_Type s
     \<and> normalizeDomain ` set (r_Values s) \<subseteq> normalizeDomain ` set (r_Values r)"
  shows "cname_targets ss f \<subseteq> cname_targets rs f"
proof
  fix t assume "t \<in> cname_targets ss f"
  then obtain s v where s: "s \<in> set ss" "r_FQDN s = f" "r_Type s = DNSRecordTypeCNAME"
    "v \<in> set (r_Values s)" "t = normalizeDomain v"
    by (auto simp: cname_targets_def)
  from assms [OF s(1)] obtain r where
    r: "r \<in> set rs" "r_FQDN r = r_FQDN s" "r_Type r = r_Type s"
      "normalizeDomain ` set (r_Values s) \<subseteq> normalizeDomain ` set (r_Values r)"
    by blast
  have "t \<in> normalizeDomain ` set (r_Values r)" using r(4) s(4,5) by blast
  then obtain u where "u \<in> set (r_Values r)" "t = normalizeDomain u" by blast
  with r s show "t \<in> cname_targets rs f"
    using cname_targetsI [of r rs f u] by metis
qed

lemma no_conflict_mono:
  assumes sub: "\<And>s. s \<in> set ss \<Longrightarrow> \<exists>r \<in> set rs. r_FQDN r = r_FQDN s \<and> r_Type r = r_Type s
     \<and> normalizeDomain ` set (r_Values s) \<subseteq> normalizeDomain ` set (r_Values r)"
    and "\<not> cname_conflict rs f"
  shows "\<not> cname_conflict ss f"
proof
  assume c: "cname_conflict ss f"
  have T: "cname_targets ss f \<subseteq> cname_targets rs f" by (rule cname_targets_mono [OF sub])
  then have "card (cname_targets ss f) \<le> card (cname_targets rs f)" by (simp add: card_mono)
  moreover have "cname_targets rs f \<noteq> {}" using c T by (auto simp: cname_conflict_def)
  moreover have "\<exists>r \<in> set rs. r_FQDN r = f \<and> r_Type r \<noteq> DNSRecordTypeCNAME"
    if "\<exists>s \<in> set ss. r_FQDN s = f \<and> r_Type s \<noteq> DNSRecordTypeCNAME"
    using that sub by metis
  ultimately have "cname_conflict rs f"
    using c unfolding cname_conflict_def by linarith
  with assms(2) show False by simp
qed

end
