(* ===== verification/Dns_Dedup.thy ===== *)
theory Dns_Dedup
  imports Dns_Record
begin

text \<open>
  The third part of \<^verbatim>\<open>internal/dns/record.go\<close>: unique sorted values and the deduplication of
  records.
\<close>

section \<open>Deduplication\<close>

definition uniq_step :: "string list \<times> string list \<Rightarrow> string \<Rightarrow> string list \<times> string list" where
  "uniq_step st value0 =
     (let (seen, out) = st; value = trim_space value0; key = to_lower value in
      if key \<in> set seen then (seen, out) else (key # seen, out @ [value]))"

definition uniqueSorted :: "string list \<Rightarrow> string list" where
  "uniqueSorted values = sort (snd (foldl uniq_step ([], []) values))"

section \<open>The contract of value deduplication\<close>

text \<open>
  Two packages remove duplicate values with the same code (\<^verbatim>\<open>uniqueSorted\<close> here and
  \<^verbatim>\<open>uniqueSortedValues\<close> in \<^verbatim>\<open>internal/coredns\<close>). What their callers rely on: the result is
  sorted, made of trimmed input values, covers every input value up to case, and holds no
  two values that differ only in case.
\<close>

locale value_dedup =
  fixes uniq :: "string list \<Rightarrow> string list"
  assumes uniq_sorted: "sorted (uniq vs)"
    and uniq_from: "v \<in> set (uniq vs) \<Longrightarrow> \<exists>u \<in> set vs. v = trim_space u"
    and uniq_covers: "u \<in> set vs \<Longrightarrow> \<exists>v \<in> set (uniq vs). to_lower v = to_lower (trim_space u)"
    and uniq_once: "distinct (map to_lower (uniq vs))"
begin

lemma uniq_distinct: "distinct (uniq vs)"
  using uniq_once by (rule distinct_map [THEN iffD1, THEN conjunct1])

lemma uniq_trimmed: "v \<in> set (uniq vs) \<Longrightarrow> trim_space v = v"
  using uniq_from by fastforce

lemma uniq_empty_iff: "uniq vs = [] \<longleftrightarrow> vs = []"
  using uniq_from [of "hd (uniq vs)" vs] uniq_covers [of "hd vs" vs]
  by (metis hd_in_set empty_iff list.set(1))

text \<open>Applying it twice is applying it once.\<close>

lemma uniq_idem: "uniq (uniq vs) = uniq vs"
proof -
  have "set (uniq (uniq vs)) = set (uniq vs)"
  proof
    show sub: "set (uniq (uniq vs)) \<subseteq> set (uniq vs)"
      using uniq_from uniq_trimmed by fastforce
    show "set (uniq vs) \<subseteq> set (uniq (uniq vs))"
    proof
      fix v assume v: "v \<in> set (uniq vs)"
      then obtain w where w: "w \<in> set (uniq (uniq vs))" "to_lower w = to_lower v"
        using uniq_covers [of v "uniq vs"] uniq_trimmed by auto
      moreover have "inj_on to_lower (set (uniq vs))" using uniq_once by (simp add: distinct_map)
      ultimately have "w = v" using v sub by (auto dest: inj_onD)
      with w show "v \<in> set (uniq (uniq vs))" by simp
    qed
  qed
  then show ?thesis
    using sorted_distinct_set_unique uniq_sorted uniq_distinct by blast
qed

end

text \<open>The loop of \<^verbatim>\<open>uniqueSorted\<close>: what it has seen and kept so far.\<close>

lemma uniq_fold:
  fixes vs
  defines "st \<equiv> foldl uniq_step ([], []) vs"
  shows "set (fst st) = to_lower ` set (snd st)
    \<and> (\<forall>v \<in> set (snd st). \<exists>u \<in> set vs. v = trim_space u)
    \<and> (\<forall>u \<in> set vs. \<exists>v \<in> set (snd st). to_lower v = to_lower (trim_space u))
    \<and> distinct (map to_lower (snd st))"
  unfolding st_def
proof (induction vs rule: rev_induct)
  case Nil
  then show ?case by simp
next
  case (snoc u vs)
  obtain seen out where st: "foldl uniq_step ([], []) vs = (seen, out)" by force
  then have new: "foldl uniq_step ([], []) (vs @ [u]) =
      (if to_lower (trim_space u) \<in> set seen then (seen, out)
       else (to_lower (trim_space u) # seen, out @ [trim_space u]))"
    by (simp add: uniq_step_def Let_def)
  note IH = snoc [unfolded st, simplified]
  show ?case
  proof (cases "to_lower (trim_space u) \<in> set seen")
    case True
    with IH have "\<exists>v \<in> set out. to_lower v = to_lower (trim_space u)" by force
    with IH True show ?thesis unfolding new by auto
  next
    case False
    with IH show ?thesis unfolding new by auto
  qed
qed

interpretation dns_values: value_dedup uniqueSorted
proof
  fix vs u v
  note f = uniq_fold [of vs]
  show "sorted (uniqueSorted vs)" by (simp add: uniqueSorted_def)
  show "v \<in> set (uniqueSorted vs) \<Longrightarrow> \<exists>u \<in> set vs. v = trim_space u"
    using f by (simp add: uniqueSorted_def)
  show "u \<in> set vs \<Longrightarrow> \<exists>v \<in> set (uniqueSorted vs). to_lower v = to_lower (trim_space u)"
    using f by (simp add: uniqueSorted_def)
  show "distinct (map to_lower (uniqueSorted vs))"
    using f by (simp add: uniqueSorted_def distinct_map)
qed

section \<open>Records\<close>

definition dedup_key :: "Record \<Rightarrow> string" where
  "dedup_key record =
     join ''|''
       [r_FQDN record, r_Type record, dec_int (sint (r_TTL record)),
        src_Kind (r_Source record), src_Namespace (r_Source record), src_Name (r_Source record)]"

text \<open>The order of \<^verbatim>\<open>sort.Slice\<close> in \<^verbatim>\<open>DeduplicateAndSort\<close>: name, type, source name.\<close>

datatype rr_order = RROrder (rr_fqdn: string) (rr_type: string) (rr_source: string)

instantiation rr_order :: linorder
begin

definition less_rr_order :: "rr_order \<Rightarrow> rr_order \<Rightarrow> bool" where
  "less_rr_order a b \<longleftrightarrow>
     (if rr_fqdn a \<noteq> rr_fqdn b then rr_fqdn a < rr_fqdn b
      else if rr_type a \<noteq> rr_type b then rr_type a < rr_type b
      else rr_source a < rr_source b)"

definition less_eq_rr_order :: "rr_order \<Rightarrow> rr_order \<Rightarrow> bool" where
  "less_eq_rr_order a b \<longleftrightarrow> a = b \<or> a < b"

instance
proof
  fix a b c :: rr_order
  show "(a < b) = (a \<le> b \<and> \<not> b \<le> a)"
    by (auto simp: less_eq_rr_order_def less_rr_order_def split: if_splits)
  show "a \<le> a" by (simp add: less_eq_rr_order_def)
  show "a \<le> b \<Longrightarrow> b \<le> c \<Longrightarrow> a \<le> c"
    by (auto simp: less_eq_rr_order_def less_rr_order_def split: if_splits)
  show "a \<le> b \<Longrightarrow> b \<le> a \<Longrightarrow> a = b"
    by (auto simp: less_eq_rr_order_def less_rr_order_def split: if_splits)
  show "a \<le> b \<or> b \<le> a"
    by (cases a; cases b) (auto simp: less_eq_rr_order_def less_rr_order_def split: if_splits)
qed

end

definition rr_order_of :: "Record \<Rightarrow> rr_order" where
  "rr_order_of r = RROrder (r_FQDN r) (r_Type r) (src_Name (r_Source r))"

text \<open>
  Each record with its values made unique and sorted replaces the one stored before under
  the same key; \<open>ord\<close> is the order in which \<^verbatim>\<open>range collapsed\<close> visits the map and \<^verbatim>\<open>sort.Slice\<close>
  leaves ties.
\<close>

definition collapse :: "Record list \<Rightarrow> (string, Record) gomap" where
  "collapse records =
     foldl (\<lambda>m record. AList.update (dedup_key record)
        (record\<lparr>r_Values := uniqueSorted (r_Values record)\<rparr>) m) [] records"

definition DeduplicateAndSort :: "Record order \<Rightarrow> Record list \<Rightarrow> Record list" where
  "DeduplicateAndSort ord records = sort_slice ord rr_order_of (map snd (collapse records))"

lemma rr_order_less_iff:
  "rr_order_of a < rr_order_of b \<longleftrightarrow>
     (if r_FQDN a \<noteq> r_FQDN b then r_FQDN a < r_FQDN b
      else if r_Type a \<noteq> r_Type b then r_Type a < r_Type b
      else src_Name (r_Source a) < src_Name (r_Source b))"
  by (simp add: rr_order_of_def less_rr_order_def)

abbreviation normalised_values :: "Record \<Rightarrow> Record" where
  "normalised_values r \<equiv> r\<lparr>r_Values := uniqueSorted (r_Values r)\<rparr>"

lemma rr_order_normalised [simp]: "rr_order_of (normalised_values r) = rr_order_of r"
  by (simp add: rr_order_of_def)

lemma dedup_key_normalised [simp]: "dedup_key (normalised_values r) = dedup_key r"
  by (simp add: dedup_key_def)

text \<open>Under each key, the last record wins.\<close>

lemma collapse_get:
  "map_of (collapse rs) k = map_option normalised_values (find (\<lambda>r. dedup_key r = k) (rev rs))"
  by (induction rs rule: rev_induct) (auto simp: collapse_def)

lemma distinct_collapse: "distinct (map fst (collapse rs))"
  by (induction rs rule: rev_induct) (auto simp: collapse_def)

lemma find_SomeD: "find P xs = Some x \<Longrightarrow> x \<in> set xs \<and> P x"
  by (auto simp: find_Some_iff)

lemma collapse_entry:
  "(k, s) \<in> set (collapse rs) \<longleftrightarrow>
     (\<exists>r. find (\<lambda>r. dedup_key r = k) (rev rs) = Some r \<and> s = normalised_values r)"
  unfolding map_of_eq_Some_iff [OF distinct_collapse, symmetric] collapse_get by auto

text \<open>The record that wins under its key.\<close>

abbreviation winner :: "Record list \<Rightarrow> Record \<Rightarrow> bool" where
  "winner rs r \<equiv> find (\<lambda>q. dedup_key q = dedup_key r) (rev rs) = Some r"

lemma winner_mem: "winner rs r \<Longrightarrow> r \<in> set rs"
  using find_SomeD by fastforce

lemma set_DeduplicateAndSort:
  assumes "is_order ord"
  shows "set (DeduplicateAndSort ord rs) = normalised_values ` Collect (winner rs)"
proof -
  have "snd ` set (collapse rs) = normalised_values ` Collect (winner rs)" (is "?L = ?R")
  proof
    show "?L \<subseteq> ?R"
    proof
      fix s assume "s \<in> ?L"
      then obtain k r where r: "find (\<lambda>r. dedup_key r = k) (rev rs) = Some r" "s = normalised_values r"
        by (auto simp: collapse_entry)
      then have "dedup_key r = k" by (auto dest: find_SomeD)
      with r show "s \<in> ?R" by blast
    qed
    show "?R \<subseteq> ?L"
    proof
      fix s assume "s \<in> ?R"
      then obtain r where "winner rs r" "s = normalised_values r" by blast
      then have "(dedup_key r, s) \<in> set (collapse rs)" by (auto simp: collapse_entry)
      then show "s \<in> ?L" by force
    qed
  qed
  then show ?thesis using assms by (simp add: DeduplicateAndSort_def)
qed

lemma DeduplicateAndSort_from:
  "is_order ord \<Longrightarrow> s \<in> set (DeduplicateAndSort ord rs)
   \<Longrightarrow> \<exists>r \<in> set rs. s = normalised_values r"
  using winner_mem by (auto simp: set_DeduplicateAndSort)

lemma DeduplicateAndSort_covers:
  assumes "is_order ord" and "r \<in> set rs"
  shows "\<exists>s \<in> set (DeduplicateAndSort ord rs). dedup_key s = dedup_key r"
proof -
  obtain q where q: "find (\<lambda>q. dedup_key q = dedup_key r) (rev rs) = Some q"
    using assms(2) by (cases "find (\<lambda>q. dedup_key q = dedup_key r) (rev rs)") (auto simp: find_None_iff)
  then have k: "dedup_key q = dedup_key r" by (auto dest: find_SomeD)
  with q have "normalised_values q \<in> set (DeduplicateAndSort ord rs)"
    by (simp add: set_DeduplicateAndSort [OF assms(1)])
  with k show ?thesis by (metis dedup_key_normalised)
qed

lemma DeduplicateAndSort_sorted: "sorted (map rr_order_of (DeduplicateAndSort ord rs))"
  by (simp add: DeduplicateAndSort_def)

text \<open>No two results have the same key.\<close>

lemma DeduplicateAndSort_keys:
  assumes "is_order ord"
  shows "distinct (map dedup_key (DeduplicateAndSort ord rs))"
proof -
  have "map dedup_key (map snd (collapse rs)) = map fst (collapse rs)"
    by (auto simp: collapse_entry find_Some_iff)
  then have "distinct (map dedup_key (map snd (collapse rs)))" by (simp only: distinct_collapse)
  then show ?thesis
    using mset_sort_slice [OF assms, of rr_order_of "map snd (collapse rs)"]
    by (metis DeduplicateAndSort_def mset_map mset_eq_imp_distinct_iff)
qed

text \<open>
  Without ties in the sort keys, the result does not depend on the order in which the map
  is visited.
\<close>

definition tie_free :: "Record list \<Rightarrow> bool" where
  "tie_free rs \<longleftrightarrow> (\<forall>r \<in> set rs. \<forall>s \<in> set rs. rr_order_of r = rr_order_of s \<longrightarrow> dedup_key r = dedup_key s)"

lemma DeduplicateAndSort_order_free:
  assumes "tie_free rs" and "is_order ord1" and "is_order ord2"
  shows "DeduplicateAndSort ord1 rs = DeduplicateAndSort ord2 rs"
  unfolding DeduplicateAndSort_def
proof (rule sort_slice_unique [OF assms(2,3) refl])
  show "inj_on rr_order_of (set (map snd (collapse rs)))"
  proof (rule inj_onI)
    fix a b assume "a \<in> set (map snd (collapse rs))" "b \<in> set (map snd (collapse rs))"
      and eq: "rr_order_of a = rr_order_of b"
    then have "a \<in> set (DeduplicateAndSort ord1 rs)" "b \<in> set (DeduplicateAndSort ord1 rs)"
      using assms(2) by (auto simp: DeduplicateAndSort_def)
    then obtain r s where r: "winner rs r" "a = normalised_values r"
      and s: "winner rs s" "b = normalised_values s"
      unfolding set_DeduplicateAndSort [OF assms(2)] by blast
    then have "r \<in> set rs" "s \<in> set rs" by (auto dest: winner_mem)
    moreover have "rr_order_of r = rr_order_of s" using eq by (simp add: r(2) s(2))
    ultimately have "dedup_key r = dedup_key s" using assms(1) unfolding tie_free_def by blast
    with r(1) s(1) have "r = s" by (metis option.inject)
    then show "a = b" by (simp only: r(2) s(2))
  qed
qed

section \<open>Deduplication keeps a valid record set valid\<close>

lemma ValidateRecord_normalised:
  assumes "ValidateRecord r = []"
  shows "ValidateRecord (normalised_values r) = []"
proof -
  have "validateValue (r_Type r) v = None" if "v \<in> set (uniqueSorted (r_Values r))" for v
  proof -
    from dns_values.uniq_from [OF that] obtain u where "u \<in> set (r_Values r)" "v = trim_space u"
      by blast
    with assms show ?thesis by (simp add: ValidateRecord_Nil)
  qed
  with assms show ?thesis by (simp add: ValidateRecord_Nil dns_values.uniq_empty_iff)
qed

lemma normalised_targets:
  "normalizeDomain ` set (uniqueSorted vs) \<subseteq> normalizeDomain ` set vs"
  using dns_values.uniq_from [of _ vs] by fastforce

lemma ValidateRecords_DeduplicateAndSort:
  assumes "is_order ord" and "ValidateRecords rs = []"
  shows "ValidateRecords (DeduplicateAndSort ord rs) = []"
  unfolding ValidateRecords_Nil
proof (intro conjI ballI allI)
  fix s assume "s \<in> set (DeduplicateAndSort ord rs)"
  from DeduplicateAndSort_from [OF assms(1) this] assms(2) show "ValidateRecord s = []"
    by (auto simp: ValidateRecords_Nil intro: ValidateRecord_normalised)
next
  fix f
  show "\<not> cname_conflict (DeduplicateAndSort ord rs) f"
  proof (rule no_conflict_mono)
    show "\<not> cname_conflict rs f" using assms(2) by (simp add: ValidateRecords_Nil)
    fix s assume "s \<in> set (DeduplicateAndSort ord rs)"
    from DeduplicateAndSort_from [OF assms(1) this] obtain r where
      "r \<in> set rs" "s = normalised_values r" by blast
    then show "\<exists>r \<in> set rs. r_FQDN r = r_FQDN s \<and> r_Type r = r_Type s
        \<and> normalizeDomain ` set (r_Values s) \<subseteq> normalizeDomain ` set (r_Values r)"
      using normalised_targets [of "r_Values r"] by (intro bexI [of _ r]) simp_all
  qed
qed

end
