(* ===== verification/Go_Crypto.thy ===== *)
theory Go_Crypto
  imports Go_Strconv
begin

unbundle bit_operations_syntax

text \<open>
  \<^verbatim>\<open>crypto/sha1\<close>: the digest of FIPS 180-4 on words of 32 bits. \<^verbatim>\<open>sha1.Sum\<close> returns 20 bytes;
  the operator prints all of them for the body hash and the first three for a file key.
\<close>

definition sha1_pad :: "nat list \<Rightarrow> nat list" where
  "sha1_pad bs =
     (let n = length bs in
      bs @ [128] @ replicate ((119 - n mod 64) mod 64) 0
         @ map (\<lambda>i. (8 * n) div 256 ^ (7 - i) mod 256) [0..<8])"

definition word_of_bytes :: "nat list \<Rightarrow> 32 word" where
  "word_of_bytes bs = of_nat (foldl (\<lambda>a b. a * 256 + b) 0 bs)"

fun chunks :: "nat \<Rightarrow> nat \<Rightarrow> 'a list \<Rightarrow> 'a list list" where
  "chunks 0 k xs = []"
| "chunks (Suc n) k xs = take k xs # chunks n k (drop k xs)"

text \<open>The message schedule, newest word first.\<close>

fun sha1_extend :: "nat \<Rightarrow> 32 word list \<Rightarrow> 32 word list" where
  "sha1_extend 0 ws = ws"
| "sha1_extend (Suc n) ws =
     sha1_extend n (word_rotl 1 (ws ! 2 XOR ws ! 7 XOR ws ! 13 XOR ws ! 15) # ws)"

definition sha1_schedule :: "nat list \<Rightarrow> 32 word list" where
  "sha1_schedule block = rev (sha1_extend 64 (rev (map word_of_bytes (chunks 16 4 block))))"

type_synonym sha1_state = "32 word \<times> 32 word \<times> 32 word \<times> 32 word \<times> 32 word"

definition sha1_round :: "sha1_state \<Rightarrow> nat \<times> 32 word \<Rightarrow> sha1_state" where
  "sha1_round st tw =
     (let (a, b, c, d, e) = st; (t, w) = tw;
          (f, k) =
            (if t < 20 then ((b AND c) OR (NOT b AND d), 0x5A827999)
             else if t < 40 then (b XOR c XOR d, 0x6ED9EBA1)
             else if t < 60 then ((b AND c) OR (b AND d) OR (c AND d), 0x8F1BBCDC)
             else (b XOR c XOR d, 0xCA62C1D6))
      in (word_rotl 5 a + f + e + k + w, a, word_rotl 30 b, c, d))"

definition sha1_block :: "sha1_state \<Rightarrow> nat list \<Rightarrow> sha1_state" where
  "sha1_block st block =
     (let (a, b, c, d, e) = st;
          (a', b', c', d', e') = foldl sha1_round st (zip [0..<80] (sha1_schedule block))
      in (a + a', b + b', c + c', d + d', e + e'))"

definition sha1_init :: sha1_state where
  "sha1_init = (0x67452301, 0xEFCDAB89, 0x98BADCFE, 0x10325476, 0xC3D2E1F0)"

definition bytes_of_word :: "32 word \<Rightarrow> nat list" where
  "bytes_of_word w = map (\<lambda>i. unat w div 256 ^ (3 - i) mod 256) [0..<4]"

text \<open>\<^verbatim>\<open>sha1.Sum([]byte(s))\<close>.\<close>

definition sha1_sum :: "string \<Rightarrow> nat list" where
  "sha1_sum s =
     (let bs = sha1_pad (map byte s);
          (a, b, c, d, e) = foldl sha1_block sha1_init (chunks (length bs div 64) 64 bs)
      in concat (map bytes_of_word [a, b, c, d, e]))"

lemma length_sha1_sum [simp]: "length (sha1_sum s) = 20"
  by (simp add: sha1_sum_def Let_def bytes_of_word_def split: prod.splits)

end
