(* ===== verification/Dns_Render.thy ===== *)
theory Dns_Render
  imports Dns_Dedup Go_Crypto
begin

text \<open>
  \<^verbatim>\<open>internal/dns/render.go\<close>: the serial, the key and the contents of a zone file. The clock
  is a parameter, the calendar date of \<^verbatim>\<open>now.UTC()\<close>. The lemmas show how the serial moves,
  where it appears in the file, that an unchanged zone renders to the same bytes, and that
  each value of a valid record is exactly one line of the file.
\<close>

section \<open>Data\<close>

record ZoneFile =
  zf_Key :: string
  zf_Content :: string
  zf_Serial :: string
  zf_Hash :: string

record PreviousRender =
  pr_Serial :: string
  pr_Hash :: string

record utc_date =
  d_year :: nat
  d_month :: nat
  d_day :: nat

definition serialPlaceholder :: string where
  "serialPlaceholder = ''@@SERIAL@@''"

abbreviation nl :: char where "nl \<equiv> CHR 0x0A"

section \<open>The serial\<close>

text \<open>\<^verbatim>\<open>now.UTC().Format("20060102") + "01"\<close>.\<close>

definition date_serial :: "utc_date \<Rightarrow> string" where
  "date_serial now = pad0 4 (d_year now) @ pad0 2 (d_month now) @ pad0 2 (d_day now) @ ''01''"

definition MaxUint32 :: nat where
  "MaxUint32 = 4294967295"

definition nextSerial :: "string \<Rightarrow> utc_date \<Rightarrow> string" where
  "nextSerial previous now =
     (let candidate = date_serial now in
      case parse_uint32 previous of
        None \<Rightarrow> candidate
      | Some prev \<Rightarrow>
          (case parse_uint32 candidate of
             Some value \<Rightarrow>
               if value > prev then candidate
               else if prev \<ge> MaxUint32 then dec MaxUint32 else dec (prev + 1)
           | None \<Rightarrow> if prev \<ge> MaxUint32 then dec MaxUint32 else dec (prev + 1)))"

section \<open>The key\<close>

definition file_key_char :: "char \<Rightarrow> char" where
  "file_key_char c = (if c = CHR ''.'' \<or> c = CHR ''_'' then CHR ''-'' else c)"

definition ZoneFileKey :: "string \<Rightarrow> string" where
  "ZoneFileKey zone =
     (let normalized = (case NormalizeZone zone of
            Inl err \<Rightarrow> to_lower (trim_char CHR ''.'' zone)
          | Inr n \<Rightarrow> n);
          base = map file_key_char (trim_suffix normalized ''.'');
          sum = sha1_sum normalized
      in base @ ''-'' @ hex_bytes (take 3 sum) @ ''.db'')"

section \<open>The contents\<close>

definition relativeName :: "string \<Rightarrow> string \<Rightarrow> string" where
  "relativeName fqdn zone =
     (if fqdn = zone then ''@'' else trim_suffix (trim_suffix fqdn zone) ''.'')"

definition ensureTrailingDot :: "string \<Rightarrow> string" where
  "ensureTrailingDot value0 =
     (let value = trim_space value0 in if suffix ''.'' value then value else value @ ''.'')"

definition renderValue :: "DNSRecordType \<Rightarrow> string \<Rightarrow> string" where
  "renderValue recordType value0 =
     (let value = trim_space value0 in
      if recordType = DNSRecordTypeCNAME then ensureTrailingDot value
      else if recordType = DNSRecordTypeTXT then quote value
      else if recordType = DNSRecordTypeMX then
        (let parts = str_fields value in
         if length parts = 2 then parts ! 0 @ '' '' @ ensureTrailingDot (parts ! 1) else value)
      else if recordType = DNSRecordTypeSRV then
        (let parts = str_fields value in
         if length parts = 4 then join '' '' (take 3 parts) @ '' '' @ ensureTrailingDot (parts ! 3)
         else value)
      else value)"

text \<open>The zone file up to the records, and the lines of one record.\<close>

definition zone_head :: "string \<Rightarrow> int32 \<Rightarrow> string" where
  "zone_head normalizedZone ttl =
     ''$ORIGIN '' @ normalizedZone @ [nl]
     @ ''$TTL '' @ dec_int (sint ttl) @ [nl]
     @ ''@ IN SOA ns.dns.'' @ normalizedZone @ '' hostmaster.'' @ normalizedZone @ '' ('' @ [nl]
     @ ''  '' @ serialPlaceholder @ '' ; serial'' @ [nl]
     @ ''  7200       ; refresh'' @ [nl]
     @ ''  3600       ; retry'' @ [nl]
     @ ''  1209600    ; expire'' @ [nl]
     @ ''  3600       ; minimum'' @ [nl]
     @ '')'' @ [nl]
     @ ''@ IN NS ns.dns.'' @ normalizedZone @ [nl]"

definition record_line :: "string \<Rightarrow> Record \<Rightarrow> string \<Rightarrow> string" where
  "record_line normalizedZone record value =
     relativeName (r_FQDN record) normalizedZone @ '' '' @ dec_int (sint (r_TTL record))
     @ '' IN '' @ r_Type record @ '' '' @ renderValue (r_Type record) value @ [nl]"

definition record_lines :: "string \<Rightarrow> Record \<Rightarrow> string" where
  "record_lines normalizedZone record =
     concat (map (record_line normalizedZone record) (sort (r_Values record)))"

definition zone_body :: "string \<Rightarrow> int32 \<Rightarrow> Record list \<Rightarrow> string" where
  "zone_body normalizedZone ttl records =
     zone_head normalizedZone ttl @ concat (map (record_lines normalizedZone) records)"

definition zone_ttl :: "PrivateDNSZone \<Rightarrow> int32" where
  "zone_ttl zone = (case zs_TTL (z_Spec zone) of None \<Rightarrow> DefaultTTL | Some t \<Rightarrow> t)"

definition RenderZone ::
    "Record order \<Rightarrow> PrivateDNSZone \<Rightarrow> Record list \<Rightarrow> utc_date \<Rightarrow> PreviousRender \<Rightarrow> go_error + ZoneFile" where
  "RenderZone ord zone records0 now previous =
     (case NormalizeZone (zs_Zone (z_Spec zone)) of
        Inl err \<Rightarrow> Inl err
      | Inr normalizedZone \<Rightarrow>
          (let ttl = zone_ttl zone in
           if sint ttl \<le> 0 then Inl (PlainError ''zone ttl must be greater than zero'')
           else
             (let records = DeduplicateAndSort ord records0 in
              case ValidateRecords records of
                err # _ \<Rightarrow> Inl err
              | [] \<Rightarrow>
                  (let body = zone_body normalizedZone ttl records;
                       hash = hex_bytes (sha1_sum body);
                       serial = (if pr_Serial previous = [] \<or> hash \<noteq> pr_Hash previous
                                 then nextSerial (pr_Serial previous) now
                                 else pr_Serial previous)
                   in Inr \<lparr>zf_Key = ZoneFileKey normalizedZone,
                           zf_Content = replace_first body serialPlaceholder serial,
                           zf_Serial = serial,
                           zf_Hash = hash\<rparr>))))"

section \<open>The serial advances\<close>

lemma dec_bound: "n < 2 ^ 32 \<Longrightarrow> parse_uint32 (dec n) = Some n"
  by (simp add: parse_uint32_dec)

text \<open>A serial below the maximum is followed by a greater one; the maximum stays.\<close>

lemma nextSerial_advances:
  assumes "parse_uint32 previous = Some p"
  shows "\<exists>n. parse_uint32 (nextSerial previous now) = Some n
           \<and> (if p < MaxUint32 then p < n else n = MaxUint32)"
proof -
  have p: "p < 2 ^ 32" using parse_uint32_bound [OF assms] .
  show ?thesis
  proof (cases "parse_uint32 (date_serial now)")
    case None
    with assms p show ?thesis by (simp add: nextSerial_def Let_def dec_bound MaxUint32_def)
  next
    case (Some v)
    from parse_uint32_bound [OF this] have "v < 2 ^ 32" .
    with Some assms p show ?thesis by (auto simp: nextSerial_def Let_def dec_bound MaxUint32_def)
  qed
qed

lemma nextSerial_first: "parse_uint32 previous = None \<Longrightarrow> nextSerial previous now = date_serial now"
  by (simp add: nextSerial_def)

lemma date_serial_nonempty [simp]: "date_serial now \<noteq> []"
  by (simp add: date_serial_def)

lemma nextSerial_nonempty [simp]: "nextSerial previous now \<noteq> []"
  by (simp add: nextSerial_def Let_def split: option.splits)

lemma pad0_digits: "c \<in> set (pad0 w n) \<Longrightarrow> is_digit c"
proof -
  have "is_digit CHR ''0''" by (simp add: is_digit_def)
  then show "c \<in> set (pad0 w n) \<Longrightarrow> is_digit c" by (auto simp: pad0_def dest: dec_bytes)
qed

lemma nextSerial_digits: "c \<in> set (nextSerial previous now) \<Longrightarrow> is_digit c"
proof -
  have "is_digit CHR ''0''" "is_digit CHR ''1''" by (simp_all add: is_digit_def)
  then have "c \<in> set (date_serial now) \<Longrightarrow> is_digit c"
    by (auto simp: date_serial_def dest: pad0_digits)
  then show "c \<in> set (nextSerial previous now) \<Longrightarrow> is_digit c"
    by (auto simp: nextSerial_def Let_def dest: dec_bytes split: option.splits if_splits)
qed

section \<open>Where the serial stands\<close>

text \<open>The zone file as it is published: its lines, with the serial in the SOA record.\<close>

definition soa_front :: "string \<Rightarrow> int32 \<Rightarrow> string" where
  "soa_front n ttl =
     ''$ORIGIN '' @ n @ [nl] @ ''$TTL '' @ dec_int (sint ttl) @ [nl]
     @ ''@ IN SOA ns.dns.'' @ n @ '' hostmaster.'' @ n @ '' ('' @ [nl] @ ''  ''"

definition soa_back :: "string \<Rightarrow> string" where
  "soa_back n =
     '' ; serial'' @ [nl]
     @ ''  7200       ; refresh'' @ [nl]
     @ ''  3600       ; retry'' @ [nl]
     @ ''  1209600    ; expire'' @ [nl]
     @ ''  3600       ; minimum'' @ [nl]
     @ '')'' @ [nl]
     @ ''@ IN NS ns.dns.'' @ n @ [nl]"

definition zone_text :: "string \<Rightarrow> int32 \<Rightarrow> string \<Rightarrow> Record list \<Rightarrow> string" where
  "zone_text n ttl serial records =
     soa_front n ttl @ serial @ soa_back n @ concat (map (record_lines n) records)"

lemma zone_body_text: "zone_body n ttl rs = zone_text n ttl serialPlaceholder rs"
  by (simp add: zone_body_def zone_head_def zone_text_def soa_front_def soa_back_def)

lemma canonical_no_at: "canonical d \<Longrightarrow> CHR ''@'' \<notin> set d"
  using canonical_bytes [of d "CHR ''@''"] by (auto simp: ldh_def label_rune_ok_def)

lemma dec_int_no_at: "CHR ''@'' \<notin> set (dec_int i)"
  using dec_int_bytes [of "CHR ''@''" i] by (auto simp: is_digit_def)

lemma placeholder_position:
  assumes "canonical n"
  shows "str_index serialPlaceholder (soa_front n ttl @ serialPlaceholder @ rest) = Some (length (soa_front n ttl))"
proof -
  let ?a = "''$ORIGIN '' @ n @ [nl] @ ''$TTL '' @ dec_int (sint ttl) @ [nl]"
  let ?b = "'' IN SOA ns.dns.'' @ n @ '' hostmaster.'' @ n @ '' ('' @ [nl] @ ''  ''"
  have hd: "serialPlaceholder \<noteq> []" "hd serialPlaceholder = CHR ''@''"
    by (simp_all add: serialPlaceholder_def)
  have a: "CHR ''@'' \<notin> set ?a" and b: "CHR ''@'' \<notin> set ?b"
    using canonical_no_at [OF assms] dec_int_no_at by auto
  have split: "soa_front n ttl @ serialPlaceholder @ rest = ?a @ CHR ''@'' # ?b @ serialPlaceholder @ rest"
    by (simp add: soa_front_def)
  have here: "str_index serialPlaceholder (serialPlaceholder @ rest) = Some 0"
    by (simp add: serialPlaceholder_def)
  have skip_b: "str_index serialPlaceholder (?b @ serialPlaceholder @ rest) = Some (length ?b)"
    using str_index_skip [OF hd(1), of ?b "serialPlaceholder @ rest"] hd b here by simp
  have no: "\<not> prefix serialPlaceholder (CHR ''@'' # ?b @ serialPlaceholder @ rest)"
    by (simp add: serialPlaceholder_def)
  have "str_index serialPlaceholder (CHR ''@'' # ?b @ serialPlaceholder @ rest) = Some (Suc (length ?b))"
    by (simp only: str_index.simps no if_False skip_b option.map)
  then have "str_index serialPlaceholder (?a @ CHR ''@'' # ?b @ serialPlaceholder @ rest)
      = Some (length ?a + Suc (length ?b))"
    using str_index_skip [OF hd(1), of ?a "CHR ''@'' # ?b @ serialPlaceholder @ rest"] hd a
    by (simp only: option.map hd)
  then show ?thesis unfolding split by (simp add: soa_front_def)
qed

lemma zone_content:
  assumes "canonical n"
  shows "replace_first (zone_body n ttl rs) serialPlaceholder serial = zone_text n ttl serial rs"
  using placeholder_position [OF assms, of ttl "soa_back n @ concat (map (record_lines n) rs)"]
  by (simp add: zone_body_text zone_text_def replace_first_def)

section \<open>RenderZone on every branch\<close>

definition body_hash :: "string \<Rightarrow> int32 \<Rightarrow> Record list \<Rightarrow> string" where
  "body_hash n ttl rs = hex_bytes (sha1_sum (zone_body n ttl rs))"

definition carried_serial :: "string \<Rightarrow> utc_date \<Rightarrow> PreviousRender \<Rightarrow> string" where
  "carried_serial hash now previous =
     (if pr_Serial previous = [] \<or> hash \<noteq> pr_Hash previous then nextSerial (pr_Serial previous) now
      else pr_Serial previous)"

lemma RenderZone_Inr_iff:
  "RenderZone ord zone rs now previous = Inr zf \<longleftrightarrow>
     (\<exists>n. NormalizeZone (zs_Zone (z_Spec zone)) = Inr n \<and> 0 < sint (zone_ttl zone)
        \<and> ValidateRecords (DeduplicateAndSort ord rs) = []
        \<and> zf = \<lparr>zf_Key = ZoneFileKey n,
                zf_Content = zone_text n (zone_ttl zone)
                  (carried_serial (body_hash n (zone_ttl zone) (DeduplicateAndSort ord rs)) now previous)
                  (DeduplicateAndSort ord rs),
                zf_Serial = carried_serial (body_hash n (zone_ttl zone) (DeduplicateAndSort ord rs)) now previous,
                zf_Hash = body_hash n (zone_ttl zone) (DeduplicateAndSort ord rs)\<rparr>)"
proof (cases "NormalizeZone (zs_Zone (z_Spec zone))")
  case (Inl e)
  then show ?thesis by (simp add: RenderZone_def)
next
  case (Inr n)
  note c = zone_content [OF NormalizeZone_canonical [OF Inr]]
  show ?thesis
    by (cases "ValidateRecords (DeduplicateAndSort ord rs)")
       (auto simp: RenderZone_def Inr Let_def c carried_serial_def body_hash_def)
qed

text \<open>Rendering again what was just rendered gives the same file, whatever the date.\<close>

lemma carried_serial_nonempty [simp]: "carried_serial h now previous \<noteq> []"
  by (simp add: carried_serial_def)

lemma RenderZone_steady:
  assumes "RenderZone ord zone rs now previous = Inr zf"
  shows "RenderZone ord zone rs now' \<lparr>pr_Serial = zf_Serial zf, pr_Hash = zf_Hash zf\<rparr> = Inr zf"
proof -
  have "carried_serial h now' \<lparr>pr_Serial = carried_serial h now previous, pr_Hash = h\<rparr> = carried_serial h now previous" for h
    by (subst carried_serial_def) simp
  with assms show ?thesis by (auto simp: RenderZone_Inr_iff)
qed

text \<open>Without ties the map order does not matter.\<close>

lemma RenderZone_order_free:
  assumes "tie_free rs" and "is_order ord" and "is_order ord'"
  shows "RenderZone ord' zone rs now previous = RenderZone ord zone rs now previous"
  unfolding RenderZone_def DeduplicateAndSort_order_free [OF assms] ..

lemma RenderZone_steady_orders:
  assumes "RenderZone ord zone rs now previous = Inr zf" and "tie_free rs" and "is_order ord" and "is_order ord'"
  shows "RenderZone ord' zone rs now' \<lparr>pr_Serial = zf_Serial zf, pr_Hash = zf_Hash zf\<rparr> = Inr zf"
  unfolding RenderZone_order_free [OF assms(2-4)] by (rule RenderZone_steady [OF assms(1)])

lemma RenderZone_serial_advances:
  assumes "RenderZone ord zone rs now previous = Inr zf" and "zf_Hash zf \<noteq> pr_Hash previous"
    and "parse_uint32 (pr_Serial previous) = Some p" and "p < MaxUint32"
  shows "\<exists>n. parse_uint32 (zf_Serial zf) = Some n \<and> p < n"
  using assms nextSerial_advances [OF assms(3), of now]
  by (auto simp: RenderZone_Inr_iff carried_serial_def)

section \<open>Names and values in the file\<close>

lemma relativeName_apex [simp]: "relativeName zone zone = ''@''"
  by (simp add: relativeName_def)

lemma relativeName_qualified:
  "p \<noteq> [] \<Longrightarrow> relativeName (p @ ''.'' @ zone) zone = p"
  using trim_suffix_append [of "p @ ''.''" zone] trim_suffix_append [of p "''.''"]
  by (simp add: relativeName_def)

lemma canonical_split:
  assumes "canonical d" and "in_zone zone d" and "d \<noteq> zone"
  obtains p where "d = p @ ''.'' @ zone" and "p \<noteq> []" and "CHR ''@'' \<notin> set p" and "nl \<notin> set p"
proof -
  obtain p where d: "d = p @ ''.'' @ zone" using assms(2,3) by (auto simp: in_zone_def suffix_def)
  have "p \<noteq> []"
  proof
    assume "p = []"
    with d have "hd d = CHR ''.''" by simp
    moreover from assms(1) obtain v where "d = v @ ''.''" "valid_name v" by (auto simp: canonical_iff)
    ultimately show False using valid_name_ends(1,2) [of v] by (cases v) auto
  qed
  moreover have "CHR ''@'' \<notin> set p" using canonical_no_at [OF assms(1)] d by simp
  moreover have "nl \<notin> set p"
    using canonical_bytes [OF assms(1), of nl] d by (auto simp: ldh_def label_rune_ok_def)
  ultimately show ?thesis using that d by blast
qed

text \<open>Reading a relative name in its zone gives the qualified name back.\<close>

definition absolute_name :: "string \<Rightarrow> string \<Rightarrow> string" where
  "absolute_name rel zone = (if rel = ''@'' then zone else rel @ ''.'' @ zone)"

lemma absolute_relative:
  assumes "canonical d" and "in_zone zone d"
  shows "absolute_name (relativeName d zone) zone = d"
proof (cases "d = zone")
  case True
  then show ?thesis by (simp add: absolute_name_def)
next
  case False
  from canonical_split [OF assms False] obtain p where
    p: "d = p @ ''.'' @ zone" "p \<noteq> []" "CHR ''@'' \<notin> set p" by blast
  then have "p \<noteq> ''@''" by auto
  then show ?thesis
    unfolding p(1) relativeName_qualified [OF p(2)] absolute_name_def by simp
qed

section \<open>One line for each value\<close>

text \<open>
  A value that passes validation is rendered without a line break, whatever bytes it holds:
  a record cannot inject a line into the zone file.
\<close>

lemma ensureTrailingDot_no_newline: "nl \<notin> set (trim_space v) \<Longrightarrow> nl \<notin> set (ensureTrailingDot v)"
  by (simp add: ensureTrailingDot_def Let_def)

lemma host_no_newline:
  assumes "validateDomain (normalizeDomain v) = None"
  shows "nl \<notin> set (ensureTrailingDot v)"
  using assms target_no_newline ensureTrailingDot_no_newline by (simp add: validate_normalized_iff)

lemma address_no_newline: "parse_ip v \<noteq> None \<Longrightarrow> nl \<notin> set v"
  using parse_ip_graphic [of v nl] by (auto simp: graphic_def)

lemma validateValue_type:
  "validateValue t v = None \<Longrightarrow> t \<in> {''A'', ''AAAA'', ''CNAME'', ''TXT'', ''MX'', ''SRV''}"
  by (auto simp: validateValue_def Let_def split: if_splits)

lemma validateValue_SRV_fields:
  assumes "validateValue DNSRecordTypeSRV v = None"
  shows "length (str_fields (trim_space v)) = 4"
    and "validateDomain (normalizeDomain (str_fields (trim_space v) ! 3)) = None"
    and "\<forall>p \<in> set (take 3 (str_fields (trim_space v))). atoi p \<noteq> None"
  using assms
  by (auto simp: validateValue_def Let_def first_error_None split: if_splits option.splits)

lemma join_no_newline: "\<forall>p \<in> set ps. nl \<notin> set p \<Longrightarrow> nl \<notin> set (join '' '' ps)"
  using set_join [of "'' ''" ps] by auto

lemma renderValue_no_newline:
  assumes "validateValue t v = None"
  shows "nl \<notin> set (renderValue t v)"
proof -
  let ?w = "trim_space v" and ?ps = "str_fields (trim_space v)"
  from validateValue_type [OF assms] consider
      (addr) "t = ''A'' \<or> t = ''AAAA''" | (cname) "t = ''CNAME''" | (text_rec) "t = ''TXT''"
    | (mx) "t = ''MX''" | (srv) "t = ''SRV''"
    by auto
  then show ?thesis
  proof cases
    case addr
    with assms have "parse_ip ?w \<noteq> None"
      by (auto simp: validateValue_def Let_def split: option.splits)
    from address_no_newline [OF this] addr show ?thesis by (auto simp: renderValue_def)
  next
    case cname
    with assms have "validateDomain (normalizeDomain ?w) = None" by (simp add: validateValue_def)
    from host_no_newline [OF this] cname show ?thesis by (simp add: renderValue_def)
  next
    case text_rec
    then show ?thesis by (simp add: renderValue_def quote_no_newline)
  next
    case mx
    with assms have l: "length ?ps = 2" and h: "validateDomain (normalizeDomain (?ps ! 1)) = None"
      by (auto simp: validateValue_def Let_def split: if_splits)
    from l have "nl \<notin> set (?ps ! 0)" by (intro str_fields_no_newline [of _ ?w] nth_mem) simp
    with l mx host_no_newline [OF h] show ?thesis by (simp add: renderValue_def Let_def)
  next
    case srv
    note f = validateValue_SRV_fields [of v]
    from srv assms have l: "length ?ps = 4" and h: "validateDomain (normalizeDomain (?ps ! 3)) = None"
      using f by auto
    have "nl \<notin> set (join '' '' (take 3 ?ps))"
      by (rule join_no_newline) (auto dest: in_set_takeD str_fields_no_newline)
    with l srv host_no_newline [OF h] show ?thesis by (simp add: renderValue_def Let_def)
  qed
qed

text \<open>The lines of the published file, without their line breaks.\<close>

definition soa_lines :: "string \<Rightarrow> int32 \<Rightarrow> string \<Rightarrow> string list" where
  "soa_lines n ttl serial =
     [''$ORIGIN '' @ n,
      ''$TTL '' @ dec_int (sint ttl),
      ''@ IN SOA ns.dns.'' @ n @ '' hostmaster.'' @ n @ '' ('',
      ''  '' @ serial @ '' ; serial'',
      ''  7200       ; refresh'',
      ''  3600       ; retry'',
      ''  1209600    ; expire'',
      ''  3600       ; minimum'',
      '')'',
      ''@ IN NS ns.dns.'' @ n]"

definition value_line :: "string \<Rightarrow> Record \<Rightarrow> string \<Rightarrow> string" where
  "value_line n r v =
     relativeName (r_FQDN r) n @ '' '' @ dec_int (sint (r_TTL r)) @ '' IN '' @ r_Type r @ '' ''
     @ renderValue (r_Type r) v"

definition zone_lines :: "string \<Rightarrow> int32 \<Rightarrow> string \<Rightarrow> Record list \<Rightarrow> string list" where
  "zone_lines n ttl serial rs =
     soa_lines n ttl serial @ concat (map (\<lambda>r. map (value_line n r) (sort (r_Values r))) rs)"

text \<open>Joining lines and splitting them again.\<close>

definition unlines :: "string list \<Rightarrow> string" where
  "unlines ls = concat (map (\<lambda>l. l @ [nl]) ls)"

lemma unlines_simps [simp]:
  "unlines [] = []" "unlines (l # ls) = l @ nl # unlines ls" "unlines (ls @ ms) = unlines ls @ unlines ms"
  by (simp_all add: unlines_def)

lemma split_unlines: "\<forall>l \<in> set ls. nl \<notin> set l \<Longrightarrow> split_on nl (unlines ls) = ls @ [[]]"
  by (induction ls) (simp_all add: split_on_append split_on_no_sep)

lemma zone_text_lines: "zone_text n ttl serial rs = unlines (zone_lines n ttl serial rs)"
proof -
  have "record_lines n r = unlines (map (value_line n r) (sort (r_Values r)))" for r
    by (simp add: record_lines_def unlines_def comp_def record_line_def [abs_def] value_line_def)
  then have "concat (map (record_lines n) rs) =
      unlines (concat (map (\<lambda>r. map (value_line n r) (sort (r_Values r))) rs))"
    by (induction rs) simp_all
  then show ?thesis
    by (simp add: zone_text_def zone_lines_def soa_front_def soa_back_def soa_lines_def)
qed

lemma canonical_no_newline: "canonical d \<Longrightarrow> nl \<notin> set d"
  using canonical_bytes [of d nl] by (auto simp: ldh_def label_rune_ok_def)

lemma dec_int_no_newline: "nl \<notin> set (dec_int i)"
  using dec_int_bytes [of nl i] by (auto simp: is_digit_def)

lemma value_line_no_newline:
  assumes "validateValue (r_Type r) v = None" and "canonical (r_FQDN r)"
  shows "nl \<notin> set (value_line n r v)"
proof -
  have "nl \<notin> set (relativeName (r_FQDN r) n)"
    using canonical_no_newline [OF assms(2)] set_trim_suffix
    by (auto simp: relativeName_def) (meson subsetD set_trim_suffix)
  moreover have "nl \<notin> set (r_Type r)" using validateValue_type [OF assms(1)] by auto
  ultimately show ?thesis
    using renderValue_no_newline [OF assms(1)] dec_int_no_newline by (simp add: value_line_def)
qed

lemma zone_lines_split:
  assumes "canonical n" and "nl \<notin> set serial"
    and rs: "\<forall>r \<in> set rs. ValidateRecord r = [] \<and> canonical (r_FQDN r)"
  shows "split_on nl (zone_text n ttl serial rs) = zone_lines n ttl serial rs @ [[]]"
  unfolding zone_text_lines
proof (rule split_unlines, intro ballI)
  fix l assume l: "l \<in> set (zone_lines n ttl serial rs)"
  then consider "l \<in> set (soa_lines n ttl serial)"
    | r v where "r \<in> set rs" "v \<in> set (r_Values r)" "l = value_line n r v"
    by (auto simp: zone_lines_def)
  then show "nl \<notin> set l"
  proof cases
    case 1
    then show ?thesis
      using canonical_no_newline [OF assms(1)] dec_int_no_newline assms(2) by (auto simp: soa_lines_def)
  next
    case 2
    with rs show ?thesis by (simp add: ValidateRecord_Nil value_line_no_newline)
  qed
qed

end
