(* ===== verification/Dns_Properties.thy ===== *)
theory Dns_Properties
  imports Dns_Render
begin

text \<open>
  The properties of the package \<^verbatim>\<open>internal/dns\<close>, each followed by an application at a concrete
  input where it has hypotheses.
\<close>

section \<open>Concrete inputs\<close>

definition sample_record :: "string \<Rightarrow> DNSRecordType \<Rightarrow> string list \<Rightarrow> string \<Rightarrow> string \<Rightarrow> Record" where
  "sample_record fqdn t vs ns name =
     \<lparr>r_Zone = ''example.com.'', r_Name = fqdn, r_FQDN = fqdn, r_Type = t, r_TTL = 300, r_Values = vs,
      r_Source = \<lparr>src_Kind = ''PrivateDNSRecord'', src_Namespace = ns, src_Name = name\<rparr>\<rparr>"

definition sample_zone :: PrivateDNSZone where
  "sample_zone =
     \<lparr>z_Meta = \<lparr>om_Name = ''example'', om_Namespace = [], om_Generation = 1, om_DeletionTimestamp = None,
        om_Finalizers = []\<rparr>,
      z_Spec = \<lparr>zs_Zone = ''Example.com'', zs_TTL = None, zs_UnresolvedRecordPolicy = ''NXDOMAIN'',
        zs_AllowedNamespaces = \<lparr>MatchNames = []\<rparr>, zs_Records = []\<rparr>,
      z_Status = \<lparr>zst_ObservedGeneration = 0, zst_Conditions = [], zst_Records = 0, zst_Serial = [],
        zst_ZoneFileKey = [], zst_LastAppliedHash = []\<rparr>\<rparr>"

definition sample_date :: utc_date where
  "sample_date = \<lparr>d_year = 2026, d_month = 3, d_day = 5\<rparr>"

lemmas sample_defs = sample_record_def sample_zone_def sample_date_def

lemma sample_normalize: "NormalizeZone ''Example.com'' = Inr ''example.com.''"
  by code_simp

lemma sample_canonical: "canonical ''example.com.''"
  using NormalizeZone_canonical [OF sample_normalize] .

lemma sample_www: "FQDN ''www'' ''Example.com'' = Inr ''www.example.com.''"
  by code_simp

lemma sample_www_canonical: "canonical ''www.example.com.''"
  using FQDN_Inr(1) [OF sample_www] .

lemma sample_values:
  "validateValue ''A'' ''10.0.0.1'' = None" "validateValue ''A'' ''10.0.0.2'' = None"
  by code_simp+

lemma sample_serial: "parse_uint32 ''2026030501'' = Some 2026030501"
  by (simp add: parse_uint32_def digits_val_def digit_val_def is_digit_def)

lemma sample_valid:
  "ValidateRecords [sample_record ''www.example.com.'' ''A'' [''10.0.0.1'', ''10.0.0.2''] ''ns'' ''r''] = []"
proof -
  let ?r = "sample_record ''www.example.com.'' ''A'' [''10.0.0.1'', ''10.0.0.2''] ''ns'' ''r''"
  have "ValidateRecord ?r = []"
    using sample_values by (simp add: ValidateRecord_Nil sample_record_def)
  moreover have "\<not> cname_conflict [?r] f" for f
    by (simp add: cname_conflict_def cname_targets_def sample_record_def)
  ultimately show ?thesis by (simp add: ValidateRecords_Nil)
qed

section \<open>Names\<close>

text \<open>C36. NormalizeZone accepts a zone exactly when its normal form (trimmed, lower case, one
  trailing dot) is a valid domain name, and returns that normal form; on a name that is
  already in normal form it is the identity.\<close>
theorem NormalizeZone_accepts:
  "(NormalizeZone zone = Inr n \<longleftrightarrow> n = normalizeDomain zone \<and> canonical n)
   \<and> (canonical n \<longleftrightarrow> NormalizeZone n = Inr n)"
  using NormalizeZone_iff [of zone n] NormalizeZone_iff [of n n] by auto

text \<open>C37. A name that FQDN accepts is a valid domain name inside its zone, and qualifying it
  again in the same zone returns it unchanged.\<close>
theorem FQDN_in_zone_stable:
  assumes "FQDN name zone = Inr d"
  shows "canonical d \<and> in_zone (normalizeDomain zone) d \<and> FQDN d zone = Inr d"
proof -
  note f = FQDN_Inr [OF assms]
  have "NormalizeZone zone = NormalizeZone (normalizeDomain zone)"
    using f(3) NormalizeZone_iff [of zone "normalizeDomain zone"] by simp
  then have "FQDN d zone = FQDN d (normalizeDomain zone)" by (simp add: FQDN_def)
  with f FQDN_absolute [OF f(1,3,2)] show ?thesis by simp
qed

theorem FQDN_in_zone_stable_witness:
  "FQDN ''www'' ''Example.com'' = Inr ''www.example.com.''
   \<and> FQDN ''www.example.com.'' ''Example.com'' = Inr ''www.example.com.''"
  using FQDN_in_zone_stable [OF sample_www] sample_www by simp

section \<open>Validation\<close>

text \<open>C34. ValidateRecordSet reports exactly one error for each name with a CNAME conflict (a CNAME
  target beside a record of another type or beside a second target), in the order of the
  names, each blaming the first CNAME record at the name.\<close>
theorem ValidateRecordSet_exact:
  "ValidateRecordSet rs =
     map (\<lambda>f. RecordError (conflict_detail rs f)) (filter (cname_conflict rs) (sort (remdups (map r_FQDN rs))))"
  by (rule ValidateRecordSet_spec)

section \<open>Deduplication\<close>

text \<open>The values of an RRset are made unique: the result of uniqueSorted is sorted, holds only
  trimmed input values, covers every input value up to case, holds no two values that
  differ only in case, and is not changed by a second application.\<close>
theorem uniqueSorted_correct:
  "sorted (uniqueSorted vs) \<and> distinct (map to_lower (uniqueSorted vs))
   \<and> set (uniqueSorted vs) \<subseteq> trim_space ` set vs
   \<and> to_lower ` set (uniqueSorted vs) = to_lower ` trim_space ` set vs
   \<and> uniqueSorted (uniqueSorted vs) = uniqueSorted vs"
proof -
  have sub: "set (uniqueSorted vs) \<subseteq> trim_space ` set vs" using dns_values.uniq_from by blast
  have "to_lower ` trim_space ` set vs \<subseteq> to_lower ` set (uniqueSorted vs)"
  proof
    fix x assume "x \<in> to_lower ` trim_space ` set vs"
    then obtain u where "u \<in> set vs" "x = to_lower (trim_space u)" by blast
    moreover from dns_values.uniq_covers [OF this(1)] obtain v
      where "v \<in> set (uniqueSorted vs)" "to_lower v = to_lower (trim_space u)" by blast
    ultimately show "x \<in> to_lower ` set (uniqueSorted vs)" by (metis imageI)
  qed
  with sub show ?thesis
    using dns_values.uniq_sorted dns_values.uniq_once dns_values.uniq_idem by blast
qed

text \<open>C35. DeduplicateAndSort returns, for each key, the last record with that key with its values made
  unique and sorted; the keys are distinct and the records are sorted by name, type and
  source name.\<close>
theorem DeduplicateAndSort_last_wins:
  assumes "is_order ord"
  shows "set (DeduplicateAndSort ord rs) =
      {r\<lparr>r_Values := uniqueSorted (r_Values r)\<rparr> | r. find (\<lambda>q. dedup_key q = dedup_key r) (rev rs) = Some r}
    \<and> distinct (map dedup_key (DeduplicateAndSort ord rs))
    \<and> sorted (map rr_order_of (DeduplicateAndSort ord rs))"
  using set_DeduplicateAndSort [OF assms, of rs] DeduplicateAndSort_keys [OF assms, of rs]
    DeduplicateAndSort_sorted [of ord rs]
  by (auto simp: image_Collect)

theorem DeduplicateAndSort_last_wins_witness:
  "is_order (rev :: Record list \<Rightarrow> Record list)
   \<and> distinct (map dedup_key (DeduplicateAndSort rev [sample_record ''a.b.'' ''A'' [''10.0.0.1''] ''ns'' ''r'']))"
  using DeduplicateAndSort_last_wins [of rev "[sample_record ''a.b.'' ''A'' [''10.0.0.1''] ''ns'' ''r'']"]
  by simp

text \<open>When no two records share name, type and source name without sharing the whole key, the
  result of DeduplicateAndSort does not depend on the order in which the Go map is visited
  or on how the unstable sort leaves ties.\<close>
theorem DeduplicateAndSort_deterministic:
  assumes "tie_free rs" and "is_order ord1" and "is_order ord2"
  shows "DeduplicateAndSort ord1 rs = DeduplicateAndSort ord2 rs"
  using assms by (rule DeduplicateAndSort_order_free)

theorem DeduplicateAndSort_deterministic_witness:
  "DeduplicateAndSort rev
      [sample_record ''b.a.'' ''A'' [''10.0.0.1''] ''ns'' ''r'', sample_record ''a.a.'' ''A'' [''10.0.0.2''] ''ns'' ''q'']
   = DeduplicateAndSort (\<lambda>xs. xs)
      [sample_record ''b.a.'' ''A'' [''10.0.0.1''] ''ns'' ''r'', sample_record ''a.a.'' ''A'' [''10.0.0.2''] ''ns'' ''q'']"
  by (rule DeduplicateAndSort_deterministic) (auto simp: tie_free_def rr_order_of_def sample_record_def)

lemma tied_pair:
  assumes "dedup_key a \<noteq> dedup_key b" and "rr_order_of a = rr_order_of b"
  shows "DeduplicateAndSort (\<lambda>xs. xs) [a, b] = [normalised_values a, normalised_values b]"
    and "DeduplicateAndSort rev [a, b] = [normalised_values b, normalised_values a]"
  using assms by (simp_all add: DeduplicateAndSort_def collapse_def sort_slice_def)

text \<open>Without that condition the result does depend on the order: two records of the same name and
  type whose sources have the same name in different namespaces come out in either order.\<close>
theorem DeduplicateAndSort_order_dependent:
  "\<exists>rs. DeduplicateAndSort (\<lambda>xs. xs) rs \<noteq> DeduplicateAndSort rev rs \<and> ValidateRecords rs = []"
proof -
  let ?r = "\<lambda>ns v. sample_record ''www.example.com.'' ''A'' [v] ns ''web''"
  let ?rs = "[?r ''team-a'' ''10.0.0.1'', ?r ''team-b'' ''10.0.0.2'']"
  have "dedup_key (?r ''team-a'' ''10.0.0.1'') \<noteq> dedup_key (?r ''team-b'' ''10.0.0.2'')"
    and "rr_order_of (?r ''team-a'' ''10.0.0.1'') = rr_order_of (?r ''team-b'' ''10.0.0.2'')"
    by (simp_all add: dedup_key_def rr_order_of_def sample_record_def)
  from tied_pair [OF this] have
    "map (src_Namespace \<circ> r_Source) (DeduplicateAndSort (\<lambda>xs. xs) ?rs) = [''team-a'', ''team-b'']"
    "map (src_Namespace \<circ> r_Source) (DeduplicateAndSort rev ?rs) = [''team-b'', ''team-a'']"
    by (simp_all add: sample_record_def)
  then have "DeduplicateAndSort (\<lambda>xs. xs) ?rs \<noteq> DeduplicateAndSort rev ?rs" by auto
  moreover have "ValidateRecords ?rs = []"
    using sample_values
    by (auto simp: ValidateRecords_Nil ValidateRecord_Nil cname_conflict_def cname_targets_def sample_record_def)
  ultimately show ?thesis by blast
qed

text \<open>Two records of one source with the same name, type and TTL share a key, so the values of the
  first are dropped: the rendered set loses an address that every check accepted.\<close>
theorem DeduplicateAndSort_drops_values:
  "\<exists>rs r v. r \<in> set rs \<and> v \<in> set (r_Values r) \<and> ValidateRecords rs = []
     \<and> v \<notin> set (concat (map r_Values (DeduplicateAndSort (\<lambda>xs. xs) rs)))"
proof -
  let ?r = "\<lambda>v. sample_record ''www.example.com.'' ''A'' [v] [] ''example''"
  let ?rs = "[?r ''10.0.0.1'', ?r ''10.0.0.2'']"
  have "collapse ?rs = [(dedup_key (?r ''10.0.0.2''), normalised_values (?r ''10.0.0.2''))]"
    by (simp add: collapse_def dedup_key_def sample_record_def)
  then have "DeduplicateAndSort (\<lambda>xs. xs) ?rs = [normalised_values (?r ''10.0.0.2'')]"
    by (simp add: DeduplicateAndSort_def sort_slice_def)
  moreover have "set (uniqueSorted [''10.0.0.2'']) \<subseteq> {''10.0.0.2''}"
  proof -
    have "trim_space ''10.0.0.2'' = ''10.0.0.2''" by (rule trim_space_all_graphic) (simp add: graphic_def)
    with dns_values.uniq_from [of _ "[''10.0.0.2'']"] show ?thesis by auto
  qed
  moreover have "ValidateRecords ?rs = []"
    using sample_values
    by (auto simp: ValidateRecords_Nil ValidateRecord_Nil cname_conflict_def cname_targets_def sample_record_def)
  ultimately show ?thesis
    by (intro exI [of _ ?rs] exI [of _ "?r ''10.0.0.1''"] exI [of _ "''10.0.0.1''"]) (auto simp: sample_record_def)
qed

text \<open>Deduplication keeps a valid record set valid, so the validation that RenderZone repeats after
  it cannot fail on records that were valid before.\<close>
theorem DeduplicateAndSort_valid:
  assumes "is_order ord" and "ValidateRecords rs = []"
  shows "ValidateRecords (DeduplicateAndSort ord rs) = []"
  using assms by (rule ValidateRecords_DeduplicateAndSort)

theorem DeduplicateAndSort_valid_witness:
  "ValidateRecords (DeduplicateAndSort rev
      [sample_record ''www.example.com.'' ''A'' [''10.0.0.1'', ''10.0.0.2''] ''ns'' ''r'']) = []"
  by (rule DeduplicateAndSort_valid [OF _ sample_valid]) simp

section \<open>Rendering\<close>

text \<open>C32. A serial below the 32-bit maximum is followed by a strictly greater one, whatever the clock
  says; at the maximum it stays there.\<close>
theorem nextSerial_monotone:
  assumes "parse_uint32 previous = Some p"
  shows "\<exists>n. parse_uint32 (nextSerial previous now) = Some n
           \<and> (if p < MaxUint32 then p < n else n = MaxUint32)"
  using assms by (rule nextSerial_advances)

theorem nextSerial_monotone_witness:
  "\<exists>n. parse_uint32 (nextSerial ''2026030501'' sample_date) = Some n \<and> 2026030501 < n"
  using nextSerial_monotone [OF sample_serial, of sample_date] by (simp add: MaxUint32_def)

text \<open>C29. RenderZone succeeds exactly when the normal form of the zone name is a valid domain name, the
  TTL of the zone is positive, each record that deduplication keeps has a positive TTL and at least
  one value and only values that are valid for its type, and no name has a CNAME conflict. Then the
  file consists of the ten lines of the header, with the serial in the SOA record, and one
  line for each value of each record, in order; the hash is the SHA-1 of the same lines with a
  placeholder for the serial; and the serial is the previous one when the hash is unchanged and
  the next one otherwise.\<close>
theorem RenderZone_succeeds_iff:
  fixes ord zone rs
  defines "n \<equiv> normalizeDomain (zs_Zone (z_Spec zone))" and "kept \<equiv> DeduplicateAndSort ord rs"
  shows "RenderZone ord zone rs now previous = Inr zf \<longleftrightarrow>
     canonical n \<and> 0 < sint (zone_ttl zone)
     \<and> list_all (\<lambda>r. 0 < sint (r_TTL r) \<and> r_Values r \<noteq> [] \<and> list_all (\<lambda>v. validateValue (r_Type r) v = None) (r_Values r)) kept
     \<and> (\<forall>f. \<not> cname_conflict kept f)
     \<and> zf_Key zf = ZoneFileKey n
     \<and> zf_Hash zf = hex_bytes (sha1_sum (unlines
         (soa_lines n (zone_ttl zone) serialPlaceholder @ concat (map (\<lambda>r. map (value_line n r) (sort (r_Values r))) kept))))
     \<and> zf_Serial zf = (if pr_Serial previous \<noteq> [] \<and> zf_Hash zf = pr_Hash previous
         then pr_Serial previous else nextSerial (pr_Serial previous) now)
     \<and> zf_Content zf = unlines
         (soa_lines n (zone_ttl zone) (zf_Serial zf) @ concat (map (\<lambda>r. map (value_line n r) (sort (r_Values r))) kept))"
proof -
  have "ValidateRecords kept = [] \<longleftrightarrow>
      list_all (\<lambda>r. 0 < sint (r_TTL r) \<and> r_Values r \<noteq> [] \<and> list_all (\<lambda>v. validateValue (r_Type r) v = None) (r_Values r)) kept
      \<and> (\<forall>f. \<not> cname_conflict kept f)"
    by (simp add: ValidateRecords_Nil ValidateRecord_Nil list_all_iff)
  moreover have "NormalizeZone (zs_Zone (z_Spec zone)) = Inr m \<longleftrightarrow> m = n \<and> canonical n" for m
    using NormalizeZone_iff [of "zs_Zone (z_Spec zone)" m] by (auto simp: n_def)
  ultimately show ?thesis
    unfolding RenderZone_Inr_iff kept_def [symmetric] zone_lines_def [symmetric] zone_text_lines [symmetric]
    by (cases zf) (auto simp: body_hash_def carried_serial_def zone_body_text)
qed

text \<open>C30. Rendering a zone again with unchanged records, the serial and the hash of the last rendering
  gives the same bytes and the same serial on any later date and in whatever order Go visits its
  maps and leaves ties this time: a steady zone writes nothing. This asks that no two records with
  the same name, type and source name differ in their deduplication key (\<open>tie_free\<close>): two records
  of the same name from different namespaces may move.\<close>
theorem RenderZone_steady_state:
  assumes "RenderZone ord zone rs now previous = Inr zf"
    and "tie_free rs" and "is_order ord" and "is_order ord'"
  shows "RenderZone ord' zone rs later \<lparr>pr_Serial = zf_Serial zf, pr_Hash = zf_Hash zf\<rparr> = Inr zf"
  using assms by (rule RenderZone_steady_orders)

lemma sample_render:
  "ValidateRecords (DeduplicateAndSort (\<lambda>xs. xs) rs) = [] \<Longrightarrow>
     \<exists>zf. RenderZone (\<lambda>xs. xs) sample_zone rs now previous = Inr zf"
  using sample_normalize by (auto simp: RenderZone_Inr_iff sample_zone_def zone_ttl_def DefaultTTL_def)

definition sample_pair :: "Record list" where
  "sample_pair =
     [sample_record ''www.example.com.'' ''A'' [''10.0.0.1''] ''team-b'' ''web'',
      sample_record ''api.example.com.'' ''A'' [''10.0.0.2''] ''team-a'' ''web'']"

lemma sample_pair_valid: "ValidateRecords sample_pair = []"
  using sample_values
  by (auto simp: ValidateRecords_Nil ValidateRecord_Nil cname_conflict_def cname_targets_def sample_pair_def sample_record_def)

theorem RenderZone_steady_state_witness:
  "\<exists>zf. RenderZone (\<lambda>xs. xs) sample_zone sample_pair sample_date \<lparr>pr_Serial = [], pr_Hash = []\<rparr> = Inr zf
     \<and> RenderZone rev sample_zone sample_pair \<lparr>d_year = 2027, d_month = 1, d_day = 1\<rparr>
         \<lparr>pr_Serial = zf_Serial zf, pr_Hash = zf_Hash zf\<rparr> = Inr zf"
proof -
  obtain zf where zf: "RenderZone (\<lambda>xs. xs) sample_zone sample_pair sample_date \<lparr>pr_Serial = [], pr_Hash = []\<rparr> = Inr zf"
    using sample_render [OF ValidateRecords_DeduplicateAndSort [OF is_order_id sample_pair_valid]] by blast
  have "tie_free sample_pair" by (simp add: tie_free_def rr_order_of_def sample_pair_def sample_record_def)
  from RenderZone_steady_state [OF zf this is_order_id is_order_rev] zf show ?thesis by blast
qed

text \<open>C31. When the records changed since the previous rendering, the published serial is strictly
  greater than the previous one (below the 32-bit maximum), so CoreDNS reloads the zone.\<close>
theorem RenderZone_change_advances:
  assumes "RenderZone ord zone rs now previous = Inr zf" and "zf_Hash zf \<noteq> pr_Hash previous"
    and "parse_uint32 (pr_Serial previous) = Some p" and "p < MaxUint32"
  shows "\<exists>n. parse_uint32 (zf_Serial zf) = Some n \<and> p < n"
  using assms by (rule RenderZone_serial_advances)

theorem RenderZone_change_advances_witness:
  "\<exists>zf n. RenderZone (\<lambda>xs. xs) sample_zone [] sample_date \<lparr>pr_Serial = ''2026030501'', pr_Hash = []\<rparr> = Inr zf
     \<and> parse_uint32 (zf_Serial zf) = Some n \<and> 2026030501 < n"
proof -
  have "ValidateRecords (DeduplicateAndSort (\<lambda>xs. xs) []) = []" by code_simp
  then obtain zf where zf:
    "RenderZone (\<lambda>xs. xs) sample_zone [] sample_date \<lparr>pr_Serial = ''2026030501'', pr_Hash = []\<rparr> = Inr zf"
    using sample_render by blast
  then have "length (zf_Hash zf) = 40" by (auto simp: RenderZone_Inr_iff body_hash_def)
  then have "zf_Hash zf \<noteq> pr_Hash \<lparr>pr_Serial = ''2026030501'', pr_Hash = []\<rparr>" by auto
  from RenderZone_change_advances [OF zf this, of 2026030501] zf sample_serial show ?thesis
    by (simp add: MaxUint32_def)
qed

text \<open>C33. A record cannot inject lines into the zone file: splitting the rendered file at line breaks
  gives exactly the ten lines of the header and one line for each value of each record,
  for any values that pass validation.\<close>
theorem RenderZone_lines:
  assumes "RenderZone ord zone rs now previous = Inr zf"
    and "\<forall>r \<in> set (DeduplicateAndSort ord rs). canonical (r_FQDN r)"
    and "nl \<notin> set (pr_Serial previous)"
  shows "split_on nl (zf_Content zf) =
      zone_lines (normalizeDomain (zs_Zone (z_Spec zone))) (zone_ttl zone) (zf_Serial zf) (DeduplicateAndSort ord rs) @ [[]]"
proof -
  from assms(1) obtain n where n: "NormalizeZone (zs_Zone (z_Spec zone)) = Inr n"
    and valid: "ValidateRecords (DeduplicateAndSort ord rs) = []"
    and content: "zf_Content zf = zone_text n (zone_ttl zone) (zf_Serial zf) (DeduplicateAndSort ord rs)"
    and serial: "zf_Serial zf = carried_serial (zf_Hash zf) now previous"
    by (auto simp: RenderZone_Inr_iff)
  have "is_digit nl = False" by (simp add: is_digit_def)
  then have "nl \<notin> set (zf_Serial zf)"
    using serial assms(3) nextSerial_digits [of nl "pr_Serial previous" now]
    by (auto simp: carried_serial_def split: if_splits)
  moreover have "canonical n" "n = normalizeDomain (zs_Zone (z_Spec zone))"
    using n by (auto simp: NormalizeZone_iff)
  ultimately show ?thesis
    using zone_lines_split assms(2) valid unfolding content by (simp add: ValidateRecords_Nil)
qed

text \<open>A text that tries to end its line and to start one of its own.\<close>

definition sample_injection :: string where
  "sample_injection = ''v=1'' @ [nl] @ ''www 60 IN A 6.6.6.6''"

lemma sample_injection_values: "uniqueSorted [sample_injection] = [sample_injection]"
  by code_simp

lemma sample_injection_valid:
  "ValidateRecords [sample_record ''www.example.com.'' ''TXT'' [sample_injection] ''ns'' ''r''] = []"
proof -
  have "validateValue ''TXT'' sample_injection = None" by code_simp
  then show ?thesis
    by (auto simp: ValidateRecords_Nil ValidateRecord_Nil cname_conflict_def cname_targets_def sample_record_def)
qed

theorem RenderZone_lines_witness:
  "\<exists>zf. RenderZone (\<lambda>xs. xs) sample_zone [sample_record ''www.example.com.'' ''TXT'' [sample_injection] ''ns'' ''r'']
         sample_date \<lparr>pr_Serial = [], pr_Hash = []\<rparr> = Inr zf
     \<and> nl \<in> set sample_injection \<and> length (split_on nl (zf_Content zf)) = 12
     \<and> split_on nl (zf_Content zf) ! 10 = ''www 300 IN TXT '' @ quote sample_injection"
proof -
  let ?r = "sample_record ''www.example.com.'' ''TXT'' [sample_injection] ''ns'' ''r''"
  have d: "DeduplicateAndSort (\<lambda>xs. xs) [?r] = [?r]"
    using sample_injection_values by (simp add: DeduplicateAndSort_def collapse_def sort_slice_def sample_record_def)
  obtain zf where zf: "RenderZone (\<lambda>xs. xs) sample_zone [?r] sample_date \<lparr>pr_Serial = [], pr_Hash = []\<rparr> = Inr zf"
    using sample_render [of "[?r]"] sample_injection_valid unfolding d by blast
  have fqdn: "\<forall>r \<in> set (DeduplicateAndSort (\<lambda>xs. xs) [?r]). canonical (r_FQDN r)"
    using sample_www_canonical unfolding d by (simp add: sample_record_def)
  have n: "normalizeDomain (zs_Zone (z_Spec sample_zone)) = ''example.com.''"
    using NormalizeZone_iff [of "''Example.com''" "''example.com.''"] sample_normalize by (simp add: sample_zone_def)
  have "trim_space sample_injection = sample_injection" by code_simp
  moreover have "relativeName ''www.example.com.'' ''example.com.'' = ''www''" by code_simp
  moreover have "dec_int (sint (300 :: int32)) = ''300''" by (simp add: dec_int_def dec.simps digit_def) code_simp
  ultimately have line: "value_line ''example.com.'' ?r sample_injection = ''www 300 IN TXT '' @ quote sample_injection"
    by (simp add: value_line_def renderValue_def sample_record_def)
  have vals: "r_Values ?r = [sample_injection]" by (simp add: sample_record_def)
  have "split_on nl (zf_Content zf) =
      soa_lines ''example.com.'' (zone_ttl sample_zone) (zf_Serial zf) @ [''www 300 IN TXT '' @ quote sample_injection, []]"
    using RenderZone_lines [OF zf fqdn] unfolding d n zone_lines_def by (simp add: vals line)
  then show ?thesis using zf by (simp add: soa_lines_def sample_injection_def nth_append)
qed

text \<open>The relative name written for a record denotes the record's own qualified name when the
  file is read in its zone.\<close>
theorem relativeName_denotes:
  assumes "canonical d" and "in_zone zone d"
  shows "absolute_name (relativeName d zone) zone = d"
  using assms by (rule absolute_relative)

theorem relativeName_denotes_witness:
  "relativeName ''www.example.com.'' ''example.com.'' = ''www''
   \<and> absolute_name (relativeName ''www.example.com.'' ''example.com.'') ''example.com.'' = ''www.example.com.''"
proof -
  have "in_zone ''example.com.'' ''www.example.com.''" by code_simp
  then show ?thesis using relativeName_denotes [OF sample_www_canonical] by (simp add: relativeName_def trim_suffix_def suffix_def) code_simp
qed

end
