(* ===== verification/Coredns_Corefile.thy ===== *)
theory Coredns_Corefile
  imports Dns_Render
begin

text \<open>
  \<^verbatim>\<open>internal/coredns/corefile.go\<close>: rendering the server blocks of the managed zones, placing
  them in the Corefile between two markers, and reading them back. Offsets of Go strings
  are positions in the list of bytes.
\<close>

section \<open>Data\<close>

definition ManagedBlockStart :: string where
  "ManagedBlockStart = ''# BEGIN private-dns-zone-operator''"

definition ManagedBlockEnd :: string where
  "ManagedBlockEnd = ''# END private-dns-zone-operator''"

record ZoneDirective =
  zd_Zone :: string
  zd_DBFile :: string
  zd_Policy :: UnresolvedRecordPolicy
  zd_Records :: "Record list"
  zd_Raw :: string

record templateRRSet =
  rr_FQDN :: string
  rr_Zone :: string
  rr_Type :: DNSRecordType
  rr_TTL :: int32
  rr_Values :: "string list"

text \<open>
  The pattern \<^verbatim>\<open>^(\S+):53 \{$\<close> with its group: \<^verbatim>\<open>\S\<close> excludes tab, line feed, form feed,
  carriage return and space.
\<close>

definition header_space :: "char \<Rightarrow> bool" where
  "header_space c \<longleftrightarrow> c \<in> {CHR 0x09, CHR 0x0A, CHR 0x0C, CHR 0x0D, CHR '' ''}"

definition zoneStanzaHeader :: "string \<Rightarrow> string option" where
  "zoneStanzaHeader line =
     (if suffix '':53 {'' line then
        (let z = trim_suffix line '':53 {'' in
         if z \<noteq> [] \<and> \<not> list_ex header_space z then Some z else None)
      else None)"

section \<open>Template records\<close>

definition cd_ensureTrailingDot :: "string \<Rightarrow> string" where
  "cd_ensureTrailingDot value = (if suffix ''.'' value then value else value @ ''.'')"

definition templateValue :: "DNSRecordType \<Rightarrow> string \<Rightarrow> string" where
  "templateValue recordType value0 =
     (let value = trim_space value0 in
      if recordType = DNSRecordTypeCNAME then cd_ensureTrailingDot value
      else if recordType = DNSRecordTypeTXT then quote value
      else if recordType = DNSRecordTypeMX then
        (let parts = str_fields value in
         if length parts = 2 then parts ! 0 @ '' '' @ cd_ensureTrailingDot (parts ! 1) else value)
      else if recordType = DNSRecordTypeSRV then
        (let parts = str_fields value in
         if length parts = 4 then join '' '' (take 3 parts) @ '' '' @ cd_ensureTrailingDot (parts ! 3)
         else value)
      else value)"

definition uniq_value_step :: "string list \<times> string list \<Rightarrow> string \<Rightarrow> string list \<times> string list" where
  "uniq_value_step st value0 =
     (let (seen, out) = st; value = trim_space value0; key = to_lower value in
      if key \<in> set seen then (seen, out) else (key # seen, out @ [value]))"

definition uniqueSortedValues :: "string list \<Rightarrow> string list" where
  "uniqueSortedValues values = sort (snd (foldl uniq_value_step ([], []) values))"

definition group_step ::
    "(string, templateRRSet) gomap \<times> string list \<Rightarrow> Record \<Rightarrow> (string, templateRRSet) gomap \<times> string list" where
  "group_step st record =
     (let (sets, keys) = st;
          fqdn = cd_ensureTrailingDot (trim_space (r_FQDN record));
          key = fqdn @ ''|'' @ r_Type record;
          (s, keys) =
            (case map_of sets key of
               Some s \<Rightarrow> (s, keys)
             | None \<Rightarrow>
                 (\<lparr>rr_FQDN = fqdn, rr_Zone = r_Zone record, rr_Type = r_Type record,
                   rr_TTL = r_TTL record, rr_Values = []\<rparr>, keys @ [key]));
          s = (if r_TTL record <s rr_TTL s then s\<lparr>rr_TTL := r_TTL record\<rparr> else s);
          s = s\<lparr>rr_Values := rr_Values s @ r_Values record\<rparr>
      in (AList.update key s sets, keys))"

definition groupTemplateRecords :: "Record list \<Rightarrow> templateRRSet list" where
  "groupTemplateRecords records =
     (let (sets, keys) = foldl group_step ([], []) records in
      map (\<lambda>key. let s = the (map_of sets key) in s\<lparr>rr_Values := uniqueSortedValues (rr_Values s)\<rparr>)
        (sort keys))"

text \<open>\<^verbatim>\<open>regexp.QuoteMeta\<close>.\<close>

definition quote_meta :: "string \<Rightarrow> string" where
  "quote_meta s =
     concat (map (\<lambda>c. if c \<in> set ([CHR 0x5C] @ ''.+*?()|[]{}^$'') then [CHR 0x5C, c] else [c]) s)"

text \<open>One stanza, and its answer line for one value.\<close>

definition answer_line :: "templateRRSet \<Rightarrow> string \<Rightarrow> string" where
  "answer_line s value =
     ''        answer ''
     @ quote (''{{ .Name }} '' @ dec_int (sint (rr_TTL s)) @ '' IN '' @ rr_Type s @ '' ''
         @ templateValue (rr_Type s) value)
     @ [nl]"

definition template_stanza :: "templateRRSet \<Rightarrow> string" where
  "template_stanza s =
     ''    template IN '' @ rr_Type s @ '' '' @ trim_suffix (rr_Zone s) ''.'' @ '' {'' @ [nl]
     @ ''        match ^'' @ quote_meta (rr_FQDN s) @ ''$'' @ [nl]
     @ concat (map (answer_line s) (rr_Values s))
     @ ''        fallthrough'' @ [nl]
     @ ''    }'' @ [nl]"

definition renderTemplateRecords :: "Record order \<Rightarrow> Record list \<Rightarrow> string" where
  "renderTemplateRecords ord records =
     concat (map template_stanza (groupTemplateRecords (DeduplicateAndSort ord records)))"

section \<open>The managed block\<close>

text \<open>What the loop of \<^verbatim>\<open>renderManagedBlock\<close> writes for one directive.\<close>

definition directive_text :: "Record order \<Rightarrow> ZoneDirective \<Rightarrow> string" where
  "directive_text ord d =
     (if zd_Raw d \<noteq> [] then [nl, nl] @ trim_right_char nl (zd_Raw d)
      else
        (let zone = trim_suffix (zd_Zone d) ''.'' in
         [nl, nl] @ zone @ '':53 {'' @ [nl] @ ''    errors'' @ [nl]
         @ (if zd_Policy d = UnresolvedRecordPolicyForward then
              renderTemplateRecords ord (zd_Records d) @ ''    forward . /etc/resolv.conf'' @ [nl]
            else ''    file /etc/coredns/'' @ zd_DBFile d @ '' '' @ zone @ [nl])
         @ ''    cache 30'' @ [nl] @ ''}''))"

definition renderManagedBlock :: "ZoneDirective order \<Rightarrow> Record order \<Rightarrow> ZoneDirective list \<Rightarrow> string" where
  "renderManagedBlock ordD ordR directives =
     ManagedBlockStart
     @ concat (map (directive_text ordR) (sort_slice ordD zd_Zone directives))
     @ [nl] @ ManagedBlockEnd"

definition removeManagedBlock :: "string \<Rightarrow> go_error + string" where
  "removeManagedBlock corefile =
     (let bad = Inl (PlainError ''managed Corefile block markers are incomplete or out of order'') in
      case (str_index ManagedBlockStart corefile, str_index ManagedBlockEnd corefile) of
        (None, None) \<Rightarrow> Inr corefile
      | (Some start, Some end) \<Rightarrow>
          if end < start then bad
          else Inr (take start corefile @ drop (end + length ManagedBlockEnd) corefile)
      | _ \<Rightarrow> bad)"

definition PatchCorefile ::
    "ZoneDirective order \<Rightarrow> Record order \<Rightarrow> string \<Rightarrow> ZoneDirective list \<Rightarrow> go_error + string" where
  "PatchCorefile ordD ordR corefile directives =
     (let block = renderManagedBlock ordD ordR directives in
      case removeManagedBlock corefile of
        Inl err \<Rightarrow> Inl err
      | Inr stripped \<Rightarrow> Inr (trim_right_char nl stripped @ [nl, nl] @ block @ [nl]))"

text \<open>The body of the loop of \<^verbatim>\<open>ExtractZoneBlocks\<close> over the lines of the block.\<close>

definition extract_step ::
    "string \<times> string list \<times> (string, string) gomap \<Rightarrow> string \<Rightarrow> string \<times> string list \<times> (string, string) gomap" where
  "extract_step st line =
     (let (zone, current, blocks) = st in
      if zone = [] then
        (case zoneStanzaHeader line of
           Some z \<Rightarrow> (z, [line], blocks)
         | None \<Rightarrow> (zone, current, blocks))
      else
        (let current = current @ [line] in
         if line = ''}'' then ([], [], AList.update zone (join [nl] current) blocks)
         else (zone, current, blocks)))"

definition ExtractZoneBlocks :: "string \<Rightarrow> (string, string) gomap" where
  "ExtractZoneBlocks corefile =
     (case (str_index ManagedBlockStart corefile, str_index ManagedBlockEnd corefile) of
        (Some start, Some end) \<Rightarrow>
          if end < start then []
          else
            (let interior = drop (start + length ManagedBlockStart) (take end corefile) in
             snd (snd (foldl extract_step ([], [], []) (split_on nl interior))))
      | _ \<Rightarrow> [])"

definition HasReloadPlugin :: "string \<Rightarrow> bool" where
  "HasReloadPlugin corefile \<longleftrightarrow>
     list_ex (\<lambda>line0. let line = trim_space line0 in line = ''reload'' \<or> prefix ''reload '' line)
       (split_on nl corefile)"

section \<open>The two renderings\<close>

lemma ensureTrailingDot_trimmed: "trim_space v = v \<Longrightarrow> ensureTrailingDot v = cd_ensureTrailingDot v"
  by (simp add: ensureTrailingDot_def cd_ensureTrailingDot_def)

lemma templateValue_eq: "templateValue t v = renderValue t v"
proof -
  have "ensureTrailingDot (str_fields s ! i) = cd_ensureTrailingDot (str_fields s ! i)"
    if "i < length (str_fields s)" for s i
    by (rule ensureTrailingDot_trimmed [OF str_fields_trim]) (use that in \<open>rule nth_mem\<close>)
  then show ?thesis
    by (simp add: templateValue_def renderValue_def Let_def ensureTrailingDot_trimmed)
qed

lemma uniqueSortedValues_eq: "uniqueSortedValues = uniqueSorted"
  by (simp add: fun_eq_iff uniqueSortedValues_def uniqueSorted_def uniq_value_step_def [abs_def]
      uniq_step_def [abs_def])

interpretation template_values: value_dedup uniqueSortedValues
  unfolding uniqueSortedValues_eq by (rule dns_values.value_dedup_axioms)

section \<open>RRsets\<close>

definition rrset_key :: "Record \<Rightarrow> string" where
  "rrset_key r = cd_ensureTrailingDot (trim_space (r_FQDN r)) @ ''|'' @ r_Type r"

text \<open>The RRset a nonempty group of records makes.\<close>

definition rrset_of :: "Record list \<Rightarrow> templateRRSet" where
  "rrset_of rs =
     \<lparr>rr_FQDN = cd_ensureTrailingDot (trim_space (r_FQDN (hd rs))), rr_Zone = r_Zone (hd rs),
      rr_Type = r_Type (hd rs),
      rr_TTL = foldl (\<lambda>t r. if r_TTL r <s t then r_TTL r else t) (r_TTL (hd rs)) rs,
      rr_Values = concat (map r_Values rs)\<rparr>"

lemma rrset_of_snoc:
  "rs \<noteq> [] \<Longrightarrow> rrset_of (rs @ [r]) =
     (let s = rrset_of rs; s = (if r_TTL r <s rr_TTL s then s\<lparr>rr_TTL := r_TTL r\<rparr> else s)
      in s\<lparr>rr_Values := rr_Values s @ r_Values r\<rparr>)"
  by (simp add: rrset_of_def Let_def)

lemma group_step_key:
  "group_step (sets, keys) r =
     (let (s, keys) =
        (case map_of sets (rrset_key r) of
           Some s \<Rightarrow> (s, keys)
         | None \<Rightarrow>
             (\<lparr>rr_FQDN = cd_ensureTrailingDot (trim_space (r_FQDN r)), rr_Zone = r_Zone r,
               rr_Type = r_Type r, rr_TTL = r_TTL r, rr_Values = []\<rparr>, keys @ [rrset_key r]));
        s = (if r_TTL r <s rr_TTL s then s\<lparr>rr_TTL := r_TTL r\<rparr> else s)
      in (AList.update (rrset_key r) (s\<lparr>rr_Values := rr_Values s @ r_Values r\<rparr>) sets, keys))"
  by (simp add: group_step_def rrset_key_def Let_def split: option.splits)

lemma group_fold:
  "foldl group_step ([], []) rs = (sets, keys) \<Longrightarrow>
     (\<forall>k. map_of sets k =
       (if k \<in> rrset_key ` set rs then Some (rrset_of (filter (\<lambda>r. rrset_key r = k) rs)) else None))
     \<and> distinct keys \<and> set keys = rrset_key ` set rs"
proof (induction rs arbitrary: sets keys rule: rev_induct)
  case Nil
  then show ?case by simp
next
  case (snoc r rs)
  obtain sets' keys' where st: "foldl group_step ([], []) rs = (sets', keys')" by force
  note IH = snoc.IH [OF st]
  have step: "(sets, keys) = group_step (sets', keys') r" using snoc.prems st by simp
  have none: "k \<notin> rrset_key ` set rs \<Longrightarrow> filter (\<lambda>r. rrset_key r = k) rs = []" for k
    by (auto simp: filter_empty_conv)
  have some: "k \<in> rrset_key ` set rs \<Longrightarrow> filter (\<lambda>r. rrset_key r = k) rs \<noteq> []" for k
    by (auto simp: filter_empty_conv)
  show ?case
  proof (cases "rrset_key r \<in> rrset_key ` set rs")
    case True
    then have "map_of sets' (rrset_key r) = Some (rrset_of (filter (\<lambda>q. rrset_key q = rrset_key r) rs))"
      using IH by simp
    then have "sets = AList.update (rrset_key r) (rrset_of (filter (\<lambda>q. rrset_key q = rrset_key r) (rs @ [r]))) sets'"
      and "keys = keys'"
      using step some [OF True] by (simp_all add: group_step_key Let_def rrset_of_snoc)
    with IH True show ?thesis by auto
  next
    case False
    then have "map_of sets' (rrset_key r) = None" using IH by simp
    then have "sets = AList.update (rrset_key r) (rrset_of [r]) sets'" and "keys = keys' @ [rrset_key r]"
      using step by (simp_all add: group_step_key Let_def rrset_of_def)
    with IH False none [OF False] show ?thesis by auto
  qed
qed

lemma groupTemplateRecords_spec:
  "groupTemplateRecords rs =
     map (\<lambda>k. let s = rrset_of (filter (\<lambda>r. rrset_key r = k) rs)
              in s\<lparr>rr_Values := uniqueSortedValues (rr_Values s)\<rparr>)
       (sort (remdups (map rrset_key rs)))"
proof -
  obtain sets keys where st: "foldl group_step ([], []) rs = (sets, keys)" by force
  note g = group_fold [OF st]
  have keys: "sort keys = sort (remdups (map rrset_key rs))"
    by (rule sort_cong_set) (use g in simp_all)
  have get: "k \<in> set keys \<Longrightarrow> map_of sets k = Some (rrset_of (filter (\<lambda>r. rrset_key r = k) rs))" for k
    using g by simp
  have "groupTemplateRecords rs =
      map (\<lambda>k. let s = the (map_of sets k) in s\<lparr>rr_Values := uniqueSortedValues (rr_Values s)\<rparr>) (sort keys)"
    by (simp add: groupTemplateRecords_def st)
  also have "\<dots> = map (\<lambda>k. let s = rrset_of (filter (\<lambda>r. rrset_key r = k) rs)
              in s\<lparr>rr_Values := uniqueSortedValues (rr_Values s)\<rparr>) (sort keys)"
    by (rule map_cong [OF refl]) (simp only: set_sort get option.sel)
  finally show ?thesis by (simp only: keys)
qed

text \<open>The lowest TTL of the group.\<close>

lemma fold_min_ttl:
  "sint (foldl (\<lambda>t r. if r_TTL r <s t then r_TTL r else t) t rs) = foldl min (sint t) (map (sint \<circ> r_TTL) rs)"
  by (induction rs arbitrary: t) (auto simp: word_sless_alt min_def)

lemma foldl_min: "foldl min a xs = Min (insert a (set xs))" for a :: int
proof -
  have flip: "(\<lambda>x s. min s x) = (min :: int \<Rightarrow> int \<Rightarrow> int)"
    by (intro ext) (rule min.commute)
  have "foldl min a xs = fold min xs a" by (simp only: foldl_conv_fold flip)
  also have "\<dots> = Min (set (a # xs))" by (rule Min.set_eq_fold [symmetric])
  finally show ?thesis by simp
qed

lemma rrset_of_ttl: "rs \<noteq> [] \<Longrightarrow> sint (rr_TTL (rrset_of rs)) = Min ((sint \<circ> r_TTL) ` set rs)"
  by (cases rs) (simp_all add: rrset_of_def fold_min_ttl foldl_min image_comp)

end
