(* ===== verification/Regions.thy ===== *)
theory Regions
  imports Prelude
begin

text \<open>
  The interface of a region that the operator owns inside an object it shares with others:
  the block between the markers of the Corefile, and the annotation of the ConfigMap that
  lists the managed keys. \<open>put\<close> writes the region, \<open>get\<close> reads it, \<open>rest\<close> is everything else,
  and \<open>view\<close> says what is read back of a value; \<open>fit\<close> and \<open>val\<close> are the objects and the values
  for which the laws hold.
\<close>

locale owned_region =
  fixes put :: "'c \<Rightarrow> 'v \<Rightarrow> 'c"
    and get :: "'c \<Rightarrow> 'w"
    and rest :: "'c \<Rightarrow> 'r"
    and view :: "'v \<Rightarrow> 'w"
    and fit :: "'c \<Rightarrow> bool"
    and val :: "'v \<Rightarrow> bool"
  assumes put_fit: "fit c \<Longrightarrow> val v \<Longrightarrow> fit (put c v)"
    and put_get: "fit c \<Longrightarrow> val v \<Longrightarrow> get (put c v) = view v"
    and put_rest: "fit c \<Longrightarrow> val v \<Longrightarrow> rest (put c v) = rest c"
    and put_same: "fit c \<Longrightarrow> val v \<Longrightarrow> put (put c v) v = put c v"
begin

text \<open>A sequence of writes: the last one counts, and nothing else moves.\<close>

lemma puts_fit: "fit c \<Longrightarrow> list_all val vs \<Longrightarrow> fit (foldl put c vs)"
  by (induction vs arbitrary: c) (auto simp: put_fit)

lemma puts_rest: "fit c \<Longrightarrow> list_all val vs \<Longrightarrow> rest (foldl put c vs) = rest c"
  by (induction vs arbitrary: c) (auto simp: put_fit put_rest)

lemma puts_get: "fit c \<Longrightarrow> list_all val vs \<Longrightarrow> vs \<noteq> [] \<Longrightarrow> get (foldl put c vs) = view (last vs)"
proof (induction vs rule: rev_induct)
  case (snoc v vs)
  then have "fit (foldl put c vs)" by (simp add: puts_fit)
  with snoc show ?case by (simp add: put_get)
qed simp

end

end
