(* ===== verification/Coredns_Block.thy ===== *)
theory Coredns_Block
  imports Coredns_Corefile Regions
begin

text \<open>
  The managed block in the Corefile: when patching fails, what it leaves alone, and that
  the stanzas read back are the ones that were rendered. The block is a region of the file
  that the operator owns (\<open>owned_region\<close>); reading it is \<^verbatim>\<open>ExtractZoneBlocks\<close>, writing it is
  \<^verbatim>\<open>PatchCorefile\<close>, and the rest of the file is \<open>outside_block\<close>.
\<close>

section \<open>Occurrences of a marker across lines\<close>

lemma sublist_line:
  assumes "c \<notin> set s"
  shows "sublist s (a @ c # b) \<longleftrightarrow> sublist s a \<or> sublist s b"
proof
  assume "sublist s (a @ c # b)"
  then consider "sublist s a" | "sublist s (c # b)"
    | u v where "s = u @ v" "suffix u a" "prefix v (c # b)"
    by (auto simp: sublist_append)
  then show "sublist s a \<or> sublist s b"
  proof cases
    case 2
    then have "sublist s b \<or> prefix s (c # b)" by (auto simp: sublist_Cons_right)
    moreover have "prefix s (c # b) \<Longrightarrow> s = []" using assms by (cases s) auto
    ultimately show ?thesis by auto
  next
    case 3
    with assms have "v = []" by (cases v) auto
    with 3 show ?thesis by (auto simp: suffix_imp_sublist)
  qed simp
next
  assume "sublist s a \<or> sublist s b"
  then show "sublist s (a @ c # b)" by (auto simp: sublist_append sublist_Cons_right)
qed

lemma sublist_Cons_line: "c \<notin> set s \<Longrightarrow> sublist s (c # b) \<longleftrightarrow> s = [] \<or> sublist s b"
  using sublist_line [of c s "[]" b] by auto

lemma sublist_join:
  "nl \<notin> set s \<Longrightarrow> s \<noteq> [] \<Longrightarrow> sublist s (join [nl] ls) \<longleftrightarrow> (\<exists>l \<in> set ls. sublist s l)"
proof (induction ls)
  case (Cons l ls)
  then show ?case by (cases "ls = []") (simp_all add: join_Cons sublist_line)
qed simp

lemma markers_self_delimiting:
  "self_delimiting ManagedBlockStart" "self_delimiting ManagedBlockEnd"
  by (simp_all add: self_delimiting_def ManagedBlockStart_def ManagedBlockEnd_def)

lemma markers_line [simp]:
  "nl \<notin> set ManagedBlockStart" "nl \<notin> set ManagedBlockEnd"
  "ManagedBlockStart \<noteq> []" "ManagedBlockEnd \<noteq> []"
  by (simp_all add: ManagedBlockStart_def ManagedBlockEnd_def)

lemma end_not_in_start: "\<not> sublist ManagedBlockEnd ManagedBlockStart"
  by (simp add: ManagedBlockStart_def ManagedBlockEnd_def sublist_Cons_right)

section \<open>A Corefile with one managed block\<close>

definition managed_file :: "string \<Rightarrow> string \<Rightarrow> string" where
  "managed_file outside inside =
     outside @ [nl, nl] @ ManagedBlockStart @ inside @ [nl] @ ManagedBlockEnd @ [nl]"

definition marker_free :: "string \<Rightarrow> bool" where
  "marker_free s \<longleftrightarrow> \<not> sublist ManagedBlockStart s \<and> \<not> sublist ManagedBlockEnd s"

lemma start_in_managed_file:
  assumes "\<not> sublist ManagedBlockStart outside"
  shows "str_index ManagedBlockStart (managed_file outside inside) = Some (length outside + 2)"
proof -
  have "\<not> sublist ManagedBlockStart (outside @ [nl, nl])"
    using assms by (simp add: sublist_line sublist_Cons_line)
  from str_index_first [OF markers_self_delimiting(1) this] show ?thesis
    by (simp add: managed_file_def)
qed

lemma end_in_managed_file:
  assumes "\<not> sublist ManagedBlockEnd outside" and "\<not> sublist ManagedBlockEnd (ManagedBlockStart @ inside)"
  shows "str_index ManagedBlockEnd (managed_file outside inside)
      = Some (length outside + 2 + length ManagedBlockStart + length inside + 1)"
proof -
  have "\<not> sublist ManagedBlockEnd (outside @ nl # nl # (ManagedBlockStart @ inside) @ nl # [])"
    using assms
    unfolding sublist_line [OF markers_line(2)] sublist_Cons_line [OF markers_line(2)] by simp
  from str_index_first [OF markers_self_delimiting(2) this, of "[nl]"] show ?thesis
    by (simp add: managed_file_def)
qed

text \<open>The text of the stanzas starts on a line of its own.\<close>

lemma inside_marker_free:
  "inside = [] \<or> hd inside = nl \<Longrightarrow> \<not> sublist ManagedBlockEnd inside
   \<Longrightarrow> \<not> sublist ManagedBlockEnd (ManagedBlockStart @ inside)"
  by (cases inside) (auto simp: end_not_in_start sublist_line sublist_Cons_line)

lemma remove_managed_file:
  assumes "marker_free outside" and "inside = [] \<or> hd inside = nl" and "\<not> sublist ManagedBlockEnd inside"
  shows "removeManagedBlock (managed_file outside inside) = Inr (outside @ [nl, nl, nl])"
proof -
  have s: "\<not> sublist ManagedBlockStart outside" and e: "\<not> sublist ManagedBlockEnd outside"
    using assms(1) by (auto simp: marker_free_def)
  note E = end_in_managed_file [OF e inside_marker_free [OF assms(2,3)]]
  let ?front = "outside @ [nl, nl] @ ManagedBlockStart @ inside @ [nl] @ ManagedBlockEnd"
  have "length outside + 2 + length ManagedBlockStart + length inside + 1 + length ManagedBlockEnd
      = length ?front" by simp
  moreover have "drop (length ?front) (managed_file outside inside) = [nl]"
    using append_eq_conv_conj [of ?front "[nl]" "managed_file outside inside"]
    by (simp only: managed_file_def append_assoc) simp
  moreover have "take (length outside + 2) (managed_file outside inside) = outside @ [nl, nl]"
    by (simp add: managed_file_def)
  ultimately show ?thesis
    unfolding removeManagedBlock_def start_in_managed_file [OF s] E by (simp add: add.assoc)
qed

text \<open>The stanzas of a list of directives, and a patched Corefile as a managed file.\<close>

definition stanzas :: "ZoneDirective order \<Rightarrow> Record order \<Rightarrow> ZoneDirective list \<Rightarrow> string" where
  "stanzas ordD ordR ds = concat (map (directive_text ordR) (sort_slice ordD zd_Zone ds))"

lemma PatchCorefile_managed_file:
  "PatchCorefile ordD ordR cf ds =
     map_sum id (\<lambda>stripped. managed_file (trim_right_char nl stripped) (stanzas ordD ordR ds)) (removeManagedBlock cf)"
  by (simp add: PatchCorefile_def Let_def renderManagedBlock_def managed_file_def stanzas_def
      split: sum.splits)

lemma directive_text_hd: "directive_text ordR d \<noteq> []" "hd (directive_text ordR d) = nl"
  by (simp_all add: directive_text_def Let_def)

lemma stanzas_hd: "stanzas ordD ordR ds = [] \<or> hd (stanzas ordD ordR ds) = nl"
proof (cases "sort_slice ordD zd_Zone ds")
  case Nil
  then show ?thesis by (simp add: stanzas_def)
next
  case (Cons d es)
  then show ?thesis using directive_text_hd [of ordR d] by (simp add: stanzas_def)
qed

text \<open>Errors: exactly when the markers are incomplete or out of order.\<close>

definition markers_ok :: "string \<Rightarrow> bool" where
  "markers_ok cf \<longleftrightarrow>
     (case (str_index ManagedBlockStart cf, str_index ManagedBlockEnd cf) of
        (None, None) \<Rightarrow> True
      | (Some i, Some j) \<Rightarrow> i \<le> j
      | _ \<Rightarrow> False)"

lemma PatchCorefile_error_iff:
  "(\<exists>e. PatchCorefile ordD ordR cf ds = Inl e) \<longleftrightarrow> \<not> markers_ok cf"
  by (auto simp: PatchCorefile_def Let_def removeManagedBlock_def markers_ok_def split: option.splits)

text \<open>What is outside the block.\<close>

definition outside_block :: "string \<Rightarrow> string" where
  "outside_block cf = (case removeManagedBlock cf of Inl _ \<Rightarrow> cf | Inr s \<Rightarrow> trim_right_char nl s)"

lemma marker_free_trim: "marker_free s \<Longrightarrow> marker_free (trim_right_char nl s)"
proof -
  obtain u where "s = trim_right_char nl s @ u" using trim_right_char_prefix by (auto simp: prefix_def)
  then have "sublist t (trim_right_char nl s) \<Longrightarrow> sublist t s" for t
    by (metis sublist_append)
  then show "marker_free s \<Longrightarrow> marker_free (trim_right_char nl s)" by (auto simp: marker_free_def)
qed

lemma outside_managed_file:
  assumes "marker_free outside" and "trim_right_char nl outside = outside"
    and "inside = [] \<or> hd inside = nl" and "\<not> sublist ManagedBlockEnd inside"
  shows "outside_block (managed_file outside inside) = outside"
proof -
  have "trim_right_char nl (outside @ [nl, nl, nl]) = trim_right_char nl outside"
    by (rule trim_right_char_append_all) simp
  with assms(2) show ?thesis
    by (simp add: outside_block_def remove_managed_file [OF assms(1,3,4)])
qed

text \<open>Patching a second time: only the last list of directives counts.\<close>

lemma PatchCorefile_again:
  assumes "PatchCorefile ordD ordR cf ds = Inr cf'" and "marker_free (outside_block cf)"
    and "\<not> sublist ManagedBlockEnd (stanzas ordD ordR ds)"
  shows "PatchCorefile ordD' ordR' cf' ds' = PatchCorefile ordD' ordR' cf ds'"
    and "outside_block cf' = outside_block cf"
proof -
  from assms(1) obtain s where s: "removeManagedBlock cf = Inr s"
    by (cases "removeManagedBlock cf") (auto simp: PatchCorefile_managed_file)
  let ?o = "trim_right_char nl s"
  have o: "outside_block cf = ?o" by (simp add: outside_block_def s)
  have cf': "cf' = managed_file ?o (stanzas ordD ordR ds)"
    using assms(1) s by (simp add: PatchCorefile_managed_file)
  have m: "marker_free ?o" using assms(2) o by simp
  have "removeManagedBlock cf' = Inr (?o @ [nl, nl, nl])"
    unfolding cf' by (rule remove_managed_file [OF m stanzas_hd assms(3)])
  moreover have "trim_right_char nl (?o @ [nl, nl, nl]) = ?o"
    using trim_right_char_append_all [of "[nl, nl, nl]" nl ?o] by simp
  ultimately show "PatchCorefile ordD' ordR' cf' ds' = PatchCorefile ordD' ordR' cf ds'"
    by (simp add: PatchCorefile_managed_file s)
  show "outside_block cf' = outside_block cf"
    unfolding cf' o by (rule outside_managed_file [OF m _ stanzas_hd assms(3)]) simp
qed

section \<open>Reading the stanzas back\<close>

text \<open>
  A stanza of a zone: a header line for it, lines other than a closing brace, and a
  closing brace.
\<close>

definition is_stanza :: "string \<Rightarrow> string list \<Rightarrow> bool" where
  "is_stanza z ls \<longleftrightarrow>
     (\<exists>h body. ls = h # body @ [''}''] \<and> zoneStanzaHeader h = Some z \<and> ''}'' \<notin> set body)
     \<and> (\<forall>l \<in> set ls. nl \<notin> set l)"

lemma zoneStanzaHeader_Some:
  "zoneStanzaHeader h = Some z \<longleftrightarrow> h = z @ '':53 {'' \<and> z \<noteq> [] \<and> \<not> list_ex header_space z"
proof
  assume "zoneStanzaHeader h = Some z"
  then have "suffix '':53 {'' h" "trim_suffix h '':53 {'' = z" "z \<noteq> []" "\<not> list_ex header_space z"
    by (auto simp: zoneStanzaHeader_def Let_def split: if_splits)
  then show "h = z @ '':53 {'' \<and> z \<noteq> [] \<and> \<not> list_ex header_space z"
    using trim_suffix_split [of "'':53 {''" h] by simp
next
  assume "h = z @ '':53 {'' \<and> z \<noteq> [] \<and> \<not> list_ex header_space z"
  moreover have "suffix '':53 {'' (z @ '':53 {'')" by (simp add: suffix_def)
  ultimately show "zoneStanzaHeader h = Some z"
    unfolding zoneStanzaHeader_def Let_def by (simp del: append.simps)
qed

lemma extract_body:
  "z \<noteq> [] \<Longrightarrow> ''}'' \<notin> set body \<Longrightarrow>
     foldl extract_step (z, cur, m) body = (z, cur @ body, m)"
  by (induction body arbitrary: cur) (auto simp: extract_step_def)

lemma extract_stanza:
  assumes "is_stanza z ls"
  shows "foldl extract_step ([], cur, m) ls = ([], [], AList.update z (join [nl] ls) m)"
proof -
  from assms obtain h body where ls: "ls = h # body @ [''}'']" "zoneStanzaHeader h = Some z" "''}'' \<notin> set body"
    by (auto simp: is_stanza_def)
  then have "z \<noteq> []" by (simp add: zoneStanzaHeader_Some)
  with ls show ?thesis
    by (simp add: extract_step_def [of "([], cur, m)"] extract_body) (simp add: extract_step_def)
qed

lemma extract_blank [simp]: "extract_step ([], cur, m) [] = ([], cur, m)"
  by (simp add: extract_step_def zoneStanzaHeader_def)

text \<open>The lines of the interior when every directive is a stanza.\<close>

lemma interior_lines:
  assumes "\<forall>l \<in> set lss. \<forall>k \<in> set l. nl \<notin> set k" and "[] \<notin> set lss"
  shows "split_on nl (concat (map (\<lambda>ls. [nl, nl] @ join [nl] ls) lss) @ [nl])
       = [] # concat (map (\<lambda>ls. [] # ls) lss) @ [[]]"
  using assms
proof (induction lss)
  case Nil
  then show ?case by simp
next
  case (Cons ls lss)
  let ?rest = "concat (map (\<lambda>ls. [nl, nl] @ join [nl] ls) lss) @ [nl]"
  obtain r where r: "?rest = nl # r" by (cases lss) auto
  have IH: "split_on nl ?rest = [] # concat (map (\<lambda>ls. [] # ls) lss) @ [[]]"
    using Cons by simp
  then have "split_on nl r = concat (map (\<lambda>ls. [] # ls) lss) @ [[]]" unfolding r by simp
  moreover have "split_on nl (join [nl] ls) = ls" using Cons.prems by (intro split_join) auto
  moreover have "concat (map (\<lambda>ls. [nl, nl] @ join [nl] ls) (ls # lss)) @ [nl]
      = nl # nl # join [nl] ls @ nl # r"
    using r by simp
  ultimately show ?case by (simp only: split_on.simps split_on_append) simp
qed

lemma extract_interior:
  assumes "\<forall>(z, ls) \<in> set zs. is_stanza z ls"
  shows "foldl extract_step ([], [], m) (concat (map (\<lambda>(z, ls). [] # ls) zs))
       = ([], [], foldl (\<lambda>m (z, ls). AList.update z (join [nl] ls) m) m zs)"
  using assms
proof (induction zs arbitrary: m)
  case (Cons p zs)
  obtain z ls where p: "p = (z, ls)" by force
  have "foldl extract_step ([], [], m) ls = ([], [], AList.update z (join [nl] ls) m)"
    by (rule extract_stanza) (use Cons.prems p in simp)
  with Cons p show ?case by simp
qed simp

lemma fold_update_distinct:
  "distinct (map fst zs) \<Longrightarrow> map_of (foldl (\<lambda>m (z, x). AList.update z (f x) m) m zs) k
     = (case map_of zs k of Some x \<Rightarrow> Some (f x) | None \<Rightarrow> map_of m k)"
proof (induction zs arbitrary: m)
  case (Cons p zs)
  obtain z x where "p = (z, x)" by force
  moreover from this Cons.prems have "map_of zs z = None" by (simp add: map_of_eq_None_iff)
  ultimately show ?case using Cons by (auto split: option.splits)
qed simp

section \<open>The lines of a directive\<close>

definition template_lines :: "templateRRSet \<Rightarrow> string list" where
  "template_lines s =
     [''    template IN '' @ rr_Type s @ '' '' @ trim_suffix (rr_Zone s) ''.'' @ '' {'',
      ''        match ^'' @ quote_meta (rr_FQDN s) @ ''$'']
     @ map (\<lambda>v. ''        answer '' @ quote (''{{ .Name }} '' @ dec_int (sint (rr_TTL s)) @ '' IN ''
          @ rr_Type s @ '' '' @ templateValue (rr_Type s) v)) (rr_Values s)
     @ [''        fallthrough'', ''    }'']"

definition directive_lines :: "Record order \<Rightarrow> ZoneDirective \<Rightarrow> string list" where
  "directive_lines ordR d =
     (if zd_Raw d \<noteq> [] then split_on nl (trim_right_char nl (zd_Raw d))
      else
        (let zone = trim_suffix (zd_Zone d) ''.'' in
         [zone @ '':53 {'', ''    errors'']
         @ (if zd_Policy d = UnresolvedRecordPolicyForward then
              concat (map template_lines (groupTemplateRecords (DeduplicateAndSort ordR (zd_Records d))))
              @ [''    forward . /etc/resolv.conf'']
            else [''    file /etc/coredns/'' @ zd_DBFile d @ '' '' @ zone])
         @ [''    cache 30'', ''}'']))"

lemma join_unlines: "join [nl] (ls @ [x]) = unlines ls @ x"
  by (induction ls) (simp_all add: join_Cons)

lemma template_stanza_lines: "template_stanza s = unlines (template_lines s)"
proof -
  have "concat (map (answer_line s) vs) =
      unlines (map (\<lambda>v. ''        answer '' @ quote (''{{ .Name }} '' @ dec_int (sint (rr_TTL s)) @ '' IN ''
          @ rr_Type s @ '' '' @ templateValue (rr_Type s) v)) vs)" for vs
    by (induction vs) (simp_all add: answer_line_def)
  then show ?thesis by (simp add: template_stanza_def template_lines_def)
qed

lemma unlines_concat: "concat (map (\<lambda>s. unlines (f s)) ss) = unlines (concat (map f ss))"
  by (induction ss) simp_all

lemma directive_text_lines: "directive_text ordR d = [nl, nl] @ join [nl] (directive_lines ordR d)"
proof (cases "zd_Raw d = []")
  case False
  then show ?thesis by (simp add: directive_text_def directive_lines_def)
next
  case True
  let ?z = "trim_suffix (zd_Zone d) ''.''"
  let ?mid = "if zd_Policy d = UnresolvedRecordPolicyForward then
              concat (map template_lines (groupTemplateRecords (DeduplicateAndSort ordR (zd_Records d))))
              @ [''    forward . /etc/resolv.conf'']
            else [''    file /etc/coredns/'' @ zd_DBFile d @ '' '' @ ?z]"
  have ls: "directive_lines ordR d = ([?z @ '':53 {'', ''    errors''] @ ?mid @ [''    cache 30'']) @ [''}'']"
    using True by (simp add: directive_lines_def Let_def)
  have "renderTemplateRecords ordR rs =
      unlines (concat (map template_lines (groupTemplateRecords (DeduplicateAndSort ordR rs))))" for rs
    by (simp add: renderTemplateRecords_def template_stanza_lines [abs_def] unlines_concat)
  then show ?thesis
    unfolding ls join_unlines using True by (simp add: directive_text_def Let_def)
qed

text \<open>A directive whose parts hold no line break is one stanza.\<close>

definition record_clean :: "Record \<Rightarrow> bool" where
  "record_clean r \<longleftrightarrow> nl \<notin> set (r_FQDN r) \<and> nl \<notin> set (r_Zone r) \<and> nl \<notin> set (r_Type r)"

definition directive_ok :: "Record order \<Rightarrow> ZoneDirective \<Rightarrow> string \<Rightarrow> bool" where
  "directive_ok ordR d z \<longleftrightarrow>
     (if zd_Raw d \<noteq> [] then is_stanza z (directive_lines ordR d)
      else zd_Zone d = z @ ''.'' \<and> z \<noteq> [] \<and> \<not> list_ex header_space z
        \<and> (if zd_Policy d = UnresolvedRecordPolicyForward then \<forall>r \<in> set (zd_Records d). record_clean r
           else nl \<notin> set (zd_DBFile d)))"

lemma quote_meta_no_newline: "nl \<notin> set s \<Longrightarrow> nl \<notin> set (quote_meta s)"
  by (auto simp: quote_meta_def split: if_splits)

lemma cd_dot_no_newline: "nl \<notin> set s \<Longrightarrow> nl \<notin> set (cd_ensureTrailingDot s)"
  by (simp add: cd_ensureTrailingDot_def)

lemma rrset_group_from:
  assumes "s \<in> set (groupTemplateRecords rs)"
  obtains r where "r \<in> set rs" "rr_FQDN s = cd_ensureTrailingDot (trim_space (r_FQDN r))"
    "rr_Zone s = r_Zone r" "rr_Type s = r_Type r"
proof -
  from assms obtain k where k: "k \<in> rrset_key ` set rs"
    "s = (let q = rrset_of (filter (\<lambda>r. rrset_key r = k) rs) in q\<lparr>rr_Values := uniqueSortedValues (rr_Values q)\<rparr>)"
    unfolding groupTemplateRecords_spec by auto
  then have "filter (\<lambda>r. rrset_key r = k) rs \<noteq> []" by (auto simp: filter_empty_conv)
  then have "hd (filter (\<lambda>r. rrset_key r = k) rs) \<in> set rs" by (metis filter_is_subset hd_in_set subsetD)
  with k(2) show ?thesis using that by (simp add: rrset_of_def Let_def)
qed

lemma template_lines_no_newline:
  assumes "\<forall>r \<in> set rs. record_clean r" and "s \<in> set (groupTemplateRecords rs)"
    and "l \<in> set (template_lines s)"
  shows "nl \<notin> set l \<and> l \<noteq> ''}''"
proof -
  obtain r where r: "r \<in> set rs" "rr_FQDN s = cd_ensureTrailingDot (trim_space (r_FQDN r))"
    "rr_Zone s = r_Zone r" "rr_Type s = r_Type r"
    using assms(2) by (rule rrset_group_from)
  with assms(1) have c: "record_clean r" by blast
  have f: "nl \<notin> set (quote_meta (rr_FQDN s))"
    unfolding r(2)
    by (intro quote_meta_no_newline cd_dot_no_newline) (use c set_trim_space in \<open>auto simp: record_clean_def\<close>)
  have z: "nl \<notin> set (trim_suffix (rr_Zone s) ''.'')"
    using c set_trim_suffix r(3) by (fastforce simp: record_clean_def)
  have t: "nl \<notin> set (rr_Type s)" using c r(4) by (simp add: record_clean_def)
  show ?thesis
    using assms(3) f z t quote_no_newline by (auto simp: template_lines_def)
qed

lemma record_clean_dedup:
  assumes "is_order ordR" and "\<forall>r \<in> set rs. record_clean r"
  shows "\<forall>r \<in> set (DeduplicateAndSort ordR rs). record_clean r"
  using assms DeduplicateAndSort_from [OF assms(1)] by (fastforce simp: record_clean_def)

lemma directive_stanza:
  assumes "directive_ok ordR d z" and "is_order ordR"
  shows "is_stanza z (directive_lines ordR d)"
proof (cases "zd_Raw d = []")
  case False
  with assms(1) show ?thesis by (simp add: directive_ok_def)
next
  case True
  with assms(1) have z: "zd_Zone d = z @ ''.''" "z \<noteq> []" "\<not> list_ex header_space z"
    and p: "if zd_Policy d = UnresolvedRecordPolicyForward then \<forall>r \<in> set (zd_Records d). record_clean r
           else nl \<notin> set (zd_DBFile d)"
    by (simp_all add: directive_ok_def)
  have nlz: "nl \<notin> set z" using z(3) by (auto simp: list_ex_iff header_space_def)
  let ?body = "[''    errors''] @ (if zd_Policy d = UnresolvedRecordPolicyForward then
              concat (map template_lines (groupTemplateRecords (DeduplicateAndSort ordR (zd_Records d))))
              @ [''    forward . /etc/resolv.conf'']
            else [''    file /etc/coredns/'' @ zd_DBFile d @ '' '' @ z]) @ [''    cache 30'']"
  have ls: "directive_lines ordR d = (z @ '':53 {'') # ?body @ [''}'']"
    using True z(1) by (simp add: directive_lines_def Let_def)
  have body: "nl \<notin> set l \<and> l \<noteq> ''}''" if "l \<in> set ?body" for l
    using that p nlz template_lines_no_newline [OF record_clean_dedup [OF assms(2)]]
    by (auto split: if_splits)
  have stanza: "is_stanza z ((z @ '':53 {'') # b @ [''}''])"
    if "\<And>l. l \<in> set b \<Longrightarrow> nl \<notin> set l \<and> l \<noteq> ''}''" for b
    unfolding is_stanza_def using that z nlz by (fastforce simp: zoneStanzaHeader_Some)
  show ?thesis unfolding ls by (rule stanza [OF body])
qed

section \<open>Reading back what was patched in\<close>

lemma extract_managed_fold:
  assumes "marker_free outside" and zs: "\<forall>(z, ls) \<in> set zs. is_stanza z ls"
    and inside: "inside = concat (map (\<lambda>(z, ls). [nl, nl] @ join [nl] ls) zs)"
    and "\<not> sublist ManagedBlockEnd inside"
  shows "ExtractZoneBlocks (managed_file outside inside) = foldl (\<lambda>m (z, ls). AList.update z (join [nl] ls) m) [] zs"
proof -
  have s: "\<not> sublist ManagedBlockStart outside" and e: "\<not> sublist ManagedBlockEnd outside"
    using assms(1) by (auto simp: marker_free_def)
  have "inside = [] \<or> hd inside = nl" unfolding inside by (cases zs) auto
  note E = end_in_managed_file [OF e inside_marker_free [OF this assms(4)]]
  let ?f = "managed_file outside inside"
  have "drop (length outside + 2 + length ManagedBlockStart)
      (take (length outside + 2 + length ManagedBlockStart + length inside + 1) ?f) = inside @ [nl]"
  proof -
    let ?a = "outside @ [nl, nl] @ ManagedBlockStart" and ?b = "ManagedBlockEnd @ [nl]"
    have "drop (length ?a) (take (length ?a + length (inside @ [nl])) (?a @ (inside @ [nl]) @ ?b)) = inside @ [nl]"
      by (simp only: take_append drop_append) simp
    then show ?thesis by (simp add: managed_file_def add.assoc)
  qed
  moreover have "split_on nl (inside @ [nl]) = [] # concat (map (\<lambda>(z, ls). [] # ls) zs) @ [[]]"
  proof -
    have "\<forall>l \<in> set (map snd zs). \<forall>k \<in> set l. nl \<notin> set k" "[] \<notin> set (map snd zs)"
      using zs by (fastforce simp: is_stanza_def)+
    from interior_lines [OF this] show ?thesis
      unfolding inside by (simp add: comp_def case_prod_unfold)
  qed
  moreover have "foldl extract_step ([], [], []) ([] # concat (map (\<lambda>(z, ls). [] # ls) zs) @ [[]])
      = ([], [], foldl (\<lambda>m (z, ls). AList.update z (join [nl] ls) m) [] zs)"
    by (simp add: extract_interior [OF zs])
  ultimately show ?thesis
    unfolding ExtractZoneBlocks_def start_in_managed_file [OF s] E by (simp add: Let_def)
qed

lemma extract_managed_file:
  assumes "marker_free outside" and "\<forall>(z, ls) \<in> set zs. is_stanza z ls" and "distinct (map fst zs)"
    and "inside = concat (map (\<lambda>(z, ls). [nl, nl] @ join [nl] ls) zs)"
    and "\<not> sublist ManagedBlockEnd inside"
  shows "map_of (ExtractZoneBlocks (managed_file outside inside)) z = map_option (join [nl]) (map_of zs z)"
  using extract_managed_fold [OF assms(1,2,4,5)] fold_update_distinct [OF assms(3), of "join [nl]" "[]" z]
  by (simp split: option.splits)

text \<open>The zone a directive is for, as \<^verbatim>\<open>ExtractZoneBlocks\<close> names it.\<close>

definition directive_zone :: "ZoneDirective \<Rightarrow> string" where
  "directive_zone d = trim_suffix (zd_Zone d) ''.''"

lemma patched_managed_file:
  assumes "PatchCorefile ordD ordR cf ds = Inr cf'"
  shows "cf' = managed_file (outside_block cf) (stanzas ordD ordR ds)"
proof -
  from assms obtain s where "removeManagedBlock cf = Inr s"
    by (cases "removeManagedBlock cf") (auto simp: PatchCorefile_managed_file)
  then show ?thesis using assms by (simp add: PatchCorefile_managed_file outside_block_def)
qed

lemma stanzas_lines:
  "stanzas ordD ordR ds = concat (map (\<lambda>(z, ls). [nl, nl] @ join [nl] ls)
     (map (\<lambda>d. (directive_zone d, directive_lines ordR d)) (sort_slice ordD zd_Zone ds)))"
  by (simp add: stanzas_def directive_text_lines [abs_def] comp_def)

lemma ExtractZoneBlocks_PatchCorefile:
  assumes "PatchCorefile ordD ordR cf ds = Inr cf'" and "is_order ordD" and "is_order ordR"
    and ok: "\<forall>d \<in> set ds. directive_ok ordR d (directive_zone d)"
    and dist: "distinct (map directive_zone ds)"
    and "marker_free (outside_block cf)" and "\<not> sublist ManagedBlockEnd (stanzas ordD ordR ds)"
  shows "d \<in> set ds \<Longrightarrow> map_of (ExtractZoneBlocks cf') (directive_zone d) = Some (join [nl] (directive_lines ordR d))"
    and "z \<notin> directive_zone ` set ds \<Longrightarrow> map_of (ExtractZoneBlocks cf') z = None"
proof -
  note cf' = patched_managed_file [OF assms(1)]
  let ?ss = "sort_slice ordD zd_Zone ds"
  let ?zs = "map (\<lambda>d. (directive_zone d, directive_lines ordR d)) ?ss"
  have zs: "\<forall>(z, ls) \<in> set ?zs. is_stanza z ls"
    using ok directive_stanza assms(2,3) by auto
  have "mset ?ss = mset ds" by (rule mset_sort_slice [OF assms(2)])
  then have "mset (map directive_zone ?ss) = mset (map directive_zone ds)" by simp
  with dist have d: "distinct (map fst ?zs)"
    using mset_eq_imp_distinct_iff [of "map directive_zone ?ss" "map directive_zone ds"]
    by (simp add: comp_def)
  note ex = extract_managed_file [OF assms(6) zs d stanzas_lines assms(7)]
  have get: "map_of ?zs z = (if z \<in> directive_zone ` set ds then map_of ?zs z else None)" for z
    using assms(2) by (auto simp: map_of_eq_None_iff)
  show "map_of (ExtractZoneBlocks cf') z = None" if "z \<notin> directive_zone ` set ds"
    unfolding cf' ex using get [of z] that by simp
  assume m: "d \<in> set ds"
  with assms(2) have "(directive_zone d, directive_lines ordR d) \<in> set ?zs" by auto
  from map_of_is_SomeI [OF d this]
  show "map_of (ExtractZoneBlocks cf') (directive_zone d) = Some (join [nl] (directive_lines ordR d))"
    unfolding cf' ex by simp
qed

text \<open>Holding an extracted stanza renders the same stanza again.\<close>

lemma is_stanza_text:
  assumes "is_stanza z ls"
  shows "join [nl] ls \<noteq> []" and "trim_right_char nl (join [nl] ls) = join [nl] ls"
    and "split_on nl (join [nl] ls) = ls"
proof -
  from assms obtain h body where ls: "ls = (h # body) @ [''}'']" by (auto simp: is_stanza_def)
  have "join [nl] ls = unlines (h # body) @ ''}''" unfolding ls by (rule join_unlines)
  then show "join [nl] ls \<noteq> []" "trim_right_char nl (join [nl] ls) = join [nl] ls"
    by (auto intro: trim_right_char_id)
  show "split_on nl (join [nl] ls) = ls"
    by (rule split_join) (use assms ls in \<open>auto simp: is_stanza_def\<close>)
qed

lemma hold_directive_text:
  assumes "is_stanza z (directive_lines ordR d)" and "zd_Raw h = join [nl] (directive_lines ordR d)"
  shows "directive_text ordR h = directive_text ordR d"
    and "directive_lines ordR h = directive_lines ordR d"
  using is_stanza_text [OF assms(1)]
  by (simp_all add: directive_text_lines directive_lines_def [of ordR h] assms(2))

section \<open>The block as an owned region\<close>

text \<open>A list of directives with the two unspecified orders it is rendered under.\<close>

type_synonym block_value = "ZoneDirective order \<times> Record order \<times> ZoneDirective list"

definition patch_block :: "string \<Rightarrow> block_value \<Rightarrow> string" where
  "patch_block cf v =
     (case v of (ordD, ordR, ds) \<Rightarrow>
        (case PatchCorefile ordD ordR cf ds of Inl _ \<Rightarrow> cf | Inr cf' \<Rightarrow> cf'))"

definition block_fit :: "string \<Rightarrow> bool" where
  "block_fit cf \<longleftrightarrow> markers_ok cf \<and> marker_free (outside_block cf)"

definition block_value_ok :: "block_value \<Rightarrow> bool" where
  "block_value_ok v \<longleftrightarrow>
     (case v of (ordD, ordR, ds) \<Rightarrow>
        is_order ordD \<and> is_order ordR
        \<and> (\<forall>d \<in> set ds. directive_ok ordR d (directive_zone d))
        \<and> distinct (map directive_zone ds)
        \<and> \<not> sublist ManagedBlockEnd (stanzas ordD ordR ds))"

text \<open>What is read back: the text of each directive under its zone.\<close>

definition block_view :: "block_value \<Rightarrow> string \<Rightarrow> string option" where
  "block_view v =
     (case v of (ordD, ordR, ds) \<Rightarrow>
        map_of (map (\<lambda>d. (directive_zone d, join [nl] (directive_lines ordR d))) ds))"

lemma block_view_mem:
  assumes "distinct (map directive_zone ds)" and "d \<in> set ds"
  shows "block_view (ordD, ordR, ds) (directive_zone d) = Some (join [nl] (directive_lines ordR d))"
  using assms by (auto simp: block_view_def comp_def intro!: map_of_is_SomeI)

lemma block_view_other: "z \<notin> directive_zone ` set ds \<Longrightarrow> block_view (ordD, ordR, ds) z = None"
  by (auto simp: block_view_def map_of_eq_None_iff)

lemma patched_fit:
  assumes "PatchCorefile ordD ordR cf ds = Inr cf'" and "marker_free (outside_block cf)"
    and "\<not> sublist ManagedBlockEnd (stanzas ordD ordR ds)"
  shows "block_fit cf'"
proof -
  note again = PatchCorefile_again [OF assms]
  have "markers_ok cf" using assms(1) PatchCorefile_error_iff [of ordD ordR cf ds] by auto
  then have "markers_ok cf'"
    using again(1) [of ordD ordR ds] PatchCorefile_error_iff [of ordD ordR cf' ds] assms(1) by auto
  with again(2) assms(2) show ?thesis by (simp add: block_fit_def)
qed

interpretation corefile_block:
  owned_region patch_block "\<lambda>cf. map_of (ExtractZoneBlocks cf)" outside_block block_view block_fit block_value_ok
proof
  fix cf v
  assume fit: "block_fit cf" and v: "block_value_ok v"
  obtain ordD ordR ds where split: "v = (ordD, ordR, ds)" by (cases v)
  have m: "marker_free (outside_block cf)" using fit by (simp add: block_fit_def)
  from fit obtain cf' where p: "PatchCorefile ordD ordR cf ds = Inr cf'"
    using PatchCorefile_error_iff [of ordD ordR cf ds]
    by (cases "PatchCorefile ordD ordR cf ds") (auto simp: block_fit_def)
  then have put: "patch_block cf v = cf'" by (simp add: patch_block_def split)
  from v have ok: "is_order ordD" "is_order ordR" "\<forall>d \<in> set ds. directive_ok ordR d (directive_zone d)"
    "distinct (map directive_zone ds)" "\<not> sublist ManagedBlockEnd (stanzas ordD ordR ds)"
    by (simp_all add: block_value_ok_def split)
  note again = PatchCorefile_again [OF p m ok(5)]
  show "block_fit (patch_block cf v)" unfolding put by (rule patched_fit [OF p m ok(5)])
  show "outside_block (patch_block cf v) = outside_block cf" unfolding put by (rule again(2))
  show "patch_block (patch_block cf v) v = patch_block cf v"
    using again(1) [of ordD ordR ds] p by (simp add: put) (simp add: patch_block_def split)
  note ex = ExtractZoneBlocks_PatchCorefile [OF p ok(1-4) m ok(5)]
  show "map_of (ExtractZoneBlocks (patch_block cf v)) = block_view v"
  proof
    fix z
    show "map_of (ExtractZoneBlocks (patch_block cf v)) z = block_view v z"
      unfolding put unfolding split
      using ex block_view_mem [OF ok(4)] block_view_other [of z ds]
      by (cases "z \<in> directive_zone ` set ds") auto
  qed
qed

end
