(* ===== verification/Coredns_ConfigMap.thy ===== *)
theory Coredns_ConfigMap
  imports Go_Strconv Regions
begin

text \<open>
  \<^verbatim>\<open>internal/coredns/configmap.go\<close>: the single-purpose operations on the CoreDNS ConfigMap.
  An operation that changes the object in place returns whether it changed it, and the
  object. Lemmas describe the data and the annotation after each operation by their
  lookups; what an operation reports as changed is exactly a change of these lookups.
\<close>

section \<open>Data\<close>

record ConfigMap =
  cm_Name :: string
  cm_Namespace :: string
  cm_Annotations :: "(string, string) gomap"
  cm_Data :: "(string, string) gomap"

definition ManagedZoneKeysAnnotation :: string where
  "ManagedZoneKeysAnnotation = ''dns.custlynotts.io/managed-zone-keys''"

definition corefileKey :: string where
  "corefileKey = ''Corefile''"

text \<open>\<^verbatim>\<open>m[k]\<close> on a map of strings: the empty string when the key is missing.\<close>

definition get_or_empty :: "(string, string) gomap \<Rightarrow> string \<Rightarrow> string" where
  "get_or_empty m k = (case map_of m k of None \<Rightarrow> [] | Some v \<Rightarrow> v)"

section \<open>Operations\<close>

definition set_file_step :: "bool \<times> (string, string) gomap \<Rightarrow> string \<times> string \<Rightarrow> bool \<times> (string, string) gomap" where
  "set_file_step st kc =
     (let (changed, data) = st; (key, content) = kc in
      if map_of data key \<noteq> Some content then (True, AList.update key content data)
      else (changed, data))"

definition SetZoneFiles :: "ConfigMap \<Rightarrow> (string, string) gomap \<Rightarrow> bool \<times> ConfigMap" where
  "SetZoneFiles cm zoneFiles =
     (let (changed, data) = foldl set_file_step (False, cm_Data cm) zoneFiles
      in (changed, cm\<lparr>cm_Data := data\<rparr>))"

definition SetCorefile :: "ConfigMap \<Rightarrow> string \<Rightarrow> bool \<times> ConfigMap" where
  "SetCorefile cm corefile =
     (if get_or_empty (cm_Data cm) corefileKey = corefile then (False, cm)
      else (True, cm\<lparr>cm_Data := AList.update corefileKey corefile (cm_Data cm)\<rparr>))"

definition remove_file_step :: "bool \<times> (string, string) gomap \<Rightarrow> string \<Rightarrow> bool \<times> (string, string) gomap" where
  "remove_file_step st key =
     (let (changed, data) = st in
      if map_of data key \<noteq> None then (True, AList.delete key data) else (changed, data))"

definition RemoveZoneFiles :: "ConfigMap \<Rightarrow> string list \<Rightarrow> bool \<times> ConfigMap" where
  "RemoveZoneFiles cm keys =
     (let (changed, data) = foldl remove_file_step (False, cm_Data cm) keys
      in (changed, cm\<lparr>cm_Data := data\<rparr>))"

definition SetManagedZoneKeys :: "ConfigMap \<Rightarrow> string list \<Rightarrow> bool \<times> ConfigMap" where
  "SetManagedZoneKeys cm keys =
     (let value = join '','' (sort keys) in
      if get_or_empty (cm_Annotations cm) ManagedZoneKeysAnnotation = value then (False, cm)
      else (True, cm\<lparr>cm_Annotations := AList.update ManagedZoneKeysAnnotation value (cm_Annotations cm)\<rparr>))"

definition ManagedZoneKeys :: "ConfigMap \<Rightarrow> string list" where
  "ManagedZoneKeys cm =
     (let raw = get_or_empty (cm_Annotations cm) ManagedZoneKeysAnnotation in
      if raw = [] then []
      else filter (\<lambda>key. key \<noteq> []) (map trim_space (split_on CHR '','' raw)))"

section \<open>The data after each operation\<close>

lemma set_files_fold:
  "distinct (map fst fs) \<Longrightarrow> foldl set_file_step (ch, d) fs = (ch', d') \<Longrightarrow>
     map_of d' = map_of d ++ map_of fs \<and> (ch' \<longleftrightarrow> ch \<or> (\<exists>(k, c) \<in> set fs. map_of d k \<noteq> Some c))"
proof (induction fs arbitrary: ch d)
  case Nil
  then show ?case by simp
next
  case (Cons f fs)
  obtain k c where f: "f = (k, c)" by force
  define ch1 d1 where "ch1 = fst (set_file_step (ch, d) f)" and "d1 = snd (set_file_step (ch, d) f)"
  have d1: "map_of d1 = (map_of d)(k \<mapsto> c)" and ch1: "ch1 \<longleftrightarrow> ch \<or> map_of d k \<noteq> Some c"
    by (auto simp: d1_def ch1_def f set_file_step_def fun_eq_iff)
  have IH: "map_of d' = map_of d1 ++ map_of fs \<and> (ch' \<longleftrightarrow> ch1 \<or> (\<exists>(k, c) \<in> set fs. map_of d1 k \<noteq> Some c))"
    by (rule Cons.IH) (use Cons.prems in \<open>simp_all add: ch1_def d1_def\<close>)
  have none: "map_of fs k = None" using Cons.prems(1) f by (simp add: map_of_eq_None_iff)
  have maps: "map_of d1 ++ map_of fs = map_of d ++ map_of (f # fs)"
  proof
    show "(map_of d1 ++ map_of fs) x = (map_of d ++ map_of (f # fs)) x" for x
      by (cases "x = k") (simp_all add: map_add_def d1 f none split: option.split)
  qed
  have same: "map_of d1 (fst p) = map_of d (fst p)" if "p \<in> set fs" for p
    using that Cons.prems(1) f d1 by force
  have "(\<exists>(k, c) \<in> set fs. map_of d1 k \<noteq> Some c) \<longleftrightarrow> (\<exists>(k, c) \<in> set fs. map_of d k \<noteq> Some c)"
    by (rule bex_cong [OF refl]) (use same in \<open>simp add: case_prod_beta\<close>)
  then have "ch' \<longleftrightarrow> ch \<or> (\<exists>(k, c) \<in> set (f # fs). map_of d k \<noteq> Some c)"
    using IH [THEN conjunct2] by (auto simp: ch1 f)
  moreover have "map_of d' = map_of d ++ map_of (f # fs)" using IH [THEN conjunct1] maps by (rule trans)
  ultimately show ?case by (rule conjI [rotated])
qed

lemma SetZoneFiles_data:
  assumes "distinct (map fst fs)"
  shows "map_of (cm_Data (snd (SetZoneFiles cm fs))) = map_of (cm_Data cm) ++ map_of fs"
    and "fst (SetZoneFiles cm fs) \<longleftrightarrow> (\<exists>(k, c) \<in> set fs. map_of (cm_Data cm) k \<noteq> Some c)"
proof -
  obtain ch' d' where st: "foldl set_file_step (False, cm_Data cm) fs = (ch', d')" by force
  from set_files_fold [OF assms st] show
    "map_of (cm_Data (snd (SetZoneFiles cm fs))) = map_of (cm_Data cm) ++ map_of fs"
    "fst (SetZoneFiles cm fs) \<longleftrightarrow> (\<exists>(k, c) \<in> set fs. map_of (cm_Data cm) k \<noteq> Some c)"
    by (simp_all add: SetZoneFiles_def st)
qed

lemma set_file_step_unchanged:
  "foldl set_file_step (ch, d) fs = (False, d') \<Longrightarrow> d' = d \<and> \<not> ch"
proof (induction fs arbitrary: ch d)
  case (Cons x fs)
  obtain ch1 d1 where st: "set_file_step (ch, d) x = (ch1, d1)" by force
  with Cons.prems have "foldl set_file_step (ch1, d1) fs = (False, d')" by simp
  with Cons.IH have "d' = d1 \<and> \<not> ch1" by blast
  with st show ?case by (auto simp: set_file_step_def Let_def split: if_splits prod.splits)
qed simp

lemma SetZoneFiles_unchanged: "\<not> fst (SetZoneFiles cm fs) \<Longrightarrow> snd (SetZoneFiles cm fs) = cm"
  by (cases "foldl set_file_step (False, cm_Data cm) fs")
     (auto simp: SetZoneFiles_def dest: set_file_step_unchanged)

lemma SetZoneFiles_frame [frame_simps]:
  "cm_Name (snd (SetZoneFiles cm fs)) = cm_Name cm"
  "cm_Namespace (snd (SetZoneFiles cm fs)) = cm_Namespace cm"
  "cm_Annotations (snd (SetZoneFiles cm fs)) = cm_Annotations cm"
  by (simp_all add: SetZoneFiles_def split: prod.splits)

lemma remove_files_fold:
  "foldl remove_file_step (ch, d) ks = (ch', d') \<Longrightarrow>
     map_of d' = (map_of d) |` (- set ks) \<and> (ch' \<longleftrightarrow> ch \<or> (\<exists>k \<in> set ks. map_of d k \<noteq> None))"
proof (induction ks arbitrary: ch d)
  case Nil
  then show ?case by simp
next
  case (Cons k ks)
  define ch1 d1 where "ch1 = fst (remove_file_step (ch, d) k)" and "d1 = snd (remove_file_step (ch, d) k)"
  have d1: "map_of d1 = (map_of d) |` (- {k})" and ch1: "ch1 \<longleftrightarrow> ch \<or> map_of d k \<noteq> None"
    by (auto simp: d1_def ch1_def remove_file_step_def fun_eq_iff restrict_map_def split: if_splits)
  have "map_of d' = (map_of d1) |` (- set ks) \<and> (ch' \<longleftrightarrow> ch1 \<or> (\<exists>k \<in> set ks. map_of d1 k \<noteq> None))"
    by (rule Cons.IH) (use Cons.prems in \<open>simp add: ch1_def d1_def\<close>)
  moreover have "(map_of d1) |` (- set ks) = (map_of d) |` (- set (k # ks))"
    by (auto simp: d1 restrict_map_def fun_eq_iff)
  ultimately show ?case using ch1 d1 by (auto simp: restrict_map_def split: if_splits)
qed

lemma RemoveZoneFiles_data:
  "map_of (cm_Data (snd (RemoveZoneFiles cm ks))) = (map_of (cm_Data cm)) |` (- set ks)"
  "fst (RemoveZoneFiles cm ks) \<longleftrightarrow> (\<exists>k \<in> set ks. map_of (cm_Data cm) k \<noteq> None)"
proof -
  obtain ch' d' where st: "foldl remove_file_step (False, cm_Data cm) ks = (ch', d')" by force
  from remove_files_fold [OF st] show
    "map_of (cm_Data (snd (RemoveZoneFiles cm ks))) = (map_of (cm_Data cm)) |` (- set ks)"
    "fst (RemoveZoneFiles cm ks) \<longleftrightarrow> (\<exists>k \<in> set ks. map_of (cm_Data cm) k \<noteq> None)"
    by (simp_all add: RemoveZoneFiles_def st)
qed

lemma remove_file_step_unchanged:
  "foldl remove_file_step (ch, d) ks = (False, d') \<Longrightarrow> d' = d \<and> \<not> ch"
proof (induction ks arbitrary: ch d)
  case (Cons x ks)
  obtain ch1 d1 where st: "remove_file_step (ch, d) x = (ch1, d1)" by force
  with Cons.prems have "foldl remove_file_step (ch1, d1) ks = (False, d')" by simp
  with Cons.IH have "d' = d1 \<and> \<not> ch1" by blast
  with st show ?case by (auto simp: remove_file_step_def Let_def split: if_splits prod.splits)
qed simp

lemma RemoveZoneFiles_unchanged: "\<not> fst (RemoveZoneFiles cm ks) \<Longrightarrow> snd (RemoveZoneFiles cm ks) = cm"
  by (cases "foldl remove_file_step (False, cm_Data cm) ks")
     (auto simp: RemoveZoneFiles_def dest: remove_file_step_unchanged)

lemma RemoveZoneFiles_frame [frame_simps]:
  "cm_Name (snd (RemoveZoneFiles cm ks)) = cm_Name cm"
  "cm_Namespace (snd (RemoveZoneFiles cm ks)) = cm_Namespace cm"
  "cm_Annotations (snd (RemoveZoneFiles cm ks)) = cm_Annotations cm"
  by (simp_all add: RemoveZoneFiles_def split: prod.splits)

lemma SetCorefile_data:
  "map_of (cm_Data (snd (SetCorefile cm cf))) =
     (if get_or_empty (cm_Data cm) corefileKey = cf then map_of (cm_Data cm)
      else (map_of (cm_Data cm))(corefileKey \<mapsto> cf))"
  "get_or_empty (cm_Data (snd (SetCorefile cm cf))) corefileKey = cf"
  by (auto simp: SetCorefile_def get_or_empty_def fun_eq_iff)

lemma SetCorefile_frame [frame_simps]:
  "cm_Name (snd (SetCorefile cm cf)) = cm_Name cm"
  "cm_Namespace (snd (SetCorefile cm cf)) = cm_Namespace cm"
  "cm_Annotations (snd (SetCorefile cm cf)) = cm_Annotations cm"
  by (simp_all add: SetCorefile_def)

lemma SetManagedZoneKeys_frame [frame_simps]:
  "cm_Name (snd (SetManagedZoneKeys cm ks)) = cm_Name cm"
  "cm_Namespace (snd (SetManagedZoneKeys cm ks)) = cm_Namespace cm"
  "cm_Data (snd (SetManagedZoneKeys cm ks)) = cm_Data cm"
  by (simp_all add: SetManagedZoneKeys_def Let_def)

section \<open>The annotation round trip\<close>

text \<open>Keys that survive the comma-separated list: not empty, no comma, no white space at the ends.\<close>

definition listable_key :: "string \<Rightarrow> bool" where
  "listable_key k \<longleftrightarrow> k \<noteq> [] \<and> CHR '','' \<notin> set k \<and> trim_space k = k"

lemma SetManagedZoneKeys_value:
  "get_or_empty (cm_Annotations (snd (SetManagedZoneKeys cm ks))) ManagedZoneKeysAnnotation = join '','' (sort ks)"
  by (simp add: SetManagedZoneKeys_def Let_def get_or_empty_def)

lemma join_empty_iff: "join sep ps = [] \<Longrightarrow> sep \<noteq> [] \<Longrightarrow> ps = [] \<or> ps = [[]]"
  by (cases "(sep, ps)" rule: join.cases) auto

lemma ManagedZoneKeys_SetManagedZoneKeys:
  assumes "\<forall>k \<in> set ks. listable_key k"
  shows "ManagedZoneKeys (snd (SetManagedZoneKeys cm ks)) = sort ks"
proof (cases "ks = []")
  case True
  then show ?thesis by (simp add: ManagedZoneKeys_def SetManagedZoneKeys_value)
next
  case False
  let ?raw = "join '','' (sort ks)"
  have ne: "sort ks \<noteq> []" using False by (metis length_0_conv length_sort)
  have split: "split_on CHR '','' ?raw = sort ks"
    by (rule split_join [OF ne]) (use assms in \<open>simp add: listable_key_def\<close>)
  have "map trim_space (sort ks) = sort ks"
    by (rule map_idI) (use assms in \<open>simp add: listable_key_def\<close>)
  moreover have "filter (\<lambda>key. key \<noteq> []) (sort ks) = sort ks"
    by (rule filter_True) (use assms in \<open>simp add: listable_key_def\<close>)
  moreover have "[] \<notin> set (sort ks)" using assms by (auto simp: listable_key_def)
  then have "?raw \<noteq> []"
    using join_empty_iff [of "'',''" "sort ks", OF _ list.distinct(2)] ne
    by (metis list.set_intros(1))
  ultimately show ?thesis
    by (simp add: ManagedZoneKeys_def SetManagedZoneKeys_value split)
qed

lemma SetManagedZoneKeys_idem:
  "snd (SetManagedZoneKeys (snd (SetManagedZoneKeys cm ks)) ks) = snd (SetManagedZoneKeys cm ks)"
  using SetManagedZoneKeys_value [of cm ks] by (subst SetManagedZoneKeys_def) (simp add: Let_def)

definition other_annotations :: "ConfigMap \<Rightarrow> (string \<Rightarrow> string option) \<times> (string, string) gomap \<times> string \<times> string" where
  "other_annotations cm =
     ((map_of (cm_Annotations cm)) (ManagedZoneKeysAnnotation := None), cm_Data cm, cm_Name cm, cm_Namespace cm)"

interpretation managed_keys:
  owned_region "\<lambda>cm ks. snd (SetManagedZoneKeys cm ks)" ManagedZoneKeys other_annotations sort
    "\<lambda>_. True" "\<lambda>ks. \<forall>k \<in> set ks. listable_key k"
proof
  fix cm :: ConfigMap and ks :: "string list"
  assume ks: "\<forall>k \<in> set ks. listable_key k"
  show "ManagedZoneKeys (snd (SetManagedZoneKeys cm ks)) = sort ks"
    by (rule ManagedZoneKeys_SetManagedZoneKeys [OF ks])
  show "other_annotations (snd (SetManagedZoneKeys cm ks)) = other_annotations cm"
    by (auto simp: other_annotations_def frame_simps) (auto simp: SetManagedZoneKeys_def Let_def fun_eq_iff)
  show "snd (SetManagedZoneKeys (snd (SetManagedZoneKeys cm ks)) ks) = snd (SetManagedZoneKeys cm ks)"
    by (rule SetManagedZoneKeys_idem)
qed simp

text \<open>What \<^verbatim>\<open>ManagedZoneKeys\<close> returns is always listable, whatever the annotation holds.\<close>

lemma ManagedZoneKeys_listable: "k \<in> set (ManagedZoneKeys cm) \<Longrightarrow> listable_key k"
proof -
  assume "k \<in> set (ManagedZoneKeys cm)"
  then obtain p where p: "p \<in> set (split_on CHR '','' (get_or_empty (cm_Annotations cm) ManagedZoneKeysAnnotation))"
    "k = trim_space p" "k \<noteq> []"
    by (auto simp: ManagedZoneKeys_def Let_def split: if_splits)
  from split_on_parts [OF p(1)] have "CHR '','' \<notin> set k" using set_trim_space [of p] p(2) by auto
  with p show ?thesis by (simp add: listable_key_def)
qed

end
