(* ===== verification/Coredns_Deployment.thy ===== *)
theory Coredns_Deployment
  imports Dns_Names
begin

text \<open>
  \<^verbatim>\<open>internal/coredns/deployment.go\<close>: the volume items of the CoreDNS Deployment and the
  restart stamp on its pod template. Lemmas give the exact set of mounted keys after
  \<^verbatim>\<open>EnsureZoneVolumeItems\<close>, and show that items the operator does not own stay.
\<close>

section \<open>Data\<close>

record KeyToPath =
  kp_Key :: string
  kp_Path :: string

record ConfigMapVolumeSource =
  cvs_Name :: string
  cvs_Items :: "KeyToPath list"

record Volume =
  v_Name :: string
  v_ConfigMap :: "ConfigMapVolumeSource option"

record Deployment =
  dp_Name :: string
  dp_Namespace :: string
  dp_Volumes :: "Volume list"
  dp_PodAnnotations :: "(string, string) gomap"

definition restartReasonAnnotation :: string where
  "restartReasonAnnotation = ''dns.custlynotts.io/restarted-for''"

definition restartHashAnnotation :: string where
  "restartHashAnnotation = ''dns.custlynotts.io/restart-hash''"

section \<open>Operations\<close>

fun contains :: "string list \<Rightarrow> string \<Rightarrow> bool" where
  "contains [] want = False"
| "contains (value # values) want = (if value = want then True else contains values want)"

lemma contains_iff [simp]: "contains vs want \<longleftrightarrow> want \<in> set vs"
  by (induction vs) auto

text \<open>What the loop does to the items of the volume that mounts the ConfigMap.\<close>

definition update_items ::
    "KeyToPath order \<Rightarrow> KeyToPath list \<Rightarrow> string list \<Rightarrow> string list \<Rightarrow> bool \<times> KeyToPath list" where
  "update_items ord items desiredKeys previouslyManaged =
     (let desired = sort desiredKeys;
          existing = set (map kp_Key items);
          added = map (\<lambda>key. \<lparr>kp_Key = key, kp_Path = key\<rparr>) (filter (\<lambda>key. key \<notin> existing) desired);
          stale = filter (\<lambda>key. \<not> contains desired key) previouslyManaged;
          items1 = items @ added;
          filtered = filter (\<lambda>item. kp_Key item \<notin> set stale) items1
      in (added \<noteq> [] \<or> filtered \<noteq> items1, sort_slice ord kp_Key filtered))"

fun ensure_volumes ::
    "KeyToPath order \<Rightarrow> string \<Rightarrow> string list \<Rightarrow> string list \<Rightarrow> Volume list \<Rightarrow> go_error + (bool \<times> Volume list)" where
  "ensure_volumes ord configMapName desiredKeys previouslyManaged [] =
     Inl (PlainError (''deployment does not mount ConfigMap '' @ quote configMapName))"
| "ensure_volumes ord configMapName desiredKeys previouslyManaged (v # vs) =
     (let continue = map_sum id (map_prod id ((#) v)) (ensure_volumes ord configMapName desiredKeys previouslyManaged vs) in
      case v_ConfigMap v of
        None \<Rightarrow> continue
      | Some src \<Rightarrow>
          if cvs_Name src \<noteq> configMapName then continue
          else if length (cvs_Items src) = 0 then Inr (False, v # vs)
          else
            (let (changed, items) = update_items ord (cvs_Items src) desiredKeys previouslyManaged
             in Inr (changed, v\<lparr>v_ConfigMap := Some (src\<lparr>cvs_Items := items\<rparr>)\<rparr> # vs)))"

definition EnsureZoneVolumeItems ::
    "KeyToPath order \<Rightarrow> Deployment \<Rightarrow> string \<Rightarrow> string list \<Rightarrow> string list \<Rightarrow> go_error + (bool \<times> Deployment)" where
  "EnsureZoneVolumeItems ord deployment configMapName desiredKeys previouslyManaged =
     map_sum id (map_prod id (\<lambda>vs. deployment\<lparr>dp_Volumes := vs\<rparr>))
       (ensure_volumes ord configMapName desiredKeys previouslyManaged (dp_Volumes deployment))"

definition MarkRolloutRestart :: "Deployment \<Rightarrow> string \<Rightarrow> string \<Rightarrow> Deployment" where
  "MarkRolloutRestart deployment reason value =
     deployment\<lparr>dp_PodAnnotations :=
       AList.update restartHashAnnotation value
         (AList.update restartReasonAnnotation reason (dp_PodAnnotations deployment))\<rparr>"

section \<open>The items of the volume\<close>

lemma update_items_set:
  assumes "is_order ord"
  shows "set (snd (update_items ord items desired prev)) =
      {i \<in> set items. kp_Key i \<notin> set prev - set desired}
      \<union> {\<lparr>kp_Key = k, kp_Path = k\<rparr> | k. k \<in> set desired - kp_Key ` set items}"
  using assms by (auto simp: update_items_def Let_def)

lemma update_items_keys:
  assumes "is_order ord"
  shows "kp_Key ` set (snd (update_items ord items desired prev))
      = (kp_Key ` set items \<union> set desired) - (set prev - set desired)"
proof -
  have K: "kp_Key ` {\<lparr>kp_Key = k, kp_Path = k\<rparr> | k. k \<in> K} = K" for K by force
  show ?thesis unfolding update_items_set [OF assms] image_Un K by auto
qed

lemma filter_neq: "filter P xs \<noteq> xs \<longleftrightarrow> (\<exists>x \<in> set xs. \<not> P x)"
  by (auto simp: filter_id_conv)

text \<open>The result says whether the set of keys changed.\<close>

lemma update_items_changed:
  "fst (update_items ord items desired prev) \<longleftrightarrow>
     kp_Key ` set items \<noteq> (kp_Key ` set items \<union> set desired) - (set prev - set desired)"
proof -
  let ?E = "kp_Key ` set items"
  have "fst (update_items ord items desired prev) \<longleftrightarrow>
      (\<exists>k \<in> set desired. k \<notin> ?E) \<or> (\<exists>i \<in> set items. kp_Key i \<in> set prev - set desired)"
    by (auto simp: update_items_def Let_def filter_neq filter_empty_conv)
  also have "\<dots> \<longleftrightarrow> ?E \<noteq> (?E \<union> set desired) - (set prev - set desired)" by auto
  finally show ?thesis .
qed

lemma update_items_unchanged:
  "\<not> fst (update_items ord items desired prev) \<Longrightarrow> snd (update_items ord items desired prev) = sort_slice ord kp_Key items"
  by (simp add: update_items_def Let_def)

lemma update_items_sorted: "sorted (map kp_Key (snd (update_items ord items desired prev)))"
  by (simp add: update_items_def Let_def)

section \<open>The Deployment\<close>

text \<open>The first volume that mounts the ConfigMap, as the loop finds it.\<close>

definition mounts :: "string \<Rightarrow> Volume \<Rightarrow> bool" where
  "mounts name v \<longleftrightarrow> (\<exists>src. v_ConfigMap v = Some src \<and> cvs_Name src = name)"

definition mounted_items :: "Deployment \<Rightarrow> string \<Rightarrow> KeyToPath list option" where
  "mounted_items d name =
     map_option (\<lambda>v. cvs_Items (the (v_ConfigMap v))) (find (mounts name) (dp_Volumes d))"

text \<open>The keys visible in the container: all of them when the volume lists no items.\<close>

definition mounted :: "Deployment \<Rightarrow> string \<Rightarrow> string \<Rightarrow> bool" where
  "mounted d name key \<longleftrightarrow>
     (case mounted_items d name of
        None \<Rightarrow> False
      | Some items \<Rightarrow> items = [] \<or> key \<in> kp_Key ` set items)"

lemma ensure_volumes_cases:
  "(case find (mounts name) vs of
      None \<Rightarrow> ensure_volumes ord name desired prev vs
        = Inl (PlainError (''deployment does not mount ConfigMap '' @ quote name))
    | Some v \<Rightarrow>
        (let items = cvs_Items (the (v_ConfigMap v)) in
         \<exists>vs'. ensure_volumes ord name desired prev vs =
             Inr (items \<noteq> [] \<and> fst (update_items ord items desired prev), vs')
           \<and> map_option (\<lambda>v. cvs_Items (the (v_ConfigMap v))) (find (mounts name) vs')
             = Some (if items = [] then [] else snd (update_items ord items desired prev))
           \<and> filter (\<lambda>v. \<not> mounts name v) vs' = filter (\<lambda>v. \<not> mounts name v) vs
           \<and> map v_Name vs' = map v_Name vs))"
proof (induction vs)
  case Nil
  then show ?case by simp
next
  case (Cons v vs)
  show ?case
  proof (cases "mounts name v")
    case True
    then obtain src where src: "v_ConfigMap v = Some src" "cvs_Name src = name" by (auto simp: mounts_def)
    have m: "mounts name (v\<lparr>v_ConfigMap := Some (src\<lparr>cvs_Items := is\<rparr>)\<rparr>)" for "is"
      using src(2) by (simp add: mounts_def)
    obtain ch its where u: "update_items ord (cvs_Items src) desired prev = (ch, its)" by force
    show ?thesis
      using True src m u by (cases "cvs_Items src = []") (simp_all add: Let_def)
  next
    case False
    then have step: "ensure_volumes ord name desired prev (v # vs) =
        map_sum id (map_prod id ((#) v)) (ensure_volumes ord name desired prev vs)"
      by (auto simp: mounts_def Let_def split: option.splits)
    show ?thesis
      using Cons.IH False unfolding step
      by (cases "find (mounts name) vs") (auto simp: Let_def)
  qed
qed

lemma EnsureZoneVolumeItems_cases:
  "(case mounted_items d name of
      None \<Rightarrow> EnsureZoneVolumeItems ord d name desired prev
        = Inl (PlainError (''deployment does not mount ConfigMap '' @ quote name))
    | Some items \<Rightarrow>
        (\<exists>d'. EnsureZoneVolumeItems ord d name desired prev =
             Inr (items \<noteq> [] \<and> fst (update_items ord items desired prev), d')
           \<and> mounted_items d' name = Some (if items = [] then [] else snd (update_items ord items desired prev))
           \<and> filter (\<lambda>v. \<not> mounts name v) (dp_Volumes d') = filter (\<lambda>v. \<not> mounts name v) (dp_Volumes d)
           \<and> map v_Name (dp_Volumes d') = map v_Name (dp_Volumes d)
           \<and> dp_Name d' = dp_Name d \<and> dp_Namespace d' = dp_Namespace d
           \<and> dp_PodAnnotations d' = dp_PodAnnotations d))"
proof (cases "find (mounts name) (dp_Volumes d)")
  case None
  with ensure_volumes_cases [where name = name and vs = "dp_Volumes d" and ord = ord and desired = desired and prev = prev] show ?thesis
    by (simp add: mounted_items_def EnsureZoneVolumeItems_def)
next
  case (Some v)
  with ensure_volumes_cases [where name = name and vs = "dp_Volumes d" and ord = ord and desired = desired and prev = prev] show ?thesis
    by (auto simp: mounted_items_def EnsureZoneVolumeItems_def Let_def)
qed

lemma EnsureZoneVolumeItems_error_iff:
  "(\<exists>e. EnsureZoneVolumeItems ord d name desired prev = Inl e) \<longleftrightarrow> mounted_items d name = None"
  using EnsureZoneVolumeItems_cases [where d = d and name = name and ord = ord and desired = desired and prev = prev] by (auto split: option.splits)

lemma EnsureZoneVolumeItems_Inr:
  assumes "EnsureZoneVolumeItems ord d name desired prev = Inr (ch, d')"
  obtains items where "mounted_items d name = Some items"
    and "ch \<longleftrightarrow> items \<noteq> [] \<and> fst (update_items ord items desired prev)"
    and "mounted_items d' name = Some (if items = [] then [] else snd (update_items ord items desired prev))"
    and "dp_Name d' = dp_Name d" and "dp_Namespace d' = dp_Namespace d"
    and "dp_PodAnnotations d' = dp_PodAnnotations d"
    and "filter (\<lambda>v. \<not> mounts name v) (dp_Volumes d') = filter (\<lambda>v. \<not> mounts name v) (dp_Volumes d)"
  using EnsureZoneVolumeItems_cases [where d = d and name = name and ord = ord and desired = desired and prev = prev] assms
  by (cases "mounted_items d name") auto

text \<open>Exactly which keys are mounted afterwards.\<close>

lemma mounted_after:
  assumes "EnsureZoneVolumeItems ord d name desired prev = Inr (ch, d')" and "is_order ord"
  shows "\<And>k. k \<in> set desired \<Longrightarrow> mounted d' name k"
    and "\<And>k. mounted d name k \<Longrightarrow> k \<notin> set prev - set desired \<Longrightarrow> mounted d' name k"
    and "\<And>k items. mounted_items d name = Some items \<Longrightarrow> items \<noteq> []
        \<Longrightarrow> kp_Key ` set (the (mounted_items d' name)) = (kp_Key ` set items \<union> set desired) - (set prev - set desired)"
proof -
  obtain items where it: "mounted_items d name = Some items"
    and it': "mounted_items d' name = Some (if items = [] then [] else snd (update_items ord items desired prev))"
    using EnsureZoneVolumeItems_Inr [OF assms(1)] by metis
  note keys = update_items_keys [OF assms(2), of items desired prev]
  show "k \<in> set desired \<Longrightarrow> mounted d' name k" for k
    using keys by (auto simp: mounted_def it')
  show "kp_Key ` set (the (mounted_items d' name)) = (kp_Key ` set items' \<union> set desired) - (set prev - set desired)"
    if "mounted_items d name = Some items'" "items' \<noteq> []" for items'
    using that it it' keys by simp
  show "mounted d' name k" if "mounted d name k" "k \<notin> set prev - set desired" for k
    using that keys by (auto simp: mounted_def it it' split: if_splits)
qed

text \<open>Mounted keys come from the volume or were asked for, as long as items remain.\<close>

lemma mounted_only:
  assumes "EnsureZoneVolumeItems ord d name desired prev = Inr (ch, d')" and "is_order ord"
    and "mounted_items d name = Some items" and "items \<noteq> []"
    and "\<exists>i \<in> set items. kp_Key i \<notin> set prev"
  shows "mounted d' name k \<longleftrightarrow> (mounted d name k \<or> k \<in> set desired) \<and> k \<notin> set prev - set desired"
proof -
  have it': "mounted_items d' name = Some (snd (update_items ord items desired prev))"
    using EnsureZoneVolumeItems_cases [where d = d and name = name and ord = ord and desired = desired and prev = prev]
      assms(1,3,4) by simp
  note keys = update_items_keys [OF assms(2), of items desired prev]
  obtain i where "i \<in> set items" "kp_Key i \<notin> set prev" using assms(5) by blast
  then have "kp_Key i \<in> kp_Key ` set (snd (update_items ord items desired prev))" unfolding keys by blast
  then have "mounted d' name k \<longleftrightarrow> k \<in> kp_Key ` set (snd (update_items ord items desired prev))"
    by (auto simp: mounted_def it')
  moreover have "mounted d name k \<longleftrightarrow> k \<in> kp_Key ` set items"
    using assms(4) by (simp add: mounted_def assms(3))
  ultimately show ?thesis unfolding keys by blast
qed

lemma MarkRolloutRestart_frame [frame_simps]:
  "dp_Volumes (MarkRolloutRestart d r v) = dp_Volumes d"
  "dp_Name (MarkRolloutRestart d r v) = dp_Name d"
  "dp_Namespace (MarkRolloutRestart d r v) = dp_Namespace d"
  by (simp_all add: MarkRolloutRestart_def)

lemma mounted_MarkRolloutRestart [frame_simps]:
  "mounted (MarkRolloutRestart d r v) name k = mounted d name k"
  "mounted_items (MarkRolloutRestart d r v) name = mounted_items d name"
  by (simp_all add: mounted_def mounted_items_def MarkRolloutRestart_def)

end
