(* ===== verification/Coredns_Properties.thy ===== *)
theory Coredns_Properties
  imports Coredns_Block Coredns_ConfigMap Coredns_Deployment
begin

text \<open>
  The properties of the package \<^verbatim>\<open>internal/coredns\<close>, each followed by an application at a
  concrete input where it has hypotheses.
\<close>

section \<open>Concrete inputs\<close>

definition sample_directive :: ZoneDirective where
  "sample_directive =
     \<lparr>zd_Zone = ''example.com.'', zd_DBFile = ''example-com-0.db'', zd_Policy = ''NXDOMAIN'',
      zd_Records = [], zd_Raw = []\<rparr>"

definition sample_corefile :: string where
  "sample_corefile = ''.:53 {'' @ [nl] @ ''    reload'' @ [nl] @ ''}'' @ [nl]"

definition sample_block :: block_value where
  "sample_block = (\<lambda>xs. xs, \<lambda>xs. xs, [sample_directive])"

definition sample_deployment :: Deployment where
  "sample_deployment =
     \<lparr>dp_Name = ''coredns'', dp_Namespace = ''kube-system'',
      dp_Volumes = [\<lparr>v_Name = ''config'', v_ConfigMap = Some \<lparr>cvs_Name = ''coredns'',
        cvs_Items = [\<lparr>kp_Key = ''Corefile'', kp_Path = ''Corefile''\<rparr>, \<lparr>kp_Key = ''old.db'', kp_Path = ''old.db''\<rparr>]\<rparr>\<rparr>],
      dp_PodAnnotations = []\<rparr>"

lemma sample_directive_ok: "directive_ok (\<lambda>xs. xs) sample_directive (directive_zone sample_directive)"
  by (simp add: directive_ok_def directive_zone_def sample_directive_def trim_suffix_def suffix_def
      header_space_def)

lemma sample_stanzas_safe: "\<not> sublist ManagedBlockEnd (stanzas (\<lambda>xs. xs) (\<lambda>xs. xs) [sample_directive])"
  by (simp add: stanzas_def sort_slice_def sample_directive_def directive_text_def ManagedBlockEnd_def
      sublist_Cons_right trim_suffix_def suffix_def)

lemma sample_block_ok: "block_value_ok sample_block"
  using sample_directive_ok sample_stanzas_safe by (simp add: block_value_ok_def sample_block_def)

lemma sample_corefile_unmarked: "\<not> sublist ManagedBlockStart sample_corefile" "\<not> sublist ManagedBlockEnd sample_corefile"
  by (simp_all add: sample_corefile_def ManagedBlockStart_def ManagedBlockEnd_def sublist_Cons_right)

lemma unmarked_fit: "\<not> sublist ManagedBlockStart cf \<Longrightarrow> \<not> sublist ManagedBlockEnd cf \<Longrightarrow> block_fit cf"
  using marker_free_trim [of cf]
  by (simp add: block_fit_def markers_ok_def outside_block_def removeManagedBlock_def marker_free_def
      flip: str_index_None)

lemma sample_fit: "block_fit sample_corefile"
  by (rule unmarked_fit [OF sample_corefile_unmarked])

section \<open>The Corefile\<close>

text \<open>The two markers cannot overlap.\<close>

lemma marker_gap:
  assumes "str_index ManagedBlockStart cf = Some i" and "str_index ManagedBlockEnd cf = Some j" and "i \<le> j"
  shows "i + length ManagedBlockStart \<le> j"
proof (rule ccontr)
  assume "\<not> i + length ManagedBlockStart \<le> j"
  then have k: "j - i < length ManagedBlockStart" using assms(3) by linarith
  have s: "cf = take i cf @ ManagedBlockStart @ drop (i + length ManagedBlockStart) cf"
    by (rule str_index_Some [OF assms(1)])
  have e: "cf = take j cf @ ManagedBlockEnd @ drop (j + length ManagedBlockEnd) cf"
    by (rule str_index_Some [OF assms(2)])
  have len: "i \<le> length cf" "j \<le> length cf" "j + length ManagedBlockEnd \<le> length cf"
    using str_index_Some_length [OF assms(1)] str_index_Some_length [OF assms(2)] by auto
  have at: "cf ! (i + m) = ManagedBlockStart ! m" if "m < length ManagedBlockStart" for m
    using that len by (subst s) (simp add: nth_append)
  have at': "cf ! (j + m) = ManagedBlockEnd ! m" if "m < length ManagedBlockEnd" for m
    using that len by (subst e) (simp add: nth_append)
  have hash: "ManagedBlockStart ! (j - i) = CHR 0x23"
    using at [OF k] at' [of 0] assms(3) by (simp add: ManagedBlockEnd_def)
  have "j - i = 0"
  proof (rule ccontr)
    assume "j - i \<noteq> 0"
    then obtain m where m: "j - i = Suc m" using not0_implies_Suc by blast
    have "hd ManagedBlockStart = CHR 0x23" by (simp add: ManagedBlockStart_def)
    moreover have "ManagedBlockStart ! Suc m \<in> set (tl ManagedBlockStart)"
      using k m by (metis Nitpick.size_list_simp(2) Suc_less_eq list.sel(2) markers_line(3) nth_mem nth_tl)
    ultimately show False using hash m markers_self_delimiting(1) by (simp add: self_delimiting_def)
  qed
  then have "j = i" using assms(3) by simp
  then show False
    using at [of 2] at' [of 2] by (simp add: ManagedBlockStart_def ManagedBlockEnd_def)
qed

text \<open>C26. PatchCorefile replaces nothing but the block between the markers: when it succeeds, the file
  had no marker, or was some text, the block and more text, and the result is that text
  (without its trailing line breaks), a blank line, and the rendered block. It fails exactly
  when one marker occurs without the other or the first end marker precedes the first
  start marker.\<close>
theorem PatchCorefile_outside:
  "(case PatchCorefile ordD ordR cf ds of
      Inr out \<Rightarrow>
        (\<exists>pre post. out = trim_right_char nl (pre @ post) @ [nl, nl] @ renderManagedBlock ordD ordR ds @ [nl]
           \<and> (if sublist ManagedBlockStart cf
              then (\<exists>inside. cf = pre @ ManagedBlockStart @ inside @ ManagedBlockEnd @ post)
              else cf = pre \<and> post = []))
    | Inl e \<Rightarrow> \<not> markers_ok cf)
   \<and> ((\<exists>e. PatchCorefile ordD ordR cf ds = Inl e) \<longleftrightarrow> \<not> markers_ok cf)"
proof (cases "markers_ok cf")
  case False
  then show ?thesis using PatchCorefile_error_iff [of ordD ordR cf ds] by (auto split: sum.splits)
next
  case ok: True
  let ?out = "\<lambda>s. trim_right_char nl s @ [nl, nl] @ renderManagedBlock ordD ordR ds @ [nl]"
  show ?thesis
  proof (cases "str_index ManagedBlockStart cf")
    case None
    with ok have "str_index ManagedBlockEnd cf = None" by (auto simp: markers_ok_def split: option.splits)
    with None have "PatchCorefile ordD ordR cf ds = Inr (?out cf)"
      by (simp add: PatchCorefile_def removeManagedBlock_def)
    moreover have "\<not> sublist ManagedBlockStart cf" using None by (simp add: str_index_None)
    ultimately show ?thesis using ok by (auto intro!: exI [of _ cf])
  next
    case (Some i)
    with ok obtain j where j: "str_index ManagedBlockEnd cf = Some j" "i \<le> j"
      by (auto simp: markers_ok_def split: option.splits)
    note gap = marker_gap [OF Some j]
    let ?pre = "take i cf" and ?post = "drop (j + length ManagedBlockEnd) cf"
    let ?inside = "drop (i + length ManagedBlockStart) (take j cf)"
    have "cf = take j cf @ ManagedBlockEnd @ ?post" by (rule str_index_Some [OF j(1)])
    moreover have "take j cf = ?pre @ ManagedBlockStart @ ?inside"
    proof -
      let ?rest = "drop (i + length ManagedBlockStart) cf"
      have i: "i \<le> length cf" using str_index_Some_length [OF Some] by simp
      have "take j cf = take j (?pre @ ManagedBlockStart @ ?rest)"
        by (rule arg_cong [OF str_index_Some [OF Some], of "take j"])
      also have "\<dots> = ?pre @ ManagedBlockStart @ take (j - i - length ManagedBlockStart) ?rest"
      proof -
        have "length ?pre = i" "i \<le> j" "take j ?pre = ?pre" using gap i by auto
        then show ?thesis using gap by (simp add: take_append)
      qed
      finally have "take j cf = ?pre @ ManagedBlockStart @ take (j - i - length ManagedBlockStart) ?rest" .
      moreover have "?inside = take (j - i - length ManagedBlockStart) ?rest"
        by (simp only: drop_take diff_diff_left)
      ultimately show ?thesis by metis
    qed
    ultimately have "cf = ?pre @ ManagedBlockStart @ ?inside @ ManagedBlockEnd @ ?post"
      by (metis append_assoc)
    moreover have "PatchCorefile ordD ordR cf ds = Inr (?out (?pre @ ?post))"
      using Some j by (simp add: PatchCorefile_def removeManagedBlock_def)
    ultimately obtain pre inside post where cf: "cf = pre @ ManagedBlockStart @ inside @ ManagedBlockEnd @ post"
      and P: "PatchCorefile ordD ordR cf ds = Inr (?out (pre @ post))" by blast
    have "sublist ManagedBlockStart cf" using Some str_index_None [of ManagedBlockStart cf] by simp
    moreover have "\<exists>pre' post'. ?out (pre @ post) = ?out (pre' @ post')
        \<and> (\<exists>inside. cf = pre' @ ManagedBlockStart @ inside @ ManagedBlockEnd @ post')"
      using cf by blast
    ultimately show ?thesis unfolding P using ok by simp
  qed
qed

text \<open>C27. After any number of patches of a Corefile, the stanza ExtractZoneBlocks finds for each zone
  is the one rendered for it by the last patch, there are no others, and everything outside
  the block is as it was before the first patch.\<close>
theorem ExtractZoneBlocks_after_patches:
  assumes "block_fit cf" and "list_all block_value_ok vs" and "vs \<noteq> []"
  shows "map_of (ExtractZoneBlocks (foldl patch_block cf vs)) = block_view (last vs)
    \<and> outside_block (foldl patch_block cf vs) = outside_block cf"
  using corefile_block.puts_get [OF assms] corefile_block.puts_rest [OF assms(1,2)] by simp

theorem ExtractZoneBlocks_after_patches_witness:
  "map_of (ExtractZoneBlocks (foldl patch_block sample_corefile [sample_block, sample_block])) ''example.com''
     = Some (''example.com:53 {'' @ [nl] @ ''    errors'' @ [nl]
         @ ''    file /etc/coredns/example-com-0.db example.com'' @ [nl] @ ''    cache 30'' @ [nl] @ ''}'')"
  using ExtractZoneBlocks_after_patches [OF sample_fit, of "[sample_block, sample_block]"] sample_block_ok
  by (simp add: block_view_def sample_block_def sample_directive_def directive_zone_def directive_lines_def
      trim_suffix_def suffix_def)

text \<open>Patching is idempotent, and a second patch overwrites the first: on a Corefile patched with
  directives whose text holds no end marker, patching with other directives gives what it
  gives on the original file.\<close>
theorem PatchCorefile_overwrites:
  assumes "PatchCorefile ordD ordR cf ds = Inr cf'" and "marker_free (outside_block cf)"
    and "\<not> sublist ManagedBlockEnd (stanzas ordD ordR ds)"
  shows "PatchCorefile ordD' ordR' cf' ds' = PatchCorefile ordD' ordR' cf ds'
    \<and> PatchCorefile ordD ordR cf' ds = Inr cf'"
  using PatchCorefile_again [OF assms] assms(1) by simp

theorem PatchCorefile_overwrites_witness:
  "\<exists>cf'. PatchCorefile (\<lambda>xs. xs) (\<lambda>xs. xs) sample_corefile [sample_directive] = Inr cf'
     \<and> PatchCorefile (\<lambda>xs. xs) (\<lambda>xs. xs) cf' [sample_directive] = Inr cf'"
proof -
  have "markers_ok sample_corefile" using sample_fit by (simp add: block_fit_def)
  then obtain cf' where "PatchCorefile (\<lambda>xs. xs) (\<lambda>xs. xs) sample_corefile [sample_directive] = Inr cf'"
    using PatchCorefile_error_iff by (metis sumE)
  moreover have "marker_free (outside_block sample_corefile)" using sample_fit by (simp add: block_fit_def)
  ultimately show ?thesis using PatchCorefile_overwrites sample_stanzas_safe by blast
qed

text \<open>C28. A zone that is held at its last known good output keeps its stanza byte for byte: a directive
  that carries an extracted stanza renders to the text it was extracted from.\<close>
theorem held_stanza_unchanged:
  assumes "PatchCorefile ordD ordR cf ds = Inr cf'" and "block_value_ok (ordD, ordR, ds)" and "block_fit cf"
    and "d \<in> set ds" and "map_of (ExtractZoneBlocks cf') (directive_zone d) = Some raw"
  shows "directive_text ordR' \<lparr>zd_Zone = zd_Zone d, zd_DBFile = [], zd_Policy = [], zd_Records = [], zd_Raw = raw\<rparr>
    = directive_text ordR d"
proof -
  from assms(2) have ok: "directive_ok ordR d (directive_zone d)" "is_order ordR" "distinct (map directive_zone ds)"
    using assms(4) by (auto simp: block_value_ok_def)
  have "patch_block cf (ordD, ordR, ds) = cf'" using assms(1) by (simp add: patch_block_def)
  then have "raw = join [nl] (directive_lines ordR d)"
    using corefile_block.put_get [OF assms(3,2)] block_view_mem [OF ok(3) assms(4)] assms(5) by simp
  note st = directive_stanza [OF ok(1,2)]
  with is_stanza_text [OF st] show ?thesis
    by (simp add: directive_text_lines directive_lines_def [of ordR'] \<open>raw = _\<close>)
qed

theorem held_stanza_unchanged_witness:
  "\<exists>raw. map_of (ExtractZoneBlocks (patch_block sample_corefile sample_block)) ''example.com'' = Some raw
     \<and> directive_text rev \<lparr>zd_Zone = ''example.com.'', zd_DBFile = [], zd_Policy = [], zd_Records = [], zd_Raw = raw\<rparr>
       = directive_text (\<lambda>xs. xs) sample_directive"
proof -
  have zone: "directive_zone sample_directive = ''example.com''"
    by (simp add: directive_zone_def sample_directive_def trim_suffix_def suffix_def)
  have "markers_ok sample_corefile" using sample_fit by (simp add: block_fit_def)
  then obtain cf' where p: "PatchCorefile (\<lambda>xs. xs) (\<lambda>xs. xs) sample_corefile [sample_directive] = Inr cf'"
    using PatchCorefile_error_iff by (metis sumE)
  then have cf': "patch_block sample_corefile sample_block = cf'" by (simp add: patch_block_def sample_block_def)
  have "map_of (ExtractZoneBlocks cf') (directive_zone sample_directive)
      = Some (join [nl] (directive_lines (\<lambda>xs. xs) sample_directive))"
    using corefile_block.put_get [OF sample_fit sample_block_ok] cf'
    by (simp add: sample_block_def block_view_def)
  note get = this
  have "zd_Zone sample_directive = ''example.com.''" by (simp add: sample_directive_def)
  with held_stanza_unchanged [OF p sample_block_ok [unfolded sample_block_def] sample_fit _ get, of rev]
  show ?thesis using get unfolding cf' zone by (intro exI conjI) auto
qed

text \<open>C38. Records of one name and type become one template stanza: groupTemplateRecords gives one RRset
  for each name and type that occurs, sorted, with the zone of the first record, the
  values of all of them made unique, and the lowest of their TTLs.\<close>
theorem groupTemplateRecords_rrsets:
  "map (\<lambda>s. rr_FQDN s @ ''|'' @ rr_Type s) (groupTemplateRecords rs) = sort (remdups (map rrset_key rs))
   \<and> (\<forall>s \<in> set (groupTemplateRecords rs).
        let group = filter (\<lambda>r. rrset_key r = rr_FQDN s @ ''|'' @ rr_Type s) rs in
        rr_Values s = uniqueSortedValues (concat (map r_Values group))
        \<and> rr_Zone s = r_Zone (hd group)
        \<and> sint (rr_TTL s) = Min ((sint \<circ> r_TTL) ` set group))"
proof -
  let ?g = "\<lambda>k. filter (\<lambda>r. rrset_key r = k) rs"
  let ?set = "\<lambda>k. let s = rrset_of (?g k) in s\<lparr>rr_Values := uniqueSortedValues (rr_Values s)\<rparr>"
  let ?ks = "sort (remdups (map rrset_key rs))"
  have ne: "?g k \<noteq> []" if "k \<in> set ?ks" for k using that by (auto simp: filter_empty_conv)
  have key: "rr_FQDN (?set k) @ ''|'' @ rr_Type (?set k) = k" if "k \<in> set ?ks" for k
  proof -
    have "hd (?g k) \<in> set (?g k)" by (rule hd_in_set [OF ne [OF that]])
    then have "rrset_key (hd (?g k)) = k" by (simp only: set_filter mem_Collect_eq)
    then show ?thesis by (simp add: rrset_of_def rrset_key_def Let_def)
  qed
  have G: "groupTemplateRecords rs = map ?set ?ks" by (rule groupTemplateRecords_spec)
  have "map (\<lambda>s. rr_FQDN s @ ''|'' @ rr_Type s) (groupTemplateRecords rs) = ?ks"
    unfolding G map_map comp_def by (rule map_idI) (rule key)
  moreover have "let group = ?g (rr_FQDN s @ ''|'' @ rr_Type s) in
        rr_Values s = uniqueSortedValues (concat (map r_Values group))
        \<and> rr_Zone s = r_Zone (hd group)
        \<and> sint (rr_TTL s) = Min ((sint \<circ> r_TTL) ` set group)"
    if s: "s \<in> set (groupTemplateRecords rs)" for s
  proof -
    from s obtain k where k: "k \<in> set ?ks" "s = ?set k" unfolding G by auto
    have "rr_FQDN s @ ''|'' @ rr_Type s = k" unfolding k(2) by (rule key [OF k(1)])
    then show ?thesis
      using rrset_of_ttl [OF ne [OF k(1)]] unfolding k(2) by (simp add: Let_def) (simp add: rrset_of_def)
  qed
  ultimately show ?thesis by blast
qed

definition sample_answer :: "int32 \<Rightarrow> string \<Rightarrow> Record" where
  "sample_answer ttl v =
     \<lparr>r_Zone = ''example.com.'', r_Name = ''www'', r_FQDN = ''www.example.com.'', r_Type = ''A'', r_TTL = ttl,
      r_Values = [v], r_Source = \<lparr>src_Kind = ''PrivateDNSRecord'', src_Namespace = ''ns'', src_Name = ''r''\<rparr>\<rparr>"

theorem groupTemplateRecords_rrsets_witness:
  "\<exists>s. groupTemplateRecords [sample_answer 300 ''10.0.0.1'', sample_answer 60 ''10.0.0.2''] = [s]
     \<and> sint (rr_TTL s) = 60 \<and> rr_Zone s = ''example.com.''"
proof -
  let ?rs = "[sample_answer 300 ''10.0.0.1'', sample_answer 60 ''10.0.0.2'']"
  note G = groupTemplateRecords_rrsets [of ?rs]
  have key: "rrset_key (sample_answer ttl v) = ''www.example.com.|A''" for ttl v
    by (simp add: rrset_key_def sample_answer_def) code_simp
  then have "map (\<lambda>s. rr_FQDN s @ ''|'' @ rr_Type s) (groupTemplateRecords ?rs) = [''www.example.com.|A'']"
    using G by simp
  then obtain s where s: "groupTemplateRecords ?rs = [s]" and k: "rr_FQDN s @ ''|'' @ rr_Type s = ''www.example.com.|A''"
    by (auto simp: map_eq_Cons_conv)
  have "filter (\<lambda>r. rrset_key r = rr_FQDN s @ ''|'' @ rr_Type s) ?rs = ?rs" unfolding k using key by simp
  with G s have "sint (rr_TTL s) = Min ((sint \<circ> r_TTL) ` set ?rs)" "rr_Zone s = r_Zone (hd ?rs)"
    by (simp_all add: Let_def)
  then show ?thesis using s by (simp add: sample_answer_def)
qed

text \<open>The template plugin and the zone file publish the same data: the two renderings of a value
  agree for every record type, and so do the two deduplications of values.\<close>
theorem template_and_zone_file_agree:
  "templateValue t v = renderValue t v \<and> uniqueSortedValues vs = uniqueSorted vs"
  by (simp add: templateValue_eq uniqueSortedValues_eq)

section \<open>The ConfigMap\<close>

text \<open>The annotation is a faithful record of the managed keys: after any number of writes,
  ManagedZoneKeys returns the keys of the last write, sorted, and the writes change nothing
  else in the ConfigMap.\<close>
theorem ManagedZoneKeys_after_writes:
  assumes "list_all (\<lambda>ks. \<forall>k \<in> set ks. listable_key k) kss" and "kss \<noteq> []"
  shows "ManagedZoneKeys (foldl (\<lambda>cm ks. snd (SetManagedZoneKeys cm ks)) cm kss) = sort (last kss)
    \<and> other_annotations (foldl (\<lambda>cm ks. snd (SetManagedZoneKeys cm ks)) cm kss) = other_annotations cm"
  using managed_keys.puts_get [OF TrueI assms] managed_keys.puts_rest [OF TrueI assms(1)] by simp

theorem ManagedZoneKeys_after_writes_witness:
  "ManagedZoneKeys (foldl (\<lambda>cm ks. snd (SetManagedZoneKeys cm ks))
      \<lparr>cm_Name = ''coredns'', cm_Namespace = ''kube-system'', cm_Annotations = [], cm_Data = []\<rparr>
      [[''a.db''], [''c.db'', ''b.db'']]) = [''b.db'', ''c.db'']"
proof -
  have "listable_key ''a.db'' \<and> listable_key ''b.db'' \<and> listable_key ''c.db''"
    by (simp add: listable_key_def trim_space_all_graphic graphic_def)
  then show ?thesis
    using ManagedZoneKeys_after_writes [of "[[''a.db''], [''c.db'', ''b.db'']]"] by simp
qed

text \<open>Writing and removing zone files changes exactly the named keys, and each operation reports a
  change exactly when a lookup changed.\<close>
theorem zone_files_exact:
  assumes "distinct (map fst files)"
  shows "map_of (cm_Data (snd (SetZoneFiles cm files))) = map_of (cm_Data cm) ++ map_of files
    \<and> (fst (SetZoneFiles cm files) \<longleftrightarrow> map_of (cm_Data (snd (SetZoneFiles cm files))) \<noteq> map_of (cm_Data cm))
    \<and> map_of (cm_Data (snd (RemoveZoneFiles cm keys))) = (map_of (cm_Data cm)) |` (- set keys)
    \<and> (fst (RemoveZoneFiles cm keys) \<longleftrightarrow> map_of (cm_Data (snd (RemoveZoneFiles cm keys))) \<noteq> map_of (cm_Data cm))"
proof -
  let ?m = "map_of (cm_Data cm)"
  have "fst (SetZoneFiles cm files) \<longleftrightarrow> ?m ++ map_of files \<noteq> ?m"
  proof
    assume "fst (SetZoneFiles cm files)"
    then obtain k c where "(k, c) \<in> set files" "?m k \<noteq> Some c"
      using SetZoneFiles_data(2) [OF assms, of cm] by auto
    then have "(?m ++ map_of files) k \<noteq> ?m k"
      using map_of_is_SomeI [OF assms] by (simp add: map_add_def)
    then show "?m ++ map_of files \<noteq> ?m" by metis
  next
    assume "?m ++ map_of files \<noteq> ?m"
    then have "snd (SetZoneFiles cm files) \<noteq> cm" using SetZoneFiles_data(1) [OF assms, of cm] by metis
    then show "fst (SetZoneFiles cm files)" using SetZoneFiles_unchanged by blast
  qed
  moreover have "fst (RemoveZoneFiles cm keys) \<longleftrightarrow> ?m |` (- set keys) \<noteq> ?m"
  proof
    assume "fst (RemoveZoneFiles cm keys)"
    then obtain k where "k \<in> set keys" "?m k \<noteq> None" using RemoveZoneFiles_data(2) [of cm keys] by auto
    then have "(?m |` (- set keys)) k \<noteq> ?m k" by (auto simp: restrict_map_def)
    then show "?m |` (- set keys) \<noteq> ?m" by metis
  next
    assume "?m |` (- set keys) \<noteq> ?m"
    then have "snd (RemoveZoneFiles cm keys) \<noteq> cm" using RemoveZoneFiles_data(1) [of cm keys] by metis
    then show "fst (RemoveZoneFiles cm keys)" using RemoveZoneFiles_unchanged by blast
  qed
  ultimately show ?thesis
    using SetZoneFiles_data(1) [OF assms, of cm] RemoveZoneFiles_data(1) [of cm keys] by simp
qed

theorem zone_files_exact_witness:
  "fst (SetZoneFiles \<lparr>cm_Name = [], cm_Namespace = [], cm_Annotations = [], cm_Data = [(''b.db'', ''2'')]\<rparr> [(''a.db'', ''1'')])
     \<longleftrightarrow> map_of (cm_Data (snd (SetZoneFiles \<lparr>cm_Name = [], cm_Namespace = [], cm_Annotations = [],
            cm_Data = [(''b.db'', ''2'')]\<rparr> [(''a.db'', ''1'')])))
          \<noteq> map_of [(''b.db'', ''2'')]"
  using zone_files_exact [of "[(''a.db'', ''1'')]" "\<lparr>cm_Name = [], cm_Namespace = [], cm_Annotations = [], cm_Data = [(''b.db'', ''2'')]\<rparr>"]
  by simp

section \<open>The Deployment\<close>

text \<open>C39. EnsureZoneVolumeItems fails exactly when no volume mounts the ConfigMap; otherwise, on a volume
  with explicit items, the mounted keys become the old ones and the desired ones without
  those that were managed and are no longer desired, it reports a change exactly when that
  set changed, and every volume that does not mount the ConfigMap is kept.\<close>
theorem EnsureZoneVolumeItems_exact:
  assumes "is_order ord"
  shows "(case EnsureZoneVolumeItems ord d name desired prev of
      Inl e \<Rightarrow> mounted_items d name = None
    | Inr (changed, d') \<Rightarrow>
        (\<exists>items. mounted_items d name = Some items
           \<and> filter (\<lambda>v. \<not> mounts name v) (dp_Volumes d') = filter (\<lambda>v. \<not> mounts name v) (dp_Volumes d)
           \<and> dp_PodAnnotations d' = dp_PodAnnotations d
           \<and> (if items = [] then mounted_items d' name = Some [] \<and> \<not> changed
              else kp_Key ` set (the (mounted_items d' name))
                     = (kp_Key ` set items \<union> set desired) - (set prev - set desired)
                   \<and> (changed \<longleftrightarrow> kp_Key ` set (the (mounted_items d' name)) \<noteq> kp_Key ` set items))))"
proof (cases "mounted_items d name")
  case None
  then show ?thesis
    using EnsureZoneVolumeItems_cases [where d = d and name = name and ord = ord and desired = desired and prev = prev]
    by simp
next
  case (Some items)
  then obtain d' where E: "EnsureZoneVolumeItems ord d name desired prev =
        Inr (items \<noteq> [] \<and> fst (update_items ord items desired prev), d')"
    and it: "mounted_items d' name = Some (if items = [] then [] else snd (update_items ord items desired prev))"
    and frame: "filter (\<lambda>v. \<not> mounts name v) (dp_Volumes d') = filter (\<lambda>v. \<not> mounts name v) (dp_Volumes d)"
      "dp_PodAnnotations d' = dp_PodAnnotations d"
    using EnsureZoneVolumeItems_cases [where d = d and name = name and ord = ord and desired = desired and prev = prev]
    by auto
  show ?thesis
    unfolding E using Some it frame update_items_keys [OF assms, of items desired prev]
      update_items_changed [of ord items desired prev]
    by (cases "items = []") auto
qed

theorem EnsureZoneVolumeItems_exact_witness:
  "\<exists>d'. EnsureZoneVolumeItems rev sample_deployment ''coredns'' [''new.db''] [''old.db''] = Inr (True, d')
     \<and> ''new.db'' \<in> kp_Key ` set (the (mounted_items d' ''coredns''))
     \<and> ''old.db'' \<notin> kp_Key ` set (the (mounted_items d' ''coredns''))"
proof -
  obtain its where it: "mounted_items sample_deployment ''coredns'' = Some its"
    and its: "its \<noteq> []" "kp_Key ` set its = {''Corefile'', ''old.db''}"
    by (simp add: mounted_items_def mounts_def sample_deployment_def)
  note E = EnsureZoneVolumeItems_exact [OF is_order_rev, of sample_deployment "''coredns''" "[''new.db'']" "[''old.db'']"]
  show ?thesis
  proof (cases "EnsureZoneVolumeItems rev sample_deployment ''coredns'' [''new.db''] [''old.db'']")
    case (Inl e)
    then show ?thesis using E it by simp
  next
    case (Inr p)
    obtain ch d' where p: "p = (ch, d')" by force
    let ?keys = "kp_Key ` set (the (mounted_items d' ''coredns''))"
    have keys: "?keys = (kp_Key ` set its \<union> set [''new.db'']) - (set [''old.db''] - set [''new.db''])"
      and ch: "ch \<longleftrightarrow> ?keys \<noteq> kp_Key ` set its"
      using E [unfolded Inr p it] its(1) by simp_all
    have new: "''new.db'' \<in> ?keys" and old: "''old.db'' \<notin> ?keys" unfolding keys by simp_all
    have "''new.db'' \<notin> kp_Key ` set its" unfolding its(2) by simp
    with new ch have "ch" by metis
    then show ?thesis using new old unfolding Inr p by blast
  qed
qed

end
