(* ===== verification/Kube_Api.thy ===== *)
theory Kube_Api
  imports Dns_Render Coredns_ConfigMap Coredns_Deployment
begin

text \<open>
  The Kubernetes API as the controller sees it. The client of \<^verbatim>\<open>controller-runtime\<close> is a
  parameter of the model: a record of the calls the code makes, each from a state of the
  cluster to a result and the next state. What the code relies on is stated by
  \<open>lawful_store\<close>, on the history of the two CoreDNS objects: a read returns what is stored;
  a write that succeeds stores the object it was given; a write that returns an error has
  either stored it or not. No other client writes these two objects; other
  writers are the subject of \<^verbatim>\<open>Shared_Store\<close>. A client with an arbitrary schedule of failures
  satisfies it (\<open>sim_client\<close>).
\<close>

section \<open>Errors\<close>

text \<open>An error of the API; \<open>api_IsNotFound\<close> is \<^verbatim>\<open>apierrors.IsNotFound\<close>.\<close>

datatype api_error = ApiNotFound string | ApiFailure string

fun api_IsNotFound :: "api_error \<Rightarrow> bool" where
  "api_IsNotFound (ApiNotFound m) = True"
| "api_IsNotFound (ApiFailure m) = False"

fun api_Error :: "api_error \<Rightarrow> string" where
  "api_Error (ApiNotFound m) = m"
| "api_Error (ApiFailure m) = m"

datatype ctrl_error = ApiError api_error | GoError go_error

section \<open>The client\<close>

record 'w client =
  list_zones :: "'w \<Rightarrow> (api_error + PrivateDNSZone list) \<times> 'w"
  list_records :: "'w \<Rightarrow> (api_error + PrivateDNSRecord list) \<times> 'w"
  get_configmap :: "string \<Rightarrow> string \<Rightarrow> 'w \<Rightarrow> (api_error + ConfigMap) \<times> 'w"
  get_deployment :: "string \<Rightarrow> string \<Rightarrow> 'w \<Rightarrow> (api_error + Deployment) \<times> 'w"
  update_zone :: "PrivateDNSZone \<Rightarrow> 'w \<Rightarrow> (api_error + PrivateDNSZone) \<times> 'w"
  update_configmap :: "ConfigMap \<Rightarrow> 'w \<Rightarrow> (api_error + ConfigMap) \<times> 'w"
  update_deployment :: "Deployment \<Rightarrow> 'w \<Rightarrow> (api_error + Deployment) \<times> 'w"
  patch_zone_status :: "PrivateDNSZone \<Rightarrow> 'w \<Rightarrow> (api_error + PrivateDNSZone) \<times> 'w"
  patch_record_status :: "PrivateDNSRecord \<Rightarrow> 'w \<Rightarrow> (api_error + PrivateDNSRecord) \<times> 'w"

record 'w PrivateDNSZoneReconciler =
  Client :: "'w client"
  CoreDNSNamespace :: string
  CoreDNSConfigMap :: string
  CoreDNSDeployment :: string

section \<open>What the code relies on\<close>

text \<open>The history of the CoreDNS objects, newest state first.\<close>

type_synonym coredns_state = "ConfigMap \<times> Deployment"

definition stored :: "bool \<Rightarrow> 's list \<Rightarrow> 's \<Rightarrow> 's list \<Rightarrow> bool" where
  "stored ok h s h' \<longleftrightarrow> h' = s # h \<or> (\<not> ok \<and> h' = h)"

text \<open>Calls that leave the CoreDNS objects alone, that read one of them, and that write one.\<close>

definition carries :: "('h \<Rightarrow> 'h \<Rightarrow> bool) \<Rightarrow> ('w \<Rightarrow> 'h) \<Rightarrow> ('w \<Rightarrow> 'r \<times> 'w) \<Rightarrow> bool" where
  "carries Q states f \<longleftrightarrow> (\<forall>w. Q (states w) (states (snd (f w))))"

definition quiet :: "('w \<Rightarrow> 's list) \<Rightarrow> ('w \<Rightarrow> 'r \<times> 'w) \<Rightarrow> bool" where
  "quiet states f \<longleftrightarrow> (\<forall>w. states (snd (f w)) = states w)"

definition reads :: "('w \<Rightarrow> 's list) \<Rightarrow> ('s \<Rightarrow> 'a) \<Rightarrow> ('w \<Rightarrow> ('e + 'a) \<times> 'w) \<Rightarrow> bool" where
  "reads states part f \<longleftrightarrow>
     quiet states f \<and> (\<forall>w x. fst (f w) = Inr x \<longrightarrow> x = part (hd (states w)))"

definition writes :: "('w \<Rightarrow> 's list) \<Rightarrow> ('a \<Rightarrow> 's \<Rightarrow> 's) \<Rightarrow> ('a \<Rightarrow> 'w \<Rightarrow> ('e + 'a) \<times> 'w) \<Rightarrow> bool" where
  "writes states put f \<longleftrightarrow>
     (\<forall>x w. stored (\<not> isl (fst (f x w))) (states w) (put x (hd (states w))) (states (snd (f x w)))
        \<and> (\<forall>y. fst (f x w) = Inr y \<longrightarrow> y = x))"

definition lawful_store :: "'w client \<Rightarrow> ('w \<Rightarrow> coredns_state list) \<Rightarrow> bool" where
  "lawful_store c states \<longleftrightarrow>
     (\<forall>w. states w \<noteq> [])
     \<and> (\<forall>ns n. reads states fst (get_configmap c ns n))
     \<and> (\<forall>ns n. reads states snd (get_deployment c ns n))
     \<and> writes states (\<lambda>cm s. (cm, snd s)) (update_configmap c)
     \<and> writes states (\<lambda>d s. (fst s, d)) (update_deployment c)
     \<and> quiet states (list_zones c) \<and> quiet states (list_records c)
     \<and> (\<forall>z. quiet states (update_zone c z))
     \<and> (\<forall>z. quiet states (patch_zone_status c z))
     \<and> (\<forall>r. quiet states (patch_record_status c r))"

lemma carriesD: "carries Q states f \<Longrightarrow> f w = (r, w') \<Longrightarrow> Q (states w) (states w')"
  by (metis carries_def snd_conv)

text \<open>The calls that concern zones and records only.\<close>

definition carries_status :: "('h \<Rightarrow> 'h \<Rightarrow> bool) \<Rightarrow> ('w \<Rightarrow> 'h) \<Rightarrow> 'w client \<Rightarrow> bool" where
  "carries_status Q states c \<longleftrightarrow>
     (\<forall>h. Q h h) \<and> (\<forall>h h' h''. Q h h' \<longrightarrow> Q h' h'' \<longrightarrow> Q h h'')
     \<and> (\<forall>z. carries Q states (update_zone c z)) \<and> (\<forall>z. carries Q states (patch_zone_status c z))
     \<and> (\<forall>r. carries Q states (patch_record_status c r))"

lemma carries_statusD:
  assumes "carries_status Q states c"
  shows "Q h h" and "Q h h' \<Longrightarrow> Q h' h'' \<Longrightarrow> Q h h''"
    and "update_zone c z w = (zr, w') \<Longrightarrow> Q (states w) (states w')"
    and "patch_zone_status c z w = (zr, w') \<Longrightarrow> Q (states w) (states w')"
    and "patch_record_status c e w = (er, w') \<Longrightarrow> Q (states w) (states w')"
  using assms carriesD unfolding carries_status_def by metis+

lemma quietD: "quiet states f \<Longrightarrow> f w = (r, w') \<Longrightarrow> states w' = states w"
  by (metis quiet_def snd_conv)

lemma readsD: "reads states part f \<Longrightarrow> f w = (Inr x, w') \<Longrightarrow> states w' = states w \<and> x = part (hd (states w))"
  by (metis fst_conv quietD reads_def)

lemma writesD:
  "writes states put f \<Longrightarrow> f x w = (r, w') \<Longrightarrow>
     stored (\<not> isl r) (states w) (put x (hd (states w))) (states w') \<and> (\<forall>y. r = Inr y \<longrightarrow> y = x)"
  unfolding writes_def by (metis fst_conv snd_conv)

lemma lawful_storeD:
  assumes "lawful_store c states"
  shows "states w \<noteq> []"
    and "reads states fst (get_configmap c ns n)"
    and "reads states snd (get_deployment c ns n)"
    and "writes states (\<lambda>cm s. (cm, snd s)) (update_configmap c)"
    and "writes states (\<lambda>d s. (fst s, d)) (update_deployment c)"
    and "quiet states (get_configmap c ns n)" and "quiet states (get_deployment c ns n)"
    and "quiet states (list_zones c)" and "quiet states (list_records c)"
    and "quiet states (update_zone c z)" and "quiet states (patch_zone_status c z)"
    and "quiet states (patch_record_status c r)"
  using assms unfolding lawful_store_def by (auto simp: reads_def)

lemma lawful_carries: "lawful_store c states \<Longrightarrow> carries_status (\<lambda>h h'. h' = h) states c"
  unfolding lawful_store_def carries_status_def carries_def quiet_def by simp

section \<open>Histories\<close>

text \<open>A history grown by steps of a relation between successive states.\<close>

inductive grows :: "('s \<Rightarrow> 's \<Rightarrow> bool) \<Rightarrow> 's list \<Rightarrow> 's list \<Rightarrow> bool" for R where
  grows_refl [simp, intro]: "grows R h h"
| grows_step: "grows R h h' \<Longrightarrow> R (hd h') s \<Longrightarrow> grows R h (s # h')"

lemma grows_trans: "grows R h h' \<Longrightarrow> grows R h' h'' \<Longrightarrow> grows R h h''"
  by (rotate_tac, induction rule: grows.induct) (auto intro: grows_step)

lemma grows_invariant:
  assumes "grows R h h'" and "P (hd h)" and "\<And>s s'. P s \<Longrightarrow> R s s' \<Longrightarrow> P s'"
  shows "P (hd h') \<and> (\<exists>hs. h' = hs @ h \<and> (\<forall>s \<in> set hs. P s))"
  using assms(1,2)
proof (induction rule: grows.induct)
  case (grows_refl h)
  then show ?case by simp
next
  case (grows_step h h' s)
  then obtain hs where hs: "h' = hs @ h" "\<forall>s \<in> set hs. P s" "P (hd h')" by blast
  with grows_step.hyps(2) assms(3) have "P s" by blast
  with hs show ?case by (auto intro!: exI [of _ "s # hs"])
qed

lemma stored_grows: "stored ok h s h' \<Longrightarrow> R (hd h) s \<Longrightarrow> grows R h h'"
  by (auto simp: stored_def intro: grows.grows_step)

lemma stored_ok: "stored True h s h' \<Longrightarrow> h' = s # h"
  by (simp add: stored_def)

section \<open>A simulated API server\<close>

text \<open>
  The state of a small cluster for concrete runs: the objects, the history of the CoreDNS
  objects, and a schedule that says of each coming call whether it succeeds, fails without
  effect or (for a write) fails after taking effect. When the schedule is used up, calls
  succeed. It is the instance the hypothesis \<open>lawful_store\<close> is applied to.
\<close>

datatype fault = Works | Refused | LostReply

record sim =
  sim_zones :: "PrivateDNSZone list"
  sim_records :: "PrivateDNSRecord list"
  sim_coredns :: "coredns_state list"
  sim_faults :: "fault list"

definition sim_next :: "sim \<Rightarrow> fault \<times> sim" where
  "sim_next w = (case sim_faults w of [] \<Rightarrow> (Works, w) | f # fs \<Rightarrow> (f, w\<lparr>sim_faults := fs\<rparr>))"

definition sim_error :: api_error where
  "sim_error = ApiFailure ''the server is unavailable''"

definition sim_read :: "(sim \<Rightarrow> 'a) \<Rightarrow> sim \<Rightarrow> (api_error + 'a) \<times> sim" where
  "sim_read f w = (let (flt, w) = sim_next w in ((if flt = Works then Inr (f w) else Inl sim_error), w))"

definition sim_write :: "('a \<Rightarrow> sim \<Rightarrow> sim) \<Rightarrow> 'a \<Rightarrow> sim \<Rightarrow> (api_error + 'a) \<times> sim" where
  "sim_write f x w =
     (let (flt, w) = sim_next w in
      case flt of
        Works \<Rightarrow> (Inr x, f x w)
      | Refused \<Rightarrow> (Inl sim_error, w)
      | LostReply \<Rightarrow> (Inl sim_error, f x w))"

definition sim_head :: "coredns_state list \<Rightarrow> coredns_state" where
  "sim_head h = (case h of [] \<Rightarrow> (ConfigMap.make [] [] [] [], Deployment.make [] [] [] []) | s # _ \<Rightarrow> s)"

definition sim_states :: "sim \<Rightarrow> coredns_state list" where
  "sim_states w = (case sim_coredns w of [] \<Rightarrow> [sim_head []] | s # h \<Rightarrow> s # h)"

definition sim_client :: "sim client" where
  "sim_client =
     \<lparr>list_zones = sim_read sim_zones,
      list_records = sim_read sim_records,
      get_configmap = (\<lambda>ns n. sim_read (\<lambda>w. fst (hd (sim_states w)))),
      get_deployment = (\<lambda>ns n. sim_read (\<lambda>w. snd (hd (sim_states w)))),
      update_zone = sim_write (\<lambda>z w. w\<lparr>sim_zones := map (\<lambda>y. if z_Name y = z_Name z then z else y) (sim_zones w)\<rparr>),
      update_configmap = sim_write (\<lambda>cm w. w\<lparr>sim_coredns := (cm, snd (hd (sim_states w))) # sim_states w\<rparr>),
      update_deployment = sim_write (\<lambda>d w. w\<lparr>sim_coredns := (fst (hd (sim_states w)), d) # sim_states w\<rparr>),
      patch_zone_status = sim_write (\<lambda>z w. w\<lparr>sim_zones := map (\<lambda>y. if z_Name y = z_Name z then z else y) (sim_zones w)\<rparr>),
      patch_record_status = sim_write (\<lambda>r w. w\<lparr>sim_records :=
        map (\<lambda>q. if rec_Namespace q = rec_Namespace r \<and> rec_Name q = rec_Name r then r else q) (sim_records w)\<rparr>)\<rparr>"

lemma sim_next_states: "sim_states (snd (sim_next w)) = sim_states w"
  by (auto simp: sim_next_def sim_states_def split: list.splits)

lemma sim_states_nonempty [simp]: "sim_states w \<noteq> []"
  by (simp add: sim_states_def split: list.splits)

lemma sim_states_cons [simp]: "sim_states (w\<lparr>sim_coredns := s # h\<rparr>) = s # h"
  by (simp add: sim_states_def)

lemma sim_states_other [simp]:
  "sim_states (w\<lparr>sim_zones := zs\<rparr>) = sim_states w" "sim_states (w\<lparr>sim_records := rs\<rparr>) = sim_states w"
  by (simp_all add: sim_states_def)

lemma sim_read_quiet: "quiet sim_states (sim_read f)"
  using sim_next_states by (auto simp: quiet_def sim_read_def Let_def split: prod.split) (metis snd_conv)

lemma sim_read_reads: "reads sim_states part (sim_read (\<lambda>w. part (hd (sim_states w))))"
  unfolding reads_def
proof (intro conjI sim_read_quiet allI impI)
  fix w x assume "fst (sim_read (\<lambda>w. part (hd (sim_states w))) w) = Inr x"
  then show "x = part (hd (sim_states w))"
    using sim_next_states [of w] by (auto simp: sim_read_def split: prod.splits if_splits)
qed

lemma sim_write_quiet:
  "(\<And>a. sim_states (f x a) = sim_states a) \<Longrightarrow> quiet sim_states (sim_write f x)"
  unfolding quiet_def
proof
  fix w assume f: "\<And>a. sim_states (f x a) = sim_states a"
  show "sim_states (snd (sim_write f x w)) = sim_states w"
    using sim_next_states [of w] f by (auto simp: sim_write_def split: prod.splits fault.splits)
qed

lemma sim_write_writes:
  assumes "\<And>x a. sim_states (f x a) = put x (hd (sim_states a)) # sim_states a"
  shows "writes sim_states put (sim_write f)"
  unfolding writes_def
proof (intro allI)
  fix x w
  obtain flt w1 where n: "sim_next w = (flt, w1)" by force
  then have "sim_states w1 = sim_states w" using sim_next_states [of w] by simp
  then show "stored (\<not> isl (fst (sim_write f x w))) (sim_states w) (put x (hd (sim_states w)))
        (sim_states (snd (sim_write f x w))) \<and> (\<forall>y. fst (sim_write f x w) = Inr y \<longrightarrow> y = x)"
    using assms by (cases flt) (auto simp: sim_write_def n stored_def)
qed

lemma lawful_sim: "lawful_store sim_client sim_states"
  unfolding lawful_store_def
proof (intro conjI allI)
  show "writes sim_states (\<lambda>cm s. (cm, snd s)) (update_configmap sim_client)"
    "writes sim_states (\<lambda>d s. (fst s, d)) (update_deployment sim_client)"
    by (simp_all add: sim_client_def sim_write_writes)
  show "quiet sim_states (update_zone sim_client z)" "quiet sim_states (patch_zone_status sim_client z)"
    "quiet sim_states (patch_record_status sim_client r)" for z r
    by (simp_all add: sim_client_def sim_write_quiet)
qed (simp_all add: sim_client_def sim_read_quiet sim_read_reads)

end
