(* ===== verification/Controller_Commit.thy ===== *)
theory Controller_Commit
  imports Kube_Api
begin

text \<open>
  The write path of \<^verbatim>\<open>internal/controller/privatednszone_controller.go\<close>: the key helpers,
  \<^verbatim>\<open>setVolumeItems\<close> and \<^verbatim>\<open>commitCoreDNS\<close>. A call with the client threads the state of the
  cluster; an early return on an error returns the state reached. What the sequence of
  writes guarantees is in \<^verbatim>\<open>Commit_Protocol\<close> and \<^verbatim>\<open>Commit_Settled\<close>.
\<close>

section \<open>Keys\<close>

definition containsString :: "string list \<Rightarrow> string \<Rightarrow> bool" where
  "containsString values want = list_ex (\<lambda>value. value = want) values"

definition removeString :: "string list \<Rightarrow> string \<Rightarrow> string list" where
  "removeString values remove = filter (\<lambda>value. value \<noteq> remove) values"

definition mapKeys :: "(string, string) gomap \<Rightarrow> string list" where
  "mapKeys values = sort (map fst values)"

definition subtractKeys :: "string list \<Rightarrow> string list \<Rightarrow> string list" where
  "subtractKeys from remove = sort (filter (\<lambda>key. \<not> containsString remove key) from)"

definition unionKeys :: "string list \<Rightarrow> string list \<Rightarrow> string list" where
  "unionKeys a b = sort (foldl (\<lambda>out key. if key \<in> set out then out else out @ [key]) [] (a @ b))"

lemma containsString_iff [simp]: "containsString vs w \<longleftrightarrow> w \<in> set vs"
  by (auto simp: containsString_def list_ex_iff)

lemma set_removeString [simp]: "set (removeString vs r) = set vs - {r}"
  by (auto simp: removeString_def)

lemma set_mapKeys [simp]: "set (mapKeys m) = keys_of m"
  by (simp add: mapKeys_def)

lemma set_subtractKeys [simp]: "set (subtractKeys a b) = set a - set b"
  by (auto simp: subtractKeys_def)

lemma dedup_fold:
  "set (foldl (\<lambda>out key. if key \<in> set out then out else out @ [key]) acc xs) = set acc \<union> set xs"
  "distinct acc \<Longrightarrow> distinct (foldl (\<lambda>out key. if key \<in> set out then out else out @ [key]) acc xs)"
  by (induction xs arbitrary: acc) auto

lemma set_unionKeys [simp]: "set (unionKeys a b) = set a \<union> set b"
  by (simp add: unionKeys_def dedup_fold)

lemma distinct_unionKeys: "distinct (unionKeys a b)"
  by (simp add: unionKeys_def dedup_fold)

section \<open>Writing\<close>

definition setVolumeItems ::
    "'w PrivateDNSZoneReconciler \<Rightarrow> KeyToPath order \<Rightarrow> string list \<Rightarrow> string list \<Rightarrow> bool \<Rightarrow> string
     \<Rightarrow> 'w \<Rightarrow> (ctrl_error + Deployment \<times> bool) \<times> 'w" where
  "setVolumeItems r ordK mountKeys previousManagedKeys restart restartHash w =
     (case get_deployment (Client r) (CoreDNSNamespace r) (CoreDNSDeployment r) w of
        (Inl err, w) \<Rightarrow> (Inl (ApiError err), w)
      | (Inr dep, w) \<Rightarrow>
          (case EnsureZoneVolumeItems ordK dep (CoreDNSConfigMap r) mountKeys previousManagedKeys of
             Inl err \<Rightarrow> (Inl (GoError err), w)
           | Inr (changed, dep) \<Rightarrow>
               (let (changed, dep) =
                  (if restart then (True, MarkRolloutRestart dep ''private-dns-zone-change'' restartHash)
                   else (changed, dep))
                in if changed then
                     (case update_deployment (Client r) dep w of
                        (Inl err, w) \<Rightarrow> (Inl (ApiError err), w)
                      | (Inr dep, w) \<Rightarrow> (Inr (dep, changed), w))
                   else (Inr (dep, changed), w))))"

text \<open>\<^verbatim>\<open>if changed { if err := r.Update(ctx, cm); err != nil { return err } }\<close>.\<close>

definition updateIfChanged ::
    "'w PrivateDNSZoneReconciler \<Rightarrow> bool \<Rightarrow> ConfigMap \<Rightarrow> 'w \<Rightarrow> (ctrl_error + ConfigMap) \<times> 'w" where
  "updateIfChanged r changed cm w =
     (if changed then
        (case update_configmap (Client r) cm w of
           (Inl err, w) \<Rightarrow> (Inl (ApiError err), w)
         | (Inr cm, w) \<Rightarrow> (Inr cm, w))
      else (Inr cm, w))"

definition commitCoreDNS ::
    "'w PrivateDNSZoneReconciler \<Rightarrow> KeyToPath order \<Rightarrow> ConfigMap \<Rightarrow> string \<Rightarrow> (string, string) gomap
     \<Rightarrow> string list \<Rightarrow> bool \<Rightarrow> string \<Rightarrow> 'w \<Rightarrow> ctrl_error option \<times> 'w" where
  "commitCoreDNS r ordK cm corefile zoneFiles previousManagedKeys reloadable restartHash w =
     (let desiredKeys = mapKeys zoneFiles;
          staleKeys = subtractKeys previousManagedKeys desiredKeys;
          mountAllKeys = unionKeys previousManagedKeys desiredKeys;
          (filesChanged, cm) = SetZoneFiles cm zoneFiles;
          (keysChanged, cm) = SetManagedZoneKeys cm mountAllKeys
      in case updateIfChanged r (filesChanged \<or> keysChanged) cm w of
        (Inl err, w) \<Rightarrow> (Some err, w)
      | (Inr cm, w) \<Rightarrow>
      (case setVolumeItems r ordK mountAllKeys previousManagedKeys False [] w of
        (Inl err, w) \<Rightarrow> (Some err, w)
      | (Inr (dep, mountChanged), w) \<Rightarrow>
      (let (corefileChanged, cm) = SetCorefile cm corefile in
       case updateIfChanged r corefileChanged cm w of
        (Inl err, w) \<Rightarrow> (Some err, w)
      | (Inr cm, w) \<Rightarrow>
      (let restart = corefileChanged \<and> \<not> reloadable in
       case setVolumeItems r ordK desiredKeys previousManagedKeys restart restartHash w of
        (Inl err, w) \<Rightarrow> (Some err, w)
      | (Inr _, w) \<Rightarrow>
      (let (filesChanged, cm) = RemoveZoneFiles cm staleKeys;
           (keysChanged, cm) = SetManagedZoneKeys cm desiredKeys
       in case updateIfChanged r (filesChanged \<or> keysChanged) cm w of
        (Inl err, w) \<Rightarrow> (Some err, w)
      | (Inr cm, w) \<Rightarrow> (None, w))))))"

end
