(* ===== verification/Commit_Protocol.thy ===== *)
theory Commit_Protocol
  imports Controller_Commit
begin

text \<open>
  The order of the writes of \<^verbatim>\<open>commitCoreDNS\<close> as a protocol: a step relation (\<open>proto\<close>) on what of
  the CoreDNS objects matters (\<open>layout\<close>). Every write is one of its steps, so its invariants
  hold of every state that is ever stored, wherever the sequence stops. Sequences of
  fallible calls are composed with triples (\<open>follows\<close>, \<open>concludes\<close>) over the history of the
  stored states.
\<close>

section \<open>The files a Corefile names\<close>

text \<open>
  The first argument of a line of the file plugin, below the
  directory where the ConfigMap is mounted.
\<close>

definition file_dir :: string where
  "file_dir = ''/etc/coredns/''"

definition named_file :: "string \<Rightarrow> string option" where
  "named_file line =
     (case str_fields line of
        plugin # path # _ \<Rightarrow>
          if plugin = ''file'' \<and> prefix file_dir path then Some (drop (length file_dir) path) else None
      | _ \<Rightarrow> None)"

definition named_files :: "string \<Rightarrow> string set" where
  "named_files cf = set (List.map_filter named_file (split_on nl cf))"

section \<open>The protocol\<close>

text \<open>
  What matters of a state: the keys in the ConfigMap, the keys mounted (\<open>None\<close> when the
  volume has no explicit items and shows every key), the text of the Corefile, and the keys
  recorded as managed.
\<close>

record layout =
  l_data :: "string set"
  l_items :: "string set option"
  l_text :: string
  l_managed :: "string set"

abbreviation l_named :: "layout \<Rightarrow> string set" where
  "l_named l \<equiv> named_files (l_text l)"

definition visible :: "layout \<Rightarrow> string \<Rightarrow> bool" where
  "visible l f \<longleftrightarrow> f \<in> l_data l \<and> (case l_items l of None \<Rightarrow> True | Some I \<Rightarrow> f \<in> I)"

text \<open>
  The invariants of \<^verbatim>\<open>configmap.go\<close>: every mounted item exists, or new CoreDNS pods never
  start; every file the Corefile names is there and mounted, or CoreDNS exits; and every
  key recorded as managed exists.
\<close>

definition safe :: "layout \<Rightarrow> bool" where
  "safe l \<longleftrightarrow>
     (\<forall>I. l_items l = Some I \<longrightarrow> I \<subseteq> l_data l)
     \<and> (\<forall>f \<in> l_named l. visible l f)
     \<and> l_managed l \<subseteq> l_data l"

definition remount :: "string set \<Rightarrow> string set \<Rightarrow> string set option \<Rightarrow> string set option" where
  "remount M P items =
     (case items of
        None \<Rightarrow> None
      | Some I \<Rightarrow> (let J = (I \<union> M) - (P - M) in if J = {} then None else Some J))"

text \<open>The steps, for the managed keys before (\<open>P\<close>) and after (\<open>D\<close>) and the new Corefile (\<open>C\<close>).\<close>

inductive proto :: "string set \<Rightarrow> string set \<Rightarrow> string \<Rightarrow> layout \<Rightarrow> layout \<Rightarrow> bool"
  for P D C where
  expand_data: "P \<subseteq> l_data l \<Longrightarrow> l_managed l \<subseteq> P \<union> D \<Longrightarrow>
     proto P D C l (l\<lparr>l_data := l_data l \<union> D, l_managed := P \<union> D\<rparr>)"
| expand_mount: "P \<union> D \<subseteq> l_data l \<Longrightarrow>
     proto P D C l (l\<lparr>l_items := remount (P \<union> D) P (l_items l)\<rparr>)"
| switch: "\<forall>f \<in> named_files C. visible l f \<Longrightarrow> l_managed l = P \<union> D \<Longrightarrow>
     proto P D C l (l\<lparr>l_data := insert corefileKey (l_data l), l_text := C\<rparr>)"
| contract_mount: "l_text l = C \<Longrightarrow> D \<subseteq> l_data l \<Longrightarrow> l_named l \<inter> (P - D) = {} \<Longrightarrow>
     proto P D C l (l\<lparr>l_items := remount D P (l_items l)\<rparr>)"
| contract_data: "l_text l = C \<Longrightarrow> D \<subseteq> l_data l \<Longrightarrow> l_named l \<inter> (P - D) = {} \<Longrightarrow>
     \<forall>I. l_items l = Some I \<longrightarrow> I \<inter> (P - D) = {} \<Longrightarrow> l_managed l \<subseteq> P \<union> D \<Longrightarrow>
     proto P D C l (l\<lparr>l_data := l_data l - (P - D), l_managed := D\<rparr>)"

lemma safe_remount:
  assumes "safe l" and "M \<subseteq> l_data l" and "l_named l \<inter> (P - M) = {}"
  shows "safe (l\<lparr>l_items := remount M P (l_items l)\<rparr>)"
proof (cases "l_items l")
  case None
  with assms show ?thesis by (auto simp: safe_def remount_def visible_def)
next
  case (Some I)
  with assms(1) have "I \<subseteq> l_data l" "\<forall>f \<in> l_named l. f \<in> I \<and> f \<in> l_data l" "l_managed l \<subseteq> l_data l"
    by (auto simp: safe_def visible_def)
  with assms(2,3) Some show ?thesis
    by (auto simp: safe_def remount_def visible_def Let_def split: if_splits)
qed

text \<open>Every step keeps the invariants.\<close>

lemma proto_safe: "proto P D C l l' \<Longrightarrow> safe l \<Longrightarrow> safe l'"
proof (induction rule: proto.cases)
  case (expand_data l)
  then show ?case by (auto simp: safe_def visible_def split: option.splits)
next
  case (expand_mount l)
  then show ?case by (auto intro: safe_remount)
next
  case (switch l)
  then show ?case by (auto simp: safe_def visible_def split: option.splits)
next
  case (contract_mount l)
  then show ?case by (auto intro: safe_remount)
next
  case (contract_data l)
  then show ?case by (auto simp: safe_def visible_def split: option.splits)
qed

text \<open>
  No orphans: a key that was not in the ConfigMap before, or was managed before, is always
  recorded as managed.
\<close>

definition tracked :: "string set \<Rightarrow> string set \<Rightarrow> string set \<Rightarrow> layout \<Rightarrow> bool" where
  "tracked P D B l \<longleftrightarrow> l_managed l \<subseteq> P \<union> D \<and> l_data l \<subseteq> B \<union> l_managed l"

lemma proto_tracked: "proto P D C l l' \<Longrightarrow> corefileKey \<in> B \<Longrightarrow> tracked P D B l \<Longrightarrow> tracked P D B l'"
  by (induction rule: proto.cases) (auto simp: tracked_def)

section \<open>The layout of a stored state\<close>

definition items_of :: "string \<Rightarrow> Deployment \<Rightarrow> string set option" where
  "items_of name d =
     (case mounted_items d name of
        None \<Rightarrow> Some {}
      | Some items \<Rightarrow> if items = [] then None else Some (kp_Key ` set items))"

definition layout_of :: "string \<Rightarrow> coredns_state \<Rightarrow> layout" where
  "layout_of name s =
     \<lparr>l_data = dom (map_of (cm_Data (fst s))),
      l_items = items_of name (snd s),
      l_text = get_or_empty (cm_Data (fst s)) corefileKey,
      l_managed = set (ManagedZoneKeys (fst s))\<rparr>"

lemma visible_layout: "visible (layout_of name (cm, d)) f \<longleftrightarrow> map_of (cm_Data cm) f \<noteq> None \<and> mounted d name f"
  by (auto simp: visible_def layout_of_def items_of_def mounted_def split: option.splits)

lemma items_of_ensure:
  assumes "EnsureZoneVolumeItems ord d name M P = Inr (ch, d')" and "is_order ord"
  shows "items_of name d' = remount (set M) (set P) (items_of name d)"
    and "\<not> ch \<Longrightarrow> items_of name d = remount (set M) (set P) (items_of name d)"
proof -
  obtain items where it: "mounted_items d name = Some items"
    and ch: "ch \<longleftrightarrow> items \<noteq> [] \<and> fst (update_items ord items M P)"
    and it': "mounted_items d' name = Some (if items = [] then [] else snd (update_items ord items M P))"
    using EnsureZoneVolumeItems_cases [where d = d and name = name and ord = ord and desired = M and prev = P] assms(1)
    by (auto split: option.splits)
  let ?K = "kp_Key ` set items" and ?J = "(kp_Key ` set items \<union> set M) - (set P - set M)"
  have keys: "kp_Key ` set (snd (update_items ord items M P)) = ?J"
    by (rule update_items_keys [OF assms(2)])
  then have empty: "snd (update_items ord items M P) = [] \<longleftrightarrow> ?J = {}"
    by (metis image_is_empty set_empty)
  show "items_of name d' = remount (set M) (set P) (items_of name d)"
    using keys empty by (simp add: items_of_def it it' remount_def Let_def)
  show "items_of name d = remount (set M) (set P) (items_of name d)" if "\<not> ch"
  proof (cases "items = []")
    case True
    then show ?thesis by (simp add: items_of_def it remount_def)
  next
    case False
    with that ch have "?J = ?K" by (simp add: update_items_changed)
    with False show ?thesis by (simp add: items_of_def it remount_def Let_def)
  qed
qed

text \<open>One call of \<^verbatim>\<open>setVolumeItems\<close>: the items are remounted, or nothing is stored.\<close>

lemma setVolumeItems_step:
  assumes "lawful_store (Client r) states" and "is_order ordK"
    and "setVolumeItems r ordK M P restart h w = (res, w')"
  defines "name \<equiv> CoreDNSConfigMap r" and "s \<equiv> hd (states w)"
  defines "l \<equiv> layout_of name s"
  shows "(states w' = states w \<or>
          (\<exists>d'. states w' = (fst s, d') # states w \<and>
              layout_of name (fst s, d') = l\<lparr>l_items := remount (set M) (set P) (l_items l)\<rparr>))
     \<and> (\<forall>x. res = Inr x \<longrightarrow>
          fst (hd (states w')) = fst s \<and>
          layout_of name (hd (states w')) = l\<lparr>l_items := remount (set M) (set P) (l_items l)\<rparr>)"
proof -
  note law = lawful_storeD [OF assms(1)]
  have s: "s = (fst s, snd s)" by simp
  obtain g w1 where g: "get_deployment (Client r) (CoreDNSNamespace r) (CoreDNSDeployment r) w = (g, w1)" by force
  have w1: "states w1 = states w" by (rule quietD [OF law(7) g])
  show ?thesis
  proof (cases g)
    case (Inl e)
    have "setVolumeItems r ordK M P restart h w = (Inl (ApiError e), w1)"
      by (simp add: setVolumeItems_def g Inl)
    then have r: "res = Inl (ApiError e)" and w': "w' = w1" using assms(3) by auto
    show ?thesis unfolding r w' w1 by simp
  next
    case (Inr d)
    have d: "d = snd s" using readsD [OF law(3) g [unfolded Inr]] by (simp add: s_def)
    show ?thesis
    proof (cases "EnsureZoneVolumeItems ordK d name M P")
      case (Inl e)
      then have "setVolumeItems r ordK M P restart h w = (Inl (GoError e), w1)"
        by (simp add: setVolumeItems_def g Inr name_def)
      then have r: "res = Inl (GoError e)" and w': "w' = w1" using assms(3) by auto
      show ?thesis unfolding r w' w1 by simp
    next
      case E: (Inr p)
      obtain ch d1 where p: "p = (ch, d1)" by force
      note items = items_of_ensure [OF E [unfolded p] assms(2)]
      define ch' d2 where "ch' = (restart \<or> ch)"
        and "d2 = (if restart then MarkRolloutRestart d1 ''private-dns-zone-change'' h else d1)"
      have "items_of name d2 = items_of name d1"
        by (simp add: d2_def items_of_def frame_simps)
      with items have lay: "layout_of name (fst s, d2) = l\<lparr>l_items := remount (set M) (set P) (l_items l)\<rparr>"
        by (simp add: layout_of_def l_def d)
      have same: "\<not> ch' \<Longrightarrow> layout_of name s = l\<lparr>l_items := remount (set M) (set P) (l_items l)\<rparr>"
        using items(2) by (simp add: layout_of_def l_def d ch'_def)
      show ?thesis
      proof (cases ch')
        case False
        then have "res = Inr (d2, ch') \<and> w' = w1"
          using assms(3) g Inr E p by (auto simp: setVolumeItems_def name_def ch'_def d2_def)
        then show ?thesis using same [OF False] w1 by (simp add: s_def)
      next
        case True
        obtain u w2 where u: "update_deployment (Client r) d2 w1 = (u, w2)" by force
        from writesD [OF law(5) u] have st: "stored (\<not> isl u) (states w) (fst s, d2) (states w2)"
          by (simp add: w1 s_def)
        have "w' = w2 \<and> (isl u \<longrightarrow> isl res)"
          using assms(3) g Inr E p u True
          by (cases restart) (auto simp: setVolumeItems_def name_def ch'_def d2_def split: sum.splits)
        then show ?thesis
          using st lay by (cases u) (auto simp: stored_def isl_def)
      qed
    qed
  qed
qed

text \<open>A conditional update of the ConfigMap.\<close>

lemma updateIfChanged_step:
  assumes "lawful_store (Client r) states" and "updateIfChanged r ch cm w = (res, w')"
    and "\<not> ch \<Longrightarrow> cm = fst (hd (states w))"
  shows "(states w' = states w \<or> states w' = (cm, snd (hd (states w))) # states w)
     \<and> (\<forall>x. res = Inr x \<longrightarrow> x = cm \<and> hd (states w') = (cm, snd (hd (states w))))"
proof (cases ch)
  case False
  with assms(2,3) show ?thesis by (auto simp: updateIfChanged_def)
next
  case True
  obtain u w1 where u: "update_configmap (Client r) cm w = (u, w1)" by force
  from writesD [OF lawful_storeD(4) [OF assms(1)] u]
  have st: "stored (\<not> isl u) (states w) (cm, snd (hd (states w))) (states w1)" "\<forall>y. u = Inr y \<longrightarrow> y = cm"
    by simp_all
  have "w' = w1" "res = (case u of Inl e \<Rightarrow> Inl (ApiError e) | Inr x \<Rightarrow> Inr x)"
    using assms(2) True u by (auto simp: updateIfChanged_def split: sum.splits)
  then show ?thesis using st by (cases u) (auto simp: stored_def)
qed

section \<open>commitCoreDNS follows the protocol\<close>

text \<open>What \<^verbatim>\<open>Reconcile\<close> guarantees when it calls \<^verbatim>\<open>commitCoreDNS\<close>.\<close>

definition commit_ready ::
    "string \<Rightarrow> ConfigMap \<Rightarrow> Deployment \<Rightarrow> string \<Rightarrow> (string, string) gomap \<Rightarrow> string list \<Rightarrow> bool" where
  "commit_ready name cm d corefile zoneFiles prev \<longleftrightarrow>
     prev = ManagedZoneKeys cm
     \<and> corefile \<noteq> []
     \<and> distinct (map fst zoneFiles)
     \<and> (\<forall>k \<in> keys_of zoneFiles. listable_key k)
     \<and> corefileKey \<notin> keys_of zoneFiles \<and> corefileKey \<notin> set prev
     \<and> (\<forall>f \<in> named_files corefile.
          f \<in> keys_of zoneFiles \<or> (f \<notin> set prev \<and> visible (layout_of name (cm, d)) f))"

definition after_commit :: "string set \<Rightarrow> string set \<Rightarrow> string \<Rightarrow> layout \<Rightarrow> layout" where
  "after_commit P D C l =
     \<lparr>l_data = insert corefileKey (l_data l \<union> D) - (P - D),
      l_items = remount D P (remount (P \<union> D) P (l_items l)),
      l_text = C,
      l_managed = D\<rparr>"

text \<open>The ConfigMap after all steps.\<close>

definition committed :: "ConfigMap \<Rightarrow> string \<Rightarrow> (string, string) gomap \<Rightarrow> string list \<Rightarrow> ConfigMap" where
  "committed cm corefile zoneFiles prev =
     (let desired = mapKeys zoneFiles;
          cm1 = snd (SetManagedZoneKeys (snd (SetZoneFiles cm zoneFiles)) (unionKeys prev desired));
          cm2 = snd (SetCorefile cm1 corefile);
          cm3 = snd (RemoveZoneFiles cm2 (subtractKeys prev desired))
      in snd (SetManagedZoneKeys cm3 desired))"

lemma get_or_empty_files:
  assumes "distinct (map fst fs)" and "k \<notin> keys_of fs"
  shows "get_or_empty (cm_Data (snd (SetZoneFiles cm fs))) k = get_or_empty (cm_Data cm) k"
proof -
  have "map_of fs k = None" using assms(2) by (simp add: map_of_eq_None_iff)
  then show ?thesis
    by (simp add: get_or_empty_def SetZoneFiles_data [OF assms(1)] map_add_def)
qed

lemma layout_expand:
  assumes "distinct (map fst fs)" and "corefileKey \<notin> keys_of fs"
    and "\<forall>k \<in> set ks. listable_key k"
  shows "layout_of name (snd (SetManagedZoneKeys (snd (SetZoneFiles cm fs)) ks), d)
       = (layout_of name (cm, d))\<lparr>l_data := l_data (layout_of name (cm, d)) \<union> keys_of fs, l_managed := set ks\<rparr>"
  using assms(3)
  by (simp add: layout_of_def frame_simps SetZoneFiles_data(1) [OF assms(1)] get_or_empty_files [OF assms(1,2)]
      managed_keys.put_get dom_map_of_conv_image_fst Un_commute)

lemma layout_switch:
  assumes "corefile \<noteq> []"
  shows "layout_of name (snd (SetCorefile cm corefile), d)
       = (layout_of name (cm, d))\<lparr>l_data := insert corefileKey (l_data (layout_of name (cm, d))),
           l_text := corefile\<rparr>"
proof -
  have "dom (map_of (cm_Data (snd (SetCorefile cm corefile)))) = insert corefileKey (dom (map_of (cm_Data cm)))"
    using assms by (auto simp: SetCorefile_data get_or_empty_def split: option.splits if_splits)
  moreover have "cm_Annotations (snd (SetCorefile cm corefile)) = cm_Annotations cm"
    by (simp add: frame_simps)
  ultimately show ?thesis
    by (simp add: layout_of_def SetCorefile_data(2) ManagedZoneKeys_def)
qed

lemma layout_contract:
  assumes "corefileKey \<notin> set stale" and "\<forall>k \<in> set ks. listable_key k"
  shows "layout_of name (snd (SetManagedZoneKeys (snd (RemoveZoneFiles cm stale)) ks), d)
       = (layout_of name (cm, d))\<lparr>l_data := l_data (layout_of name (cm, d)) - set stale, l_managed := set ks\<rparr>"
proof -
  have "get_or_empty (cm_Data (snd (RemoveZoneFiles cm stale))) corefileKey = get_or_empty (cm_Data cm) corefileKey"
    using assms(1) by (simp add: get_or_empty_def RemoveZoneFiles_data(1))
  then show ?thesis
    using assms(2)
    by (simp add: layout_of_def frame_simps RemoveZoneFiles_data(1) managed_keys.put_get)
       (auto simp: restrict_map_def)
qed

lemma remount_disjoint: "remount D P items = Some I \<Longrightarrow> I \<inter> (P - D) = {}"
  by (auto simp: remount_def Let_def split: option.splits if_splits)

section \<open>Sequences of fallible calls\<close>

text \<open>
  From a state that satisfies \<open>pre\<close>, the history grows by steps of \<open>R\<close>, and when the call
  succeeds its result and the state reached satisfy \<open>post\<close>.
\<close>

definition follows ::
    "('w \<Rightarrow> 's list) \<Rightarrow> ('s \<Rightarrow> 's \<Rightarrow> bool) \<Rightarrow> ('s \<Rightarrow> bool) \<Rightarrow> ('w \<Rightarrow> ('e + 'a) \<times> 'w) \<Rightarrow> ('a \<Rightarrow> 's \<Rightarrow> bool) \<Rightarrow> bool" where
  "follows states R pre m post \<longleftrightarrow>
     (\<forall>w res w'. pre (hd (states w)) \<longrightarrow> m w = (res, w') \<longrightarrow>
        grows R (states w) (states w') \<and> (\<forall>x. res = Inr x \<longrightarrow> post x (hd (states w'))))"

definition concludes ::
    "('w \<Rightarrow> 's list) \<Rightarrow> ('s \<Rightarrow> 's \<Rightarrow> bool) \<Rightarrow> ('s \<Rightarrow> bool) \<Rightarrow> ('w \<Rightarrow> 'e option \<times> 'w) \<Rightarrow> ('s \<Rightarrow> bool) \<Rightarrow> bool" where
  "concludes states R pre m post \<longleftrightarrow>
     (\<forall>w res w'. pre (hd (states w)) \<longrightarrow> m w = (res, w') \<longrightarrow>
        grows R (states w) (states w') \<and> (res = None \<longrightarrow> post (hd (states w'))))"

lemma followsD:
  assumes "follows states R pre m post" and "pre (hd (states w))" and "m w = (res, w')"
  shows "grows R (states w) (states w')" and "res = Inr x \<Longrightarrow> post x (hd (states w'))"
  using assms unfolding follows_def by blast+

lemma concludesD:
  assumes "concludes states R pre m post" and "pre (hd (states w))" and "m w = (res, w')"
  shows "grows R (states w) (states w')" and "res = None \<Longrightarrow> post (hd (states w'))"
  using assms unfolding concludes_def by blast+

text \<open>\<^verbatim>\<open>if err := m(); err != nil { return err }\<close> and the rest.\<close>

lemma concludes_then:
  assumes "follows states R pre m mid" and "\<And>x. concludes states R (mid x) (k x) post"
  shows "concludes states R pre (\<lambda>w. case m w of (Inl e, w) \<Rightarrow> (Some e, w) | (Inr x, w) \<Rightarrow> k x w) post"
  unfolding concludes_def
proof (intro allI impI)
  fix w res w'
  assume pre: "pre (hd (states w))"
    and run: "(case m w of (Inl e, w) \<Rightarrow> (Some e, w) | (Inr x, w) \<Rightarrow> k x w) = (res, w')"
  obtain u w1 where m: "m w = (u, w1)" by (rule prod.exhaust)
  note F = followsD [OF assms(1) pre m]
  show "grows R (states w) (states w') \<and> (res = None \<longrightarrow> post (hd (states w')))"
  proof (cases u)
    case (Inl e)
    then show ?thesis using run m F(1) by auto
  next
    case (Inr x)
    then have k: "k x w1 = (res, w')" using run m by simp
    note C = concludesD [OF assms(2) F(2) [OF Inr] k]
    show ?thesis using grows_trans [OF F(1) C(1)] C(2) by blast
  qed
qed

lemma concludes_last:
  assumes "follows states R pre m (\<lambda>_. post)"
  shows "concludes states R pre (\<lambda>w. case m w of (Inl e, w) \<Rightarrow> (Some e, w) | (Inr x, w) \<Rightarrow> (None, w)) post"
  by (rule concludes_then [OF assms]) (simp add: concludes_def)

lemma concludes_value:
  "(x = c \<Longrightarrow> concludes states R pre m post) \<Longrightarrow> concludes states R (\<lambda>s. x = c \<and> pre s) m post"
  by (auto simp: concludes_def)

lemma concludes_pair:
  "(\<And>a b. concludes states R pre (k a b) post) \<Longrightarrow> concludes states R pre (\<lambda>w. case x of (a, b) \<Rightarrow> k a b w) post"
  by (cases x) simp

lemma concludes_pre: "concludes states R pre m post \<Longrightarrow> (\<And>s. pre' s \<Longrightarrow> pre s) \<Longrightarrow> concludes states R pre' m post"
  unfolding concludes_def by blast

section \<open>The two kinds of write\<close>

abbreviation layout_step :: "(layout \<Rightarrow> layout \<Rightarrow> bool) \<Rightarrow> string \<Rightarrow> coredns_state \<Rightarrow> coredns_state \<Rightarrow> bool" where
  "layout_step R name \<equiv> (\<lambda>s s'. R (layout_of name s) (layout_of name s'))"

abbreviation holds_at :: "string \<Rightarrow> ConfigMap \<Rightarrow> layout \<Rightarrow> coredns_state \<Rightarrow> bool" where
  "holds_at name cm l s \<equiv> fst s = cm \<and> layout_of name s = l"

lemma grows_at_most_one:
  "h' = h \<or> (\<exists>s. h' = s # h \<and> R (hd h) s) \<Longrightarrow> grows R h h'"
  by (auto intro: grows.grows_step)

lemma updateIfChanged_follows:
  assumes "lawful_store (Client r) states" and "ch \<or> cm' = cm"
    and "\<And>d. layout_of name (cm, d) = l \<Longrightarrow> layout_of name (cm', d) = l'" and "R l l'"
  shows "follows states (layout_step R name) (holds_at name cm l) (updateIfChanged r ch cm')
    (\<lambda>x s. x = cm' \<and> holds_at name cm' l' s)"
  unfolding follows_def
proof (intro allI impI conjI)
  fix w res w'
  assume pre: "holds_at name cm l (hd (states w))" and run: "updateIfChanged r ch cm' w = (res, w')"
  obtain d where h: "hd (states w) = (cm, d)" using pre by (metis prod.collapse)
  have l: "layout_of name (cm, d) = l" using pre h by simp
  have "\<not> ch \<Longrightarrow> cm' = fst (hd (states w))" using assms(2) h by simp
  note st = updateIfChanged_step [OF assms(1) run this]
  show "grows (layout_step R name) (states w) (states w')"
    by (rule grows_at_most_one) (use st h l assms(3,4) in auto)
  show "x = cm'" "fst (hd (states w')) = cm'" "layout_of name (hd (states w')) = l'" if "res = Inr x" for x
    using st that h assms(3) [OF l] by simp_all
qed

lemma setVolumeItems_follows:
  assumes "lawful_store (Client r) states" and "is_order ordK" and "name = CoreDNSConfigMap r"
    and "l' = l\<lparr>l_items := remount (set M) (set P) (l_items l)\<rparr>" and "R l l'"
  shows "follows states (layout_step R name) (holds_at name cm l) (setVolumeItems r ordK M P restart h)
    (\<lambda>_. holds_at name cm l')"
  unfolding follows_def
proof (intro allI impI)
  fix w res w'
  assume pre: "holds_at name cm l (hd (states w))" and run: "setVolumeItems r ordK M P restart h w = (res, w')"
  note st = setVolumeItems_step [OF assms(1,2) run, folded assms(3)]
  have l: "layout_of name (hd (states w)) = l" "fst (hd (states w)) = cm" using pre by blast+
  note st = st [unfolded l, folded assms(4)]
  have "grows (layout_step R name) (states w) (states w')"
    by (rule grows_at_most_one) (use st l assms(5) in auto)
  then show "grows (layout_step R name) (states w) (states w') \<and> (\<forall>x. res = Inr x \<longrightarrow> holds_at name cm l' (hd (states w')))"
    using st by blast
qed

section \<open>commitCoreDNS follows the protocol\<close>

text \<open>The layouts on the way, each a protocol step from the one before.\<close>

definition expanded :: "string set \<Rightarrow> string set \<Rightarrow> layout \<Rightarrow> layout" where
  "expanded P D l = l\<lparr>l_data := l_data l \<union> D, l_managed := P \<union> D\<rparr>"

definition mounted_all :: "string set \<Rightarrow> string set \<Rightarrow> layout \<Rightarrow> layout" where
  "mounted_all P D l = (expanded P D l)\<lparr>l_items := remount (P \<union> D) P (l_items l)\<rparr>"

definition switched :: "string set \<Rightarrow> string set \<Rightarrow> string \<Rightarrow> layout \<Rightarrow> layout" where
  "switched P D C l =
     (mounted_all P D l)\<lparr>l_data := insert corefileKey (l_data l \<union> D), l_text := C\<rparr>"

definition unmounted :: "string set \<Rightarrow> string set \<Rightarrow> string \<Rightarrow> layout \<Rightarrow> layout" where
  "unmounted P D C l = (switched P D C l)\<lparr>l_items := remount D P (remount (P \<union> D) P (l_items l))\<rparr>"

lemmas layout_defs = expanded_def mounted_all_def switched_def unmounted_def after_commit_def

lemma protocol_steps:
  assumes "safe l" and "l_managed l = P" and "corefileKey \<notin> P"
    and "\<forall>f \<in> named_files C. f \<in> D \<or> (f \<notin> P \<and> visible l f)"
  shows "proto P D C l (expanded P D l)" and "proto P D C (expanded P D l) (mounted_all P D l)"
    and "proto P D C (mounted_all P D l) (switched P D C l)"
    and "proto P D C (switched P D C l) (unmounted P D C l)"
    and "proto P D C (unmounted P D C l) (after_commit P D C l)"
proof -
  have P: "P \<subseteq> l_data l" using assms(1,2) by (auto simp: safe_def)
  have N: "named_files C \<inter> (P - D) = {}" using assms(4) by blast
  show "proto P D C l (expanded P D l)"
    unfolding layout_defs by (rule proto.expand_data) (use P assms(2) in auto)
  have "proto P D C (expanded P D l)
      ((expanded P D l)\<lparr>l_items := remount (P \<union> D) P (l_items (expanded P D l))\<rparr>)"
    by (rule proto.expand_mount) (use P in \<open>auto simp: layout_defs\<close>)
  then show "proto P D C (expanded P D l) (mounted_all P D l)" by (simp add: layout_defs)
  have "visible (mounted_all P D l) f" if "f \<in> named_files C" for f
    using assms(4) that P by (auto simp: visible_def layout_defs remount_def Let_def split: option.splits)
  then have "proto P D C (mounted_all P D l)
      ((mounted_all P D l)\<lparr>l_data := insert corefileKey (l_data (mounted_all P D l)), l_text := C\<rparr>)"
    by (intro proto.switch) (auto simp: layout_defs)
  then show "proto P D C (mounted_all P D l) (switched P D C l)" by (simp add: layout_defs)
  have "proto P D C (switched P D C l)
      ((switched P D C l)\<lparr>l_items := remount D P (l_items (switched P D C l))\<rparr>)"
    by (rule proto.contract_mount) (use N in \<open>auto simp: layout_defs\<close>)
  then show "proto P D C (switched P D C l) (unmounted P D C l)" by (simp add: layout_defs)
  have "proto P D C (unmounted P D C l)
      ((unmounted P D C l)\<lparr>l_data := l_data (unmounted P D C l) - (P - D), l_managed := D\<rparr>)"
    by (rule proto.contract_data) (use N remount_disjoint in \<open>auto simp: layout_defs\<close>)
  moreover have "(unmounted P D C l)\<lparr>l_data := l_data (unmounted P D C l) - (P - D), l_managed := D\<rparr> = after_commit P D C l"
    by (rule layout.equality) (simp_all add: layout_defs)
  ultimately show "proto P D C (unmounted P D C l) (after_commit P D C l)" by simp
qed

text \<open>
  The whole sequence: each write is a protocol step, and without an error the layout is
  the one after all steps.
\<close>

lemma commitCoreDNS_concludes:
  fixes name :: string
  assumes law: "lawful_store (Client r) states" and ordK: "is_order ordK"
    and name: "name = CoreDNSConfigMap r"
    and ready: "commit_ready name cm d corefile zoneFiles prev"
    and safe: "safe (layout_of name (cm, d))"
  defines "R \<equiv> proto (set prev) (keys_of zoneFiles) corefile"
  shows "concludes states (layout_step R name) (holds_at name cm (layout_of name (cm, d)))
    (commitCoreDNS r ordK cm corefile zoneFiles prev reloadable hash)
    (holds_at name (committed cm corefile zoneFiles prev)
      (after_commit (set prev) (keys_of zoneFiles) corefile (layout_of name (cm, d))))"
proof -
  let ?P = "set prev" and ?D = "keys_of zoneFiles" and ?l = "layout_of name (cm, d)"
  have prev: "prev = ManagedZoneKeys cm" and cf: "corefile \<noteq> []" and dist: "distinct (map fst zoneFiles)"
    and lk: "\<forall>k \<in> ?D. listable_key k" and ck: "corefileKey \<notin> ?D" "corefileKey \<notin> ?P"
    and nf: "\<forall>f \<in> named_files corefile. f \<in> ?D \<or> (f \<notin> ?P \<and> visible ?l f)"
    using ready by (auto simp: commit_ready_def)
  have managed: "l_managed ?l = ?P" by (simp add: layout_of_def prev)
  note R = protocol_steps [OF safe managed ck(2) nf, folded R_def]
  let ?desired = "mapKeys zoneFiles"
  let ?stale = "subtractKeys prev ?desired" and ?all = "unionKeys prev ?desired"
  obtain c1 cm1 where sz: "SetZoneFiles cm zoneFiles = (c1, cm1)" by (rule prod.exhaust)
  obtain c2 cm2 where sk: "SetManagedZoneKeys cm1 ?all = (c2, cm2)" by (rule prod.exhaust)
  obtain c3 cm3 where sc: "SetCorefile cm2 corefile = (c3, cm3)" by (rule prod.exhaust)
  obtain c4 cm4 where sr: "RemoveZoneFiles cm3 ?stale = (c4, cm4)" by (rule prod.exhaust)
  obtain c5 cm5 where sd: "SetManagedZoneKeys cm4 ?desired = (c5, cm5)" by (rule prod.exhaust)
  have cm5: "committed cm corefile zoneFiles prev = cm5" by (simp add: committed_def sz sk sc sr sd Let_def)
  have all: "\<forall>k \<in> set ?all. listable_key k" using lk ManagedZoneKeys_listable prev by auto
  have L1: "layout_of name (cm2, e) = expanded ?P ?D ?l" if "layout_of name (cm, e) = ?l" for e
    using layout_expand [OF dist ck(1) all, of name cm e] sz sk that by (simp add: layout_defs)
  have L3: "layout_of name (cm3, e) = switched ?P ?D corefile ?l" if "layout_of name (cm2, e) = mounted_all ?P ?D ?l" for e
    using layout_switch [OF cf, of name cm2 e] sc that by (simp add: layout_defs)
  have L5: "layout_of name (cm5, e) = after_commit ?P ?D corefile ?l" if "layout_of name (cm3, e) = unmounted ?P ?D corefile ?l" for e
  proof -
    have "corefileKey \<notin> set ?stale" "\<forall>k \<in> set ?desired. listable_key k" using ck lk by auto
    from layout_contract [OF this, of name cm3 e] show ?thesis using sr sd that by (simp add: layout_defs)
  qed
  have unchanged: "(c1 \<or> c2) \<or> cm2 = cm" "c3 \<or> cm3 = cm2" "(c4 \<or> c5) \<or> cm5 = cm3"
    using SetZoneFiles_unchanged [of cm zoneFiles] RemoveZoneFiles_unchanged [of cm3 ?stale] sz sk sc sr sd
    by (auto simp: SetManagedZoneKeys_def SetCorefile_def Let_def split: if_splits)
  note F1 = updateIfChanged_follows [where R = R, OF law unchanged(1) L1 R(1)]
    and F2 = setVolumeItems_follows [where R = R and M = ?all and P = prev and restart = False, OF law ordK name _ R(2)]
    and F3 = updateIfChanged_follows [where R = R, OF law unchanged(2) L3 R(3)]
    and F4 = setVolumeItems_follows [where R = R and M = ?desired and P = prev, OF law ordK name _ R(4)]
    and F5 = updateIfChanged_follows [where R = R, OF law unchanged(3) L5 R(5)]
  show ?thesis
    unfolding commitCoreDNS_def [abs_def] cm5 unfolding Let_def sz sk prod.case
    apply (rule concludes_then [OF F1], assumption)
    apply (rule concludes_value, hypsubst)
    apply (rule concludes_then [OF F2])
     apply (simp add: layout_defs)
    apply (rule concludes_pair)
    apply (unfold sc prod.case)
    apply (rule concludes_then [OF F3], assumption)
    apply (rule concludes_value, hypsubst)
    apply (rule concludes_then [OF F4])
     apply (simp add: layout_defs)
    apply (unfold sr sd prod.case)
    apply (rule concludes_then [OF F5], assumption)
    apply (rule concludes_value)
    apply (simp add: concludes_def)
    done
qed

lemma commitCoreDNS_protocol:
  assumes "lawful_store (Client r) states" and "is_order ordK"
    and "commitCoreDNS r ordK cm corefile zoneFiles prev reloadable hash w = (err, w')"
    and "hd (states w) = (cm, d)" and "name = CoreDNSConfigMap r"
    and "commit_ready name cm d corefile zoneFiles prev" and "safe (layout_of name (cm, d))"
  shows "grows (layout_step (proto (set prev) (keys_of zoneFiles) corefile) name) (states w) (states w')"
    and "err = None \<Longrightarrow> layout_of name (hd (states w'))
        = after_commit (set prev) (keys_of zoneFiles) corefile (layout_of name (cm, d))"
    and "err = None \<Longrightarrow> fst (hd (states w')) = committed cm corefile zoneFiles prev"
  using concludesD [OF commitCoreDNS_concludes [OF assms(1,2,5-7)] _ assms(3)] assms(4) by simp_all

section \<open>What holds of every stored state\<close>

text \<open>A predicate of layouts that every protocol step keeps holds of every state the commit stores.\<close>

lemma commitCoreDNS_invariant:
  assumes "lawful_store (Client r) states" and "is_order ordK"
    and "commitCoreDNS r ordK cm corefile zoneFiles prev reloadable hash w = (err, w')"
    and "hd (states w) = (cm, d)" and "name = CoreDNSConfigMap r"
    and "commit_ready name cm d corefile zoneFiles prev" and "safe (layout_of name (cm, d))"
    and "I (layout_of name (cm, d))"
    and "\<And>l l'. proto (set prev) (keys_of zoneFiles) corefile l l' \<Longrightarrow> I l \<Longrightarrow> I l'"
  shows "\<exists>hs. states w' = hs @ states w \<and> (\<forall>s \<in> set hs. I (layout_of name s))"
  using grows_invariant [where P = "\<lambda>s. I (layout_of name s)", OF commitCoreDNS_protocol(1) [OF assms(1-7)]] assms(4,8,9)
  by auto

lemma commitCoreDNS_all_safe:
  assumes "lawful_store (Client r) states" and "is_order ordK"
    and "commitCoreDNS r ordK cm corefile zoneFiles prev reloadable hash w = (err, w')"
    and "hd (states w) = (cm, d)" and "name = CoreDNSConfigMap r"
    and "commit_ready name cm d corefile zoneFiles prev" and "safe (layout_of name (cm, d))"
  shows "\<exists>hs. states w' = hs @ states w
     \<and> (\<forall>s \<in> set hs. safe (layout_of name s)
          \<and> tracked (set prev) (keys_of zoneFiles)
              ((dom (map_of (cm_Data cm)) - set prev) \<union> {corefileKey}) (layout_of name s))"
proof (rule commitCoreDNS_invariant [OF assms(1-7)])
  show "safe (layout_of name (cm, d)) \<and> tracked (set prev) (keys_of zoneFiles)
      ((dom (map_of (cm_Data cm)) - set prev) \<union> {corefileKey}) (layout_of name (cm, d))"
    using assms(6,7) by (auto simp: commit_ready_def tracked_def layout_of_def)
qed (use proto_safe proto_tracked in blast)

end
