(* ===== verification/Commit_Settled.thy ===== *)
theory Commit_Settled
  imports Commit_Protocol
begin

text \<open>
  The state after a commit that succeeds: nothing is left to write, and a commit of what is
  already in place writes nothing.
\<close>

section \<open>A settled state\<close>

text \<open>Nothing is left to write: files, annotation, Corefile and mounts are as asked for.\<close>

definition settled ::
    "string \<Rightarrow> coredns_state \<Rightarrow> string \<Rightarrow> (string, string) gomap \<Rightarrow> bool" where
  "settled name s corefile zoneFiles \<longleftrightarrow>
     (\<forall>(k, c) \<in> set zoneFiles. map_of (cm_Data (fst s)) k = Some c)
     \<and> get_or_empty (cm_Annotations (fst s)) ManagedZoneKeysAnnotation = join '','' (mapKeys zoneFiles)
     \<and> get_or_empty (cm_Data (fst s)) corefileKey = corefile
     \<and> (case items_of name (snd s) of None \<Rightarrow> True | Some I \<Rightarrow> keys_of zoneFiles \<subseteq> I)"

lemma ensure_nothing:
  assumes "set M \<subseteq> set P" and "set P \<subseteq> set M"
    and "case items_of name d of None \<Rightarrow> True | Some I \<Rightarrow> set M \<subseteq> I"
    and "EnsureZoneVolumeItems ord d name M P = Inr (ch, d')"
  shows "\<not> ch"
proof -
  obtain items where it: "mounted_items d name = Some items"
    and ch: "ch \<longleftrightarrow> items \<noteq> [] \<and> fst (update_items ord items M P)"
    using EnsureZoneVolumeItems_cases [where d = d and name = name and ord = ord and desired = M and prev = P] assms(4)
    by (auto split: option.splits)
  then show ?thesis
    using assms(1-3) by (auto simp: items_of_def update_items_changed)
qed

text \<open>Reading the Deployment, for what it leaves of the cluster.\<close>

abbreviation deployment_read :: "'w PrivateDNSZoneReconciler \<Rightarrow> 'w \<Rightarrow> 'w" where
  "deployment_read r w \<equiv> snd (get_deployment (Client r) (CoreDNSNamespace r) (CoreDNSDeployment r) w)"

lemma deployment_read_quiet: "lawful_store (Client r) states \<Longrightarrow> states (deployment_read r w) = states w"
  using lawful_storeD(7) unfolding quiet_def by blast

lemma setVolumeItems_nothing:
  assumes "lawful_store (Client r) states" and "set M = set P"
    and "case items_of (CoreDNSConfigMap r) (snd (hd (states w))) of None \<Rightarrow> True | Some I \<Rightarrow> set M \<subseteq> I"
    and "setVolumeItems r ordK M P False h w = (res, w')"
  shows "w' = deployment_read r w"
proof -
  note law = lawful_storeD [OF assms(1)]
  obtain g w1 where g: "get_deployment (Client r) (CoreDNSNamespace r) (CoreDNSDeployment r) w = (g, w1)" by force
  have "w' = w1"
  proof (cases g)
    case (Inl e)
    have "setVolumeItems r ordK M P False h w = (Inl (ApiError e), w1)"
      by (simp add: setVolumeItems_def g Inl)
    then show ?thesis using assms(4) by simp
  next
    case (Inr d)
    have d: "d = snd (hd (states w))" using readsD [OF law(3) g [unfolded Inr]] by simp
    show ?thesis
    proof (cases "EnsureZoneVolumeItems ordK d (CoreDNSConfigMap r) M P")
      case (Inl e)
      then have "setVolumeItems r ordK M P False h w = (Inl (GoError e), w1)"
        by (simp add: setVolumeItems_def g Inr)
      then show ?thesis using assms(4) by simp
    next
      case E: (Inr p)
      obtain ch d1 where p: "p = (ch, d1)" by force
      have "\<not> ch"
        by (rule ensure_nothing [OF _ _ _ E [unfolded p]]) (use assms(2,3) in \<open>simp_all add: d\<close>)
      then have "setVolumeItems r ordK M P False h w = (Inr (d1, False), w1)"
        by (simp add: setVolumeItems_def g Inr E p)
      then show ?thesis using assms(4) by simp
    qed
  qed
  then show ?thesis using g by simp
qed

lemma settled_keys:
  assumes "settled name s corefile zoneFiles" and "\<forall>k \<in> keys_of zoneFiles. listable_key k"
  shows "ManagedZoneKeys (fst s) = mapKeys zoneFiles"
    and "SetManagedZoneKeys (fst s) (mapKeys zoneFiles) = (False, fst s)"
proof -
  let ?desired = "mapKeys zoneFiles"
  have srt: "sort ?desired = ?desired" by (simp add: mapKeys_def sort_sorted_id)
  have "get_or_empty (cm_Annotations (fst s)) ManagedZoneKeysAnnotation = join '','' ?desired"
    using assms(1) by (simp add: settled_def)
  then show noop: "SetManagedZoneKeys (fst s) ?desired = (False, fst s)" by (simp add: SetManagedZoneKeys_def srt)
  have "ManagedZoneKeys (snd (SetManagedZoneKeys (fst s) ?desired)) = sort ?desired"
    by (rule ManagedZoneKeys_SetManagedZoneKeys) (use assms(2) in simp)
  then show "ManagedZoneKeys (fst s) = ?desired" unfolding noop snd_conv srt .
qed

lemma commit_settled_reads:
  assumes law: "lawful_store (Client r) states"
    and settled: "settled (CoreDNSConfigMap r) (hd (states w)) corefile zoneFiles"
    and keys: "\<forall>k \<in> keys_of zoneFiles. listable_key k" and dist: "distinct (map fst zoneFiles)"
    and cm: "cm = fst (hd (states w))" and prev: "prev = ManagedZoneKeys cm"
    and run: "commitCoreDNS r ordK cm corefile zoneFiles prev reloadable hash w = (err, w')"
  shows "w' = deployment_read r w \<or> w' = deployment_read r (deployment_read r w)"
proof -
  let ?desired = "mapKeys zoneFiles"
  have files: "\<forall>(k, c) \<in> set zoneFiles. map_of (cm_Data cm) k = Some c"
    and cf: "get_or_empty (cm_Data cm) corefileKey = corefile"
    and items: "case items_of (CoreDNSConfigMap r) (snd (hd (states w))) of None \<Rightarrow> True | Some I \<Rightarrow> set ?desired \<subseteq> I"
    using settled unfolding cm settled_def set_mapKeys by blast+
  note managed = settled_keys [OF settled keys, folded cm]
  have prevkeys: "prev = ?desired" unfolding prev by (rule managed(1))
  have srt: "sort ?desired = ?desired" by (simp add: mapKeys_def sort_sorted_id)
  have "distinct ?desired" using dist by (simp add: mapKeys_def)
  then have "sort (unionKeys prev ?desired) = sort ?desired"
    by (intro sort_cong_set) (simp_all add: distinct_unionKeys prevkeys)
  moreover have "sort (unionKeys prev ?desired) = unionKeys prev ?desired"
    by (simp add: unionKeys_def sort_sorted_id)
  ultimately have all: "unionKeys prev ?desired = ?desired" unfolding srt by metis
  have stale: "subtractKeys prev ?desired = []" using prevkeys by (simp add: subtractKeys_def)
  have sz: "SetZoneFiles cm zoneFiles = (False, cm)"
  proof -
    have "\<not> fst (SetZoneFiles cm zoneFiles)" using SetZoneFiles_data(2) [OF dist, of cm] files by auto
    with SetZoneFiles_unchanged [OF this] show ?thesis by (metis prod.collapse)
  qed
  have sc: "SetCorefile cm corefile = (False, cm)" by (simp add: SetCorefile_def cf)
  have sr: "RemoveZoneFiles cm [] = (False, cm)" by (simp add: RemoveZoneFiles_def)
  obtain u2 w2 where s2: "setVolumeItems r ordK ?desired prev False [] w = (u2, w2)" by force
  have w2: "w2 = deployment_read r w"
    by (rule setVolumeItems_nothing [OF law _ items s2]) (simp add: prevkeys)
  obtain u4 w4 where s4: "setVolumeItems r ordK ?desired prev False hash w2 = (u4, w4)" by force
  have w4: "w4 = deployment_read r w2"
    by (rule setVolumeItems_nothing [OF law _ _ s4])
      (use items in \<open>simp_all add: prevkeys w2 deployment_read_quiet [OF law]\<close>)
  have "commitCoreDNS r ordK cm corefile zoneFiles prev reloadable hash w =
      (case u2 of Inl e \<Rightarrow> (Some e, w2)
       | Inr _ \<Rightarrow> (case u4 of Inl e \<Rightarrow> (Some e, w4) | Inr _ \<Rightarrow> (None, w4)))"
    by (cases u2; cases u4)
       (auto simp: commitCoreDNS_def sz all stale managed(2) updateIfChanged_def sc sr s2 s4 Let_def)
  then show ?thesis
    using run w2 w4 by (auto split: sum.splits)
qed

lemma commit_settled_writes_nothing:
  assumes "lawful_store (Client r) states"
    and "settled (CoreDNSConfigMap r) (hd (states w)) corefile zoneFiles"
    and "\<forall>k \<in> keys_of zoneFiles. listable_key k" and "distinct (map fst zoneFiles)"
    and "cm = fst (hd (states w))" and "prev = ManagedZoneKeys cm"
    and "commitCoreDNS r ordK cm corefile zoneFiles prev reloadable hash w = (err, w')"
  shows "states w' = states w"
  using commit_settled_reads [OF assms] deployment_read_quiet [OF assms(1)] by auto

text \<open>A commit that succeeds leaves a settled state.\<close>

lemma committed_data:
  assumes cf: "corefile \<noteq> []" and dist: "distinct (map fst zoneFiles)"
    and ck: "corefileKey \<notin> keys_of zoneFiles" "corefileKey \<notin> set prev"
  shows "map_of (cm_Data (committed cm corefile zoneFiles prev)) k
      = (if k = corefileKey then Some corefile
         else case map_of zoneFiles k of Some c \<Rightarrow> Some c
         | None \<Rightarrow> if k \<in> set prev then None else map_of (cm_Data cm) k)"
proof -
  let ?cm1 = "snd (SetManagedZoneKeys (snd (SetZoneFiles cm zoneFiles)) (unionKeys prev (mapKeys zoneFiles)))"
  have d1: "map_of (cm_Data ?cm1) = map_of (cm_Data cm) ++ map_of zoneFiles"
    by (simp add: frame_simps SetZoneFiles_data(1) [OF dist])
  have d2: "map_of (cm_Data (snd (SetCorefile ?cm1 corefile))) =
      (map_of (cm_Data cm) ++ map_of zoneFiles)(corefileKey \<mapsto> corefile)"
    using cf unfolding SetCorefile_data(1) d1 [symmetric]
    by (auto simp: get_or_empty_def fun_eq_iff split: option.splits)
  have data: "map_of (cm_Data (committed cm corefile zoneFiles prev)) =
      ((map_of (cm_Data cm) ++ map_of zoneFiles)(corefileKey \<mapsto> corefile)) |` (- (set prev - keys_of zoneFiles))"
    by (simp add: committed_def Let_def frame_simps RemoveZoneFiles_data(1) d2)
  show ?thesis
    using ck map_of_eq_None_iff [of zoneFiles k]
    by (auto simp: data restrict_map_def map_add_def split: option.splits)
qed

lemma committed_file:
  assumes "corefile \<noteq> []" and dist: "distinct (map fst zoneFiles)"
    and ck: "corefileKey \<notin> keys_of zoneFiles" "corefileKey \<notin> set prev" and kc: "(k, c) \<in> set zoneFiles"
  shows "map_of (cm_Data (committed cm corefile zoneFiles prev)) k = Some c"
proof -
  have "map_of zoneFiles k = Some c" using kc by (rule map_of_is_SomeI [OF dist])
  moreover have "k \<noteq> corefileKey" using kc ck(1) by force
  ultimately show ?thesis by (simp add: committed_data [OF assms(1-4)])
qed

lemma committed_settled:
  assumes "commit_ready name cm d corefile zoneFiles prev"
  shows "\<forall>(k, c) \<in> set zoneFiles. map_of (cm_Data (committed cm corefile zoneFiles prev)) k = Some c"
    and "get_or_empty (cm_Annotations (committed cm corefile zoneFiles prev)) ManagedZoneKeysAnnotation
      = join '','' (mapKeys zoneFiles)"
    and "get_or_empty (cm_Data (committed cm corefile zoneFiles prev)) corefileKey = corefile"
    and "map_of (cm_Data (committed cm corefile zoneFiles prev)) k
      = (if k = corefileKey then Some corefile
         else case map_of zoneFiles k of Some c \<Rightarrow> Some c
         | None \<Rightarrow> if k \<in> set prev then None else map_of (cm_Data cm) k)"
proof -
  from assms have C: "corefile \<noteq> []" "distinct (map fst zoneFiles)" "corefileKey \<notin> keys_of zoneFiles" "corefileKey \<notin> set prev"
    by (auto simp: commit_ready_def)
  show "\<forall>(k, c) \<in> set zoneFiles. map_of (cm_Data (committed cm corefile zoneFiles prev)) k = Some c"
    using committed_file [OF C] by blast
  show "map_of (cm_Data (committed cm corefile zoneFiles prev)) k
      = (if k = corefileKey then Some corefile
         else case map_of zoneFiles k of Some c \<Rightarrow> Some c
         | None \<Rightarrow> if k \<in> set prev then None else map_of (cm_Data cm) k)"
    by (rule committed_data [OF C])
  show "get_or_empty (cm_Data (committed cm corefile zoneFiles prev)) corefileKey = corefile"
    by (simp add: get_or_empty_def committed_data [OF C])
  have "sort (mapKeys zoneFiles) = mapKeys zoneFiles" by (simp add: mapKeys_def sort_sorted_id)
  then show "get_or_empty (cm_Annotations (committed cm corefile zoneFiles prev)) ManagedZoneKeysAnnotation
      = join '','' (mapKeys zoneFiles)"
    by (simp add: committed_def Let_def SetManagedZoneKeys_value)
qed

lemma commitCoreDNS_settles:
  assumes "lawful_store (Client r) states" and "is_order ordK"
    and "commitCoreDNS r ordK cm corefile zoneFiles prev reloadable hash w = (None, w')"
    and "hd (states w) = (cm, d)"
    and "commit_ready (CoreDNSConfigMap r) cm d corefile zoneFiles prev"
    and "safe (layout_of (CoreDNSConfigMap r) (cm, d))"
  shows "settled (CoreDNSConfigMap r) (hd (states w')) corefile zoneFiles"
proof -
  note P = commitCoreDNS_protocol(2,3) [OF assms(1-4) refl assms(5,6) refl]
  from arg_cong [OF P(1), of l_items]
  have "case items_of (CoreDNSConfigMap r) (snd (hd (states w'))) of None \<Rightarrow> True | Some I \<Rightarrow> keys_of zoneFiles \<subseteq> I"
    by (auto simp: layout_of_def after_commit_def remount_def Let_def split: option.splits if_splits)
  then show ?thesis
    using committed_settled(1-3) [OF assms(5)] by (simp add: settled_def P(2))
qed

end
