(* ===== verification/Controller_Properties.thy ===== *)
theory Controller_Properties
  imports Commit_Settled
begin

text \<open>
  The properties of the controller, each followed by an application at a concrete input
  where it has hypotheses. The API server of these inputs is the simulated one, with calls
  that are refused or that take effect and report a failure.
\<close>

section \<open>Concrete inputs\<close>

definition sample_configmap :: ConfigMap where
  "sample_configmap =
     \<lparr>cm_Name = ''coredns'', cm_Namespace = ''kube-system'', cm_Annotations = [],
      cm_Data = [(''Corefile'', ''.:53 { }'')]\<rparr>"

definition sample_coredns :: Deployment where
  "sample_coredns =
     \<lparr>dp_Name = ''coredns'', dp_Namespace = ''kube-system'',
      dp_Volumes = [\<lparr>v_Name = ''config'', v_ConfigMap = Some \<lparr>cvs_Name = ''coredns'',
        cvs_Items = [\<lparr>kp_Key = ''Corefile'', kp_Path = ''Corefile''\<rparr>]\<rparr>\<rparr>],
      dp_PodAnnotations = []\<rparr>"

definition sample_sim :: "fault list \<Rightarrow> sim" where
  "sample_sim faults =
     \<lparr>sim_zones = [], sim_records = [], sim_coredns = [(sample_configmap, sample_coredns)], sim_faults = faults\<rparr>"

definition sample_reconciler :: "sim PrivateDNSZoneReconciler" where
  "sample_reconciler =
     \<lparr>Client = sim_client, CoreDNSNamespace = ''kube-system'', CoreDNSConfigMap = ''coredns'',
      CoreDNSDeployment = ''coredns''\<rparr>"

definition sample_files :: "(string, string) gomap" where
  "sample_files = [(''a.db'', ''zone'')]"

definition sample_new_corefile :: string where
  "sample_new_corefile = ''    file /etc/coredns/a.db a''"

lemma sample_named:
  "named_files sample_new_corefile = {''a.db''}" "named_files ''.:53 { }'' = {}"
  by code_simp+

lemma sample_states [simp]: "hd (sim_states (sample_sim faults)) = (sample_configmap, sample_coredns)"
  by (simp add: sim_states_def sample_sim_def)

lemma sample_lawful: "lawful_store (Client sample_reconciler) sim_states"
  by (simp add: sample_reconciler_def lawful_sim)

lemma sample_no_keys: "ManagedZoneKeys sample_configmap = []"
  by (simp add: ManagedZoneKeys_def sample_configmap_def get_or_empty_def)

lemma sample_layout:
  "layout_of (CoreDNSConfigMap sample_reconciler) (sample_configmap, sample_coredns) =
     \<lparr>l_data = {''Corefile''}, l_items = Some {''Corefile''}, l_text = ''.:53 { }'', l_managed = {}\<rparr>"
  by (simp add: layout_of_def sample_no_keys sample_reconciler_def items_of_def mounted_items_def mounts_def
      sample_coredns_def) (simp add: sample_configmap_def get_or_empty_def corefileKey_def)

lemma sample_safe: "safe (layout_of (CoreDNSConfigMap sample_reconciler) (sample_configmap, sample_coredns))"
  by (simp add: sample_layout safe_def sample_named)

lemma sample_listable: "\<forall>k \<in> keys_of sample_files. listable_key k"
  by (simp add: sample_files_def listable_key_def trim_space_all_graphic graphic_def)

lemma sample_ready:
  "commit_ready (CoreDNSConfigMap sample_reconciler) sample_configmap sample_coredns sample_new_corefile sample_files []"
  using sample_listable
  by (simp add: commit_ready_def sample_no_keys sample_named sample_files_def corefileKey_def)
     (simp add: sample_new_corefile_def)

section \<open>Committing to CoreDNS\<close>

text \<open>Both invariants of the mounted ConfigMap hold of every state commitCoreDNS ever stores, however
  the API calls fail and wherever the sequence stops: every mounted item exists in the
  ConfigMap, every file the Corefile names exists and is mounted, and every key recorded as
  managed exists.\<close>
theorem commitCoreDNS_safe:
  assumes "lawful_store (Client r) states" and "is_order ordK"
    and "commitCoreDNS r ordK cm corefile zoneFiles prev reloadable hash w = (err, w')"
    and "hd (states w) = (cm, d)"
    and "commit_ready (CoreDNSConfigMap r) cm d corefile zoneFiles prev"
    and "safe (layout_of (CoreDNSConfigMap r) (cm, d))"
  shows "\<exists>hs. states w' = hs @ states w \<and> (\<forall>s \<in> set hs. safe (layout_of (CoreDNSConfigMap r) s))"
  using commitCoreDNS_all_safe [OF assms(1-4) refl assms(5,6)] by blast

theorem commitCoreDNS_safe_witness:
  "\<exists>err w' hs. commitCoreDNS sample_reconciler rev sample_configmap sample_new_corefile sample_files [] False ''h''
        (sample_sim [Works, Works, LostReply, Refused]) = (err, w')
     \<and> sim_states w' = hs @ sim_states (sample_sim [Works, Works, LostReply, Refused])
     \<and> (\<forall>s \<in> set hs. safe (layout_of ''coredns'' s))"
proof -
  obtain err w' where run: "commitCoreDNS sample_reconciler rev sample_configmap sample_new_corefile sample_files [] False ''h''
        (sample_sim [Works, Works, LostReply, Refused]) = (err, w')" by force
  moreover have "CoreDNSConfigMap sample_reconciler = ''coredns''" by (simp add: sample_reconciler_def)
  ultimately show ?thesis
    using commitCoreDNS_safe [OF sample_lawful is_order_rev run sample_states sample_ready sample_safe] by simp
qed

text \<open>C24. commitCoreDNS refines the protocol of expanding, switching and contracting: each stored state
  follows from the one before by a protocol step, and if it returns no error, the layout is
  the one after all five steps.\<close>
theorem commitCoreDNS_refines:
  assumes "lawful_store (Client r) states" and "is_order ordK"
    and "commitCoreDNS r ordK cm corefile zoneFiles prev reloadable hash w = (err, w')"
    and "hd (states w) = (cm, d)"
    and "commit_ready (CoreDNSConfigMap r) cm d corefile zoneFiles prev"
    and "safe (layout_of (CoreDNSConfigMap r) (cm, d))"
  shows "grows (\<lambda>s s'. proto (set prev) (keys_of zoneFiles) corefile
             (layout_of (CoreDNSConfigMap r) s) (layout_of (CoreDNSConfigMap r) s')) (states w) (states w')
     \<and> (err = None \<longrightarrow> layout_of (CoreDNSConfigMap r) (hd (states w'))
          = after_commit (set prev) (keys_of zoneFiles) corefile (layout_of (CoreDNSConfigMap r) (cm, d)))"
  using commitCoreDNS_protocol [OF assms(1-4) refl assms(5,6)] by blast

theorem commitCoreDNS_refines_witness:
  "\<exists>err w'. commitCoreDNS sample_reconciler rev sample_configmap sample_new_corefile sample_files [] True ''h''
        (sample_sim []) = (err, w')
     \<and> (err = None \<longrightarrow> l_items (layout_of ''coredns'' (hd (sim_states w'))) = Some {''Corefile'', ''a.db''})"
proof -
  obtain err w' where run: "commitCoreDNS sample_reconciler rev sample_configmap sample_new_corefile sample_files [] True ''h''
        (sample_sim []) = (err, w')" by force
  have name: "CoreDNSConfigMap sample_reconciler = ''coredns''" by (simp add: sample_reconciler_def)
  have "l_items (after_commit (set []) (keys_of sample_files) sample_new_corefile
      (layout_of (CoreDNSConfigMap sample_reconciler) (sample_configmap, sample_coredns))) = Some {''Corefile'', ''a.db''}"
    unfolding sample_layout by (auto simp: after_commit_def remount_def sample_files_def)
  with commitCoreDNS_refines [OF sample_lawful is_order_rev run sample_states sample_ready sample_safe] run
  show ?thesis unfolding name by metis
qed

text \<open>C25. The operator never loses track of a key it created: in every state commitCoreDNS stores, each
  key of the ConfigMap other than the Corefile was there before and not managed, or is
  recorded as managed.\<close>
theorem commitCoreDNS_no_orphans:
  assumes "lawful_store (Client r) states" and "is_order ordK"
    and "commitCoreDNS r ordK cm corefile zoneFiles prev reloadable hash w = (err, w')"
    and "hd (states w) = (cm, d)"
    and "commit_ready (CoreDNSConfigMap r) cm d corefile zoneFiles prev"
    and "safe (layout_of (CoreDNSConfigMap r) (cm, d))"
  shows "\<exists>hs. states w' = hs @ states w \<and>
     (\<forall>s \<in> set hs. dom (map_of (cm_Data (fst s)))
        \<subseteq> (dom (map_of (cm_Data cm)) - set prev) \<union> {corefileKey} \<union> set (ManagedZoneKeys (fst s)))"
proof -
  from commitCoreDNS_all_safe [OF assms(1-4) refl assms(5,6)] obtain hs where hs: "states w' = hs @ states w"
    and t: "\<forall>s \<in> set hs. tracked (set prev) (keys_of zoneFiles)
        ((dom (map_of (cm_Data cm)) - set prev) \<union> {corefileKey}) (layout_of (CoreDNSConfigMap r) s)"
    by blast
  show ?thesis
    by (intro exI [of _ hs] conjI hs ballI) (use t in \<open>simp add: tracked_def layout_of_def\<close>)
qed

theorem commitCoreDNS_no_orphans_witness:
  "\<exists>err w' hs. commitCoreDNS sample_reconciler rev sample_configmap sample_new_corefile sample_files [] False ''h''
        (sample_sim [LostReply]) = (err, w')
     \<and> sim_states w' = hs @ sim_states (sample_sim [LostReply])
     \<and> (\<forall>s \<in> set hs. dom (map_of (cm_Data (fst s)))
        \<subseteq> (dom (map_of (cm_Data sample_configmap)) - set []) \<union> {corefileKey} \<union> set (ManagedZoneKeys (fst s)))"
proof -
  obtain err w' where run: "commitCoreDNS sample_reconciler rev sample_configmap sample_new_corefile sample_files [] False ''h''
        (sample_sim [LostReply]) = (err, w')" by force
  from commitCoreDNS_no_orphans [OF sample_lawful is_order_rev run sample_states sample_ready sample_safe] run
  show ?thesis by metis
qed

text \<open>A commit that returns no error has written exactly what was asked: the ConfigMap holds the new
  Corefile, the given zone files, none of the keys managed before and no longer wanted, and
  every other key as it was; its annotation lists the given files, which are all mounted.\<close>
theorem commitCoreDNS_result:
  assumes "lawful_store (Client r) states" and "is_order ordK"
    and "commitCoreDNS r ordK cm corefile zoneFiles prev reloadable hash w = (None, w')"
    and "hd (states w) = (cm, d)"
    and "commit_ready (CoreDNSConfigMap r) cm d corefile zoneFiles prev"
    and "safe (layout_of (CoreDNSConfigMap r) (cm, d))"
  shows "map_of (cm_Data (fst (hd (states w')))) k
      = (if k = corefileKey then Some corefile
         else case map_of zoneFiles k of Some c \<Rightarrow> Some c
         | None \<Rightarrow> if k \<in> set prev then None else map_of (cm_Data cm) k)
    \<and> settled (CoreDNSConfigMap r) (hd (states w')) corefile zoneFiles"
  using commitCoreDNS_protocol [OF assms(1-4) refl assms(5,6)] committed_settled(4) [OF assms(5)]
    commitCoreDNS_settles [OF assms]
  by simp

lemma sample_commit_ok:
  "fst (commitCoreDNS sample_reconciler (\<lambda>xs. xs) sample_configmap sample_new_corefile sample_files [] True [] (sample_sim [])) = None"
  by (simp add: commitCoreDNS_def sample_reconciler_def sample_configmap_def sample_files_def sample_sim_def
      mapKeys_def subtractKeys_def unionKeys_def containsString_def SetZoneFiles_def set_file_step_def
      SetManagedZoneKeys_def get_or_empty_def ManagedZoneKeysAnnotation_def Let_def updateIfChanged_def
      sim_client_def sim_write_def sim_next_def sim_read_def setVolumeItems_def EnsureZoneVolumeItems_def
      update_items_def sort_slice_def sample_coredns_def sim_states_def SetCorefile_def corefileKey_def
      RemoveZoneFiles_def sample_new_corefile_def)

theorem commitCoreDNS_result_witness:
  "\<exists>w'. commitCoreDNS sample_reconciler (\<lambda>xs. xs) sample_configmap sample_new_corefile sample_files [] True []
        (sample_sim []) = (None, w')
     \<and> map_of (cm_Data (fst (hd (sim_states w')))) ''a.db'' = Some ''zone''
     \<and> map_of (cm_Data (fst (hd (sim_states w')))) ''Corefile'' = Some sample_new_corefile"
proof -
  obtain w' where run: "commitCoreDNS sample_reconciler (\<lambda>xs. xs) sample_configmap sample_new_corefile sample_files [] True []
        (sample_sim []) = (None, w')"
    using sample_commit_ok by (metis prod.collapse)
  note R = commitCoreDNS_result [OF sample_lawful is_order_id run sample_states sample_ready sample_safe]
  from R [of "''a.db''"] R [of "''Corefile''"] run show ?thesis
    by (simp add: sample_files_def corefileKey_def)
qed

text \<open>Committing again what is already in place stores nothing at all, so a steady-state reconcile
  does not wake itself up.\<close>
theorem commitCoreDNS_steady:
  assumes "lawful_store (Client r) states"
    and "settled (CoreDNSConfigMap r) (hd (states w)) corefile zoneFiles"
    and "\<forall>k \<in> keys_of zoneFiles. listable_key k" and "distinct (map fst zoneFiles)"
    and "cm = fst (hd (states w))"
    and "commitCoreDNS r ordK cm corefile zoneFiles (ManagedZoneKeys cm) reloadable hash w = (err, w')"
  shows "states w' = states w"
  using commit_settled_writes_nothing [OF assms(1-5) refl assms(6)] .

theorem commitCoreDNS_steady_witness:
  "\<exists>w1 err w2. commitCoreDNS sample_reconciler (\<lambda>xs. xs) sample_configmap sample_new_corefile sample_files [] True []
        (sample_sim []) = (None, w1)
     \<and> commitCoreDNS sample_reconciler (\<lambda>xs. xs) (fst (hd (sim_states w1))) sample_new_corefile sample_files
        (ManagedZoneKeys (fst (hd (sim_states w1)))) True [] w1 = (err, w2)
     \<and> sim_states w2 = sim_states w1"
proof -
  obtain w1 where run: "commitCoreDNS sample_reconciler (\<lambda>xs. xs) sample_configmap sample_new_corefile sample_files [] True []
        (sample_sim []) = (None, w1)"
    using sample_commit_ok by (metis prod.collapse)
  note S = commitCoreDNS_settles [OF sample_lawful is_order_id run sample_states sample_ready sample_safe]
  have "distinct (map fst sample_files)" by (simp add: sample_files_def)
  from commitCoreDNS_steady [OF sample_lawful S sample_listable this refl] run show ?thesis
    by (metis prod.collapse)
qed

end
