(* ===== verification/Controller_Conditions.thy ===== *)
theory Controller_Conditions
  imports Api_Types
begin

text \<open>
  \<^verbatim>\<open>internal/controller/conditions.go\<close>: the condition types of a zone and of a record, and
  \<^verbatim>\<open>applyConditions\<close>. The two helpers of \<^verbatim>\<open>k8s.io/apimachinery/pkg/api/meta\<close> it calls are
  parameters; \<open>lawful_conditions\<close> states their documented behaviour. The specification is a
  lookup: what a reader finds under each condition type after a pass.
\<close>

section \<open>Condition types\<close>

definition ConditionTemplateRendered :: string where [simp]: "ConditionTemplateRendered = ''TemplateRendered''"
definition ConditionZoneFileRendered :: string where [simp]: "ConditionZoneFileRendered = ''ZoneFileRendered''"
definition ConditionCorefilePatched :: string where [simp]: "ConditionCorefilePatched = ''CorefilePatched''"
definition ConditionVolumeMounted :: string where [simp]: "ConditionVolumeMounted = ''VolumeMounted''"
definition ConditionReloadTriggered :: string where [simp]: "ConditionReloadTriggered = ''ReloadTriggered''"
definition ConditionLastKnownGoodApplied :: string where
  [simp]: "ConditionLastKnownGoodApplied = ''LastKnownGoodApplied''"
definition ConditionRecordsExcluded :: string where [simp]: "ConditionRecordsExcluded = ''RecordsExcluded''"
definition ConditionReady :: string where [simp]: "ConditionReady = ''Ready''"
definition ConditionAccepted :: string where [simp]: "ConditionAccepted = ''Accepted''"

definition zoneConditionTypes :: "string list" where
  "zoneConditionTypes =
     [ConditionTemplateRendered, ConditionZoneFileRendered, ConditionCorefilePatched, ConditionVolumeMounted,
      ConditionReloadTriggered, ConditionLastKnownGoodApplied, ConditionRecordsExcluded, ConditionReady]"

text \<open>The values \<^verbatim>\<open>metav1.ConditionTrue\<close> and \<^verbatim>\<open>metav1.ConditionFalse\<close>.\<close>

abbreviation ConditionTrue :: string where "ConditionTrue \<equiv> ''True''"
abbreviation ConditionFalse :: string where "ConditionFalse \<equiv> ''False''"

text \<open>The transition time of a new condition is the zero time.\<close>

definition condition :: "string \<Rightarrow> string \<Rightarrow> string \<Rightarrow> string \<Rightarrow> int64 \<Rightarrow> Condition" where
  "condition conditionType status reason message generation =
     \<lparr>c_Type = conditionType, c_Status = status, c_ObservedGeneration = generation,
      c_LastTransitionTime = 0, c_Reason = reason, c_Message = message\<rparr>"

lemma condition_sel [simp]:
  "c_Type (condition t s r m g) = t" "c_Status (condition t s r m g) = s"
  "c_Reason (condition t s r m g) = r" "c_Message (condition t s r m g) = m"
  "c_ObservedGeneration (condition t s r m g) = g"
  by (simp_all add: condition_def)

section \<open>The helpers of apimachinery\<close>

record conditions_lib =
  SetStatusCondition :: "Condition list \<Rightarrow> Condition \<Rightarrow> Condition list"
  RemoveStatusCondition :: "Condition list \<Rightarrow> string \<Rightarrow> Condition list"

definition applyConditions ::
    "conditions_lib \<Rightarrow> Condition list \<Rightarrow> Condition list \<Rightarrow> string list \<Rightarrow> Condition list" where
  "applyConditions lib existing desired owned =
     (let (conditions, wanted) =
        foldl (\<lambda>(conditions, wanted) cond.
            (SetStatusCondition lib conditions cond, List.insert (c_Type cond) wanted)) (existing, []) desired
      in foldl (\<lambda>conditions conditionType.
            if conditionType \<in> set wanted then conditions else RemoveStatusCondition lib conditions conditionType)
          conditions owned)"

text \<open>
  What is documented of the helpers, on lists with one condition for each type: a new type
  is appended, with some transition time; a condition of an existing type is replaced in
  place, and its transition time only moves when its status changes; removing drops the
  type and nothing else.
\<close>

definition cond_of :: "Condition list \<Rightarrow> string \<Rightarrow> Condition option" where
  "cond_of cs t = find (\<lambda>c. c_Type c = t) cs"

abbreviation one_each :: "Condition list \<Rightarrow> bool" where
  "one_each cs \<equiv> distinct (map c_Type cs)"

definition lawful_conditions :: "conditions_lib \<Rightarrow> bool" where
  "lawful_conditions lib \<longleftrightarrow>
     (\<forall>cs c. one_each cs \<longrightarrow>
        (case cond_of cs (c_Type c) of
           None \<Rightarrow> \<exists>now. SetStatusCondition lib cs c = cs @ [c\<lparr>c_LastTransitionTime := now\<rparr>]
         | Some e \<Rightarrow> \<exists>now. (c_Status e = c_Status c \<longrightarrow> now = c_LastTransitionTime e)
             \<and> SetStatusCondition lib cs c
                 = map (\<lambda>x. if c_Type x = c_Type c then c\<lparr>c_LastTransitionTime := now\<rparr> else x) cs))
     \<and> (\<forall>cs t. RemoveStatusCondition lib cs t = filter (\<lambda>c. c_Type c \<noteq> t) cs)"

text \<open>A library that keeps a clock satisfies it.\<close>

definition clock_lib :: "nat \<Rightarrow> conditions_lib" where
  "clock_lib now =
     \<lparr>SetStatusCondition = (\<lambda>cs c.
        case cond_of cs (c_Type c) of
          None \<Rightarrow> cs @ [c\<lparr>c_LastTransitionTime := now\<rparr>]
        | Some e \<Rightarrow>
            map (\<lambda>x. if c_Type x = c_Type c
              then c\<lparr>c_LastTransitionTime := (if c_Status e = c_Status c then c_LastTransitionTime e else now)\<rparr>
              else x) cs),
      RemoveStatusCondition = (\<lambda>cs t. filter (\<lambda>c. c_Type c \<noteq> t) cs)\<rparr>"

lemma lawful_clock: "lawful_conditions (clock_lib now)"
  by (auto simp: lawful_conditions_def clock_lib_def split: option.splits)

section \<open>Lookups\<close>

lemma cond_of_Nil [simp]: "cond_of [] t = None"
  by (simp add: cond_of_def)

lemma cond_of_Cons [simp]: "cond_of (c # cs) t = (if c_Type c = t then Some c else cond_of cs t)"
  by (simp add: cond_of_def)

lemma cond_of_append: "cond_of (xs @ ys) t = (case cond_of xs t of None \<Rightarrow> cond_of ys t | Some c \<Rightarrow> Some c)"
  by (induction xs) auto

lemma cond_of_None: "cond_of cs t = None \<longleftrightarrow> t \<notin> c_Type ` set cs"
  by (induction cs) auto

lemma cond_of_Some: "cond_of cs t = Some c \<Longrightarrow> c \<in> set cs \<and> c_Type c = t"
  by (induction cs) (auto split: if_splits)

lemma cond_of_mem: "one_each cs \<Longrightarrow> c \<in> set cs \<Longrightarrow> cond_of cs (c_Type c) = Some c"
  by (induction cs) (auto simp: image_iff)

lemma cond_of_filter: "cond_of (filter (\<lambda>c. P (c_Type c)) cs) t = (if P t then cond_of cs t else None)"
  by (induction cs) auto

lemma cond_of_replace:
  "c_Type c = u \<Longrightarrow>
   cond_of (map (\<lambda>x. if c_Type x = u then c else x) cs) t = (if t = u \<and> cond_of cs u \<noteq> None then Some c else cond_of cs t)"
  by (induction cs) auto

lemma types_replace: "c_Type c = u \<Longrightarrow> map c_Type (map (\<lambda>x. if c_Type x = u then c else x) cs) = map c_Type cs"
  by (induction cs) auto

section \<open>One update\<close>

text \<open>The condition that a lookup finds after setting \<open>c\<close> over \<open>old\<close>: its own fields, and the
  transition time of \<open>old\<close> when the status did not change.\<close>

definition updates :: "Condition option \<Rightarrow> Condition \<Rightarrow> Condition \<Rightarrow> bool" where
  "updates old c c' \<longleftrightarrow>
     (\<exists>now. c' = c\<lparr>c_LastTransitionTime := now\<rparr>
        \<and> (\<forall>e. old = Some e \<and> c_Status e = c_Status c \<longrightarrow> now = c_LastTransitionTime e))"

lemma lawful_conditionsD:
  assumes "lawful_conditions lib"
  shows "one_each cs \<Longrightarrow> cond_of cs (c_Type c) = None
      \<Longrightarrow> \<exists>now. SetStatusCondition lib cs c = cs @ [c\<lparr>c_LastTransitionTime := now\<rparr>]"
    and "one_each cs \<Longrightarrow> cond_of cs (c_Type c) = Some e
      \<Longrightarrow> \<exists>now. (c_Status e = c_Status c \<longrightarrow> now = c_LastTransitionTime e)
        \<and> SetStatusCondition lib cs c
            = map (\<lambda>x. if c_Type x = c_Type c then c\<lparr>c_LastTransitionTime := now\<rparr> else x) cs"
    and "RemoveStatusCondition lib cs t = filter (\<lambda>c. c_Type c \<noteq> t) cs"
proof -
  note L = assms [unfolded lawful_conditions_def]
  note S = L [THEN conjunct1, THEN spec [where x = cs], THEN spec [where x = c]]
  show "one_each cs \<Longrightarrow> cond_of cs (c_Type c) = None
      \<Longrightarrow> \<exists>now. SetStatusCondition lib cs c = cs @ [c\<lparr>c_LastTransitionTime := now\<rparr>]"
    using S by simp
  show "one_each cs \<Longrightarrow> cond_of cs (c_Type c) = Some e
      \<Longrightarrow> \<exists>now. (c_Status e = c_Status c \<longrightarrow> now = c_LastTransitionTime e)
        \<and> SetStatusCondition lib cs c
            = map (\<lambda>x. if c_Type x = c_Type c then c\<lparr>c_LastTransitionTime := now\<rparr> else x) cs"
    using S by simp
  show "RemoveStatusCondition lib cs t = filter (\<lambda>c. c_Type c \<noteq> t) cs" using L by blast
qed

lemma updatesI:
  "(\<And>e. old = Some e \<Longrightarrow> c_Status e = c_Status c \<Longrightarrow> now = c_LastTransitionTime e)
   \<Longrightarrow> updates old c (c\<lparr>c_LastTransitionTime := now\<rparr>)"
  unfolding updates_def by blast

lemma SetStatusCondition_cases:
  assumes "lawful_conditions lib" and "one_each cs"
  obtains c' where "updates (cond_of cs (c_Type c)) c c'" "c_Type c' = c_Type c"
    "SetStatusCondition lib cs c =
       (if cond_of cs (c_Type c) = None then cs @ [c']
        else map (\<lambda>x. if c_Type x = c_Type c then c' else x) cs)"
proof (cases "cond_of cs (c_Type c)")
  case None
  from lawful_conditionsD(1) [OF assms None] obtain now
    where "SetStatusCondition lib cs c = cs @ [c\<lparr>c_LastTransitionTime := now\<rparr>]" ..
  then show ?thesis using None by (intro that [of "c\<lparr>c_LastTransitionTime := now\<rparr>"] updatesI) simp_all
next
  case (Some e)
  from lawful_conditionsD(2) [OF assms Some] obtain now where "c_Status e = c_Status c \<longrightarrow> now = c_LastTransitionTime e"
    "SetStatusCondition lib cs c = map (\<lambda>x. if c_Type x = c_Type c then c\<lparr>c_LastTransitionTime := now\<rparr> else x) cs"
    by blast
  then show ?thesis using Some by (intro that [of "c\<lparr>c_LastTransitionTime := now\<rparr>"] updatesI) simp_all
qed

lemma SetStatusCondition_one_each:
  assumes "lawful_conditions lib" and "one_each cs"
  shows "one_each (SetStatusCondition lib cs c)"
proof -
  obtain c' where c': "c_Type c' = c_Type c" and s: "SetStatusCondition lib cs c =
       (if cond_of cs (c_Type c) = None then cs @ [c']
        else map (\<lambda>x. if c_Type x = c_Type c then c' else x) cs)"
    by (rule SetStatusCondition_cases [OF assms, of c])
  show ?thesis
  proof (cases "cond_of cs (c_Type c) = None")
    case True
    then have "SetStatusCondition lib cs c = cs @ [c']" using s by simp
    then show ?thesis using assms(2) c' True by (simp add: cond_of_None)
  next
    case False
    then have "map c_Type (SetStatusCondition lib cs c) = map c_Type cs"
      using types_replace [OF c', of cs] s by (simp only: if_False)
    then show ?thesis using assms(2) by simp
  qed
qed

lemma SetStatusCondition_lookup:
  assumes "lawful_conditions lib" and "one_each cs"
  shows "\<exists>c'. cond_of (SetStatusCondition lib cs c) (c_Type c) = Some c' \<and> updates (cond_of cs (c_Type c)) c c'"
    and "t \<noteq> c_Type c \<Longrightarrow> cond_of (SetStatusCondition lib cs c) t = cond_of cs t"
proof -
  obtain c' where c': "updates (cond_of cs (c_Type c)) c c'" "c_Type c' = c_Type c"
    and s: "SetStatusCondition lib cs c =
       (if cond_of cs (c_Type c) = None then cs @ [c']
        else map (\<lambda>x. if c_Type x = c_Type c then c' else x) cs)"
    by (rule SetStatusCondition_cases [OF assms, of c])
  show "\<exists>c'. cond_of (SetStatusCondition lib cs c) (c_Type c) = Some c' \<and> updates (cond_of cs (c_Type c)) c c'"
    using c' by (intro exI [of _ c']) (auto simp: s cond_of_append cond_of_replace)
  show "t \<noteq> c_Type c \<Longrightarrow> cond_of (SetStatusCondition lib cs c) t = cond_of cs t"
    using c'(2) by (auto simp: s cond_of_append cond_of_replace split: option.splits)
qed

text \<open>A condition that is already there, up to its transition time, is left as it is.\<close>

definition present :: "Condition list \<Rightarrow> Condition \<Rightarrow> bool" where
  "present cs c \<longleftrightarrow> (\<exists>now. cond_of cs (c_Type c) = Some (c\<lparr>c_LastTransitionTime := now\<rparr>))"

lemma SetStatusCondition_present:
  assumes "lawful_conditions lib" and "one_each cs" and "present cs c"
  shows "SetStatusCondition lib cs c = cs"
proof -
  from assms(3) obtain now where e: "cond_of cs (c_Type c) = Some (c\<lparr>c_LastTransitionTime := now\<rparr>)" (is "_ = Some ?e")
    by (auto simp: present_def)
  obtain c' where "updates (cond_of cs (c_Type c)) c c'" and s: "SetStatusCondition lib cs c =
       (if cond_of cs (c_Type c) = None then cs @ [c']
        else map (\<lambda>x. if c_Type x = c_Type c then c' else x) cs)"
    by (rule SetStatusCondition_cases [OF assms(1,2), of c])
  with e have "c' = ?e" by (auto simp: updates_def)
  moreover have "x = ?e" if "x \<in> set cs" "c_Type x = c_Type c" for x
    using cond_of_mem [OF assms(2) that(1)] that(2) e by simp
  ultimately show ?thesis using e by (auto simp: s intro!: map_idI)
qed

section \<open>The whole pass\<close>

lemma applyConditions_steps:
  "applyConditions lib existing desired owned =
     foldl (\<lambda>cs t. if t \<in> c_Type ` set desired then cs else RemoveStatusCondition lib cs t)
       (foldl (SetStatusCondition lib) existing desired) owned"
proof -
  have "foldl (\<lambda>(conditions, wanted) cond.
            (SetStatusCondition lib conditions cond, List.insert (c_Type cond) wanted)) (cs, ts) ds
        = (foldl (SetStatusCondition lib) cs ds, foldl (\<lambda>ts d. List.insert (c_Type d) ts) ts ds)" for cs ts ds
    by (induction ds arbitrary: cs ts) auto
  note steps = this
  have "set (foldl (\<lambda>ts d. List.insert (c_Type d) ts) ts ds) = set ts \<union> c_Type ` set ds" for ts ds
    by (induction ds arbitrary: ts) auto
  from this [of "[]"] have "set (foldl (\<lambda>ts d. List.insert (c_Type d) ts) [] desired) = c_Type ` set desired"
    by simp
  then show ?thesis by (simp only: applyConditions_def steps Let_def prod.case)
qed

lemma prune_filter:
  assumes "lawful_conditions lib"
  shows "foldl (\<lambda>cs t. if t \<in> W then cs else RemoveStatusCondition lib cs t) cs owned
     = filter (\<lambda>c. c_Type c \<in> W \<or> c_Type c \<notin> set owned) cs"
proof (induction owned arbitrary: cs)
  case (Cons t ts)
  show ?case using Cons by (auto simp: lawful_conditionsD(3) [OF assms] intro!: filter_cong)
qed simp

lemma set_all_one_each:
  "lawful_conditions lib \<Longrightarrow> one_each cs \<Longrightarrow> one_each (foldl (SetStatusCondition lib) cs ds)"
  by (induction ds arbitrary: cs) (auto simp: SetStatusCondition_one_each)

lemma set_all_other:
  "lawful_conditions lib \<Longrightarrow> one_each cs \<Longrightarrow> t \<notin> c_Type ` set ds
   \<Longrightarrow> cond_of (foldl (SetStatusCondition lib) cs ds) t = cond_of cs t"
  by (induction ds arbitrary: cs) (auto simp: SetStatusCondition_one_each SetStatusCondition_lookup(2))

lemma set_all_desired:
  assumes "lawful_conditions lib" and "one_each cs" and "one_each ds" and "d \<in> set ds"
  shows "\<exists>c'. cond_of (foldl (SetStatusCondition lib) cs ds) (c_Type d) = Some c' \<and> updates (cond_of cs (c_Type d)) d c'"
  using assms(2-4)
proof (induction ds arbitrary: cs)
  case (Cons x ds)
  note one = SetStatusCondition_one_each [OF assms(1) Cons.prems(1), of x]
  show ?case
  proof (cases "d = x")
    case True
    then have "c_Type d \<notin> c_Type ` set ds" using Cons.prems(2) by auto
    with True show ?thesis
      using set_all_other [OF assms(1) one] SetStatusCondition_lookup(1) [OF assms(1) Cons.prems(1)] by simp
  next
    case False
    then have "d \<in> set ds" "c_Type d \<noteq> c_Type x" using Cons.prems(2,3) by (auto simp: image_iff)
    with Cons.IH [OF one] Cons.prems(2) SetStatusCondition_lookup(2) [OF assms(1) Cons.prems(1)]
    show ?thesis by simp
  qed
qed simp

lemma set_all_present:
  "lawful_conditions lib \<Longrightarrow> one_each cs \<Longrightarrow> list_all (present cs) ds \<Longrightarrow> foldl (SetStatusCondition lib) cs ds = cs"
  by (induction ds) (auto simp: SetStatusCondition_present)

lemma applyConditions_one_each:
  assumes "lawful_conditions lib" and "one_each existing"
  shows "one_each (applyConditions lib existing desired owned)"
  using set_all_one_each [OF assms, of desired]
  by (simp add: applyConditions_steps prune_filter [OF assms(1)] distinct_map_filter)

lemma applyConditions_lookup:
  assumes "lawful_conditions lib" and "one_each existing" and "one_each desired"
  shows "\<And>d. d \<in> set desired \<Longrightarrow> \<exists>c. cond_of (applyConditions lib existing desired owned) (c_Type d) = Some c
       \<and> updates (cond_of existing (c_Type d)) d c"
    and "\<And>t. t \<notin> c_Type ` set desired \<Longrightarrow> t \<in> set owned
       \<Longrightarrow> cond_of (applyConditions lib existing desired owned) t = None"
    and "\<And>t. t \<notin> c_Type ` set desired \<Longrightarrow> t \<notin> set owned
       \<Longrightarrow> cond_of (applyConditions lib existing desired owned) t = cond_of existing t"
  using set_all_desired [OF assms] set_all_other [OF assms(1,2)]
  by (auto simp: applyConditions_steps prune_filter [OF assms(1)]
      cond_of_filter [where P = "\<lambda>t. t \<in> c_Type ` set desired \<or> t \<notin> set owned"])

lemma applyConditions_again:
  assumes "lawful_conditions lib" and "lawful_conditions lib'" and "one_each existing" and "one_each desired"
  shows "applyConditions lib' (applyConditions lib existing desired owned) desired owned
     = applyConditions lib existing desired owned"
proof -
  let ?cs = "applyConditions lib existing desired owned"
  have "list_all (present ?cs) desired"
    using applyConditions_lookup(1) [OF assms(1,3,4), of _ owned]
    by (fastforce simp: list_all_iff present_def updates_def)
  moreover have "one_each ?cs" by (rule applyConditions_one_each [OF assms(1,3)])
  ultimately have "foldl (SetStatusCondition lib') ?cs desired = ?cs" by (rule set_all_present [OF assms(2), rotated])
  then show ?thesis
    by (simp add: applyConditions_steps [of lib'] prune_filter [OF assms(2)])
       (simp add: applyConditions_steps prune_filter [OF assms(1)])
qed

end
