(* ===== verification/Controller_Records.thy ===== *)
theory Controller_Records
  imports Controller_Commit Controller_Conditions
begin

text \<open>
  How \<^verbatim>\<open>internal/controller/privatednszone_controller.go\<close> compiles the records of a zone:
  \<^verbatim>\<open>recordsForZone\<close> with its outcome for each \<^verbatim>\<open>PrivateDNSRecord\<close>, and the functions that
  seed and overwrite these outcomes. The map of outcomes that the code mutates is passed
  through. The specification says of each record what is decided about it (\<open>verdict\<close>) and
  which records are published.
\<close>

section \<open>Outcomes\<close>

definition reasonRendered :: string where [simp]: "reasonRendered = ''Rendered''"
definition reasonInvalidZone :: string where [simp]: "reasonInvalidZone = ''InvalidZone''"
definition reasonInvalidRecordSet :: string where [simp]: "reasonInvalidRecordSet = ''InvalidRecordSet''"
definition reasonZoneRenderFailed :: string where [simp]: "reasonZoneRenderFailed = ''ZoneRenderFailed''"
definition reasonAccepted :: string where [simp]: "reasonAccepted = ''Accepted''"
definition reasonZoneNotFound :: string where [simp]: "reasonZoneNotFound = ''ZoneNotFound''"
definition reasonZoneNotReady :: string where [simp]: "reasonZoneNotReady = ''ZoneNotReady''"
definition reasonNamespaceNotAllowed :: string where [simp]: "reasonNamespaceNotAllowed = ''NamespaceNotAllowed''"
definition reasonInvalidRecord :: string where [simp]: "reasonInvalidRecord = ''InvalidRecord''"
definition reasonCoreDNSUnavailable :: string where [simp]: "reasonCoreDNSUnavailable = ''CoreDNSUnavailable''"
definition reasonConflictingRecords :: string where [simp]: "reasonConflictingRecords = ''ConflictingRecords''"

record recordOutcome =
  ro_fqdn :: string
  ro_accepted :: bool
  ro_reason :: string
  ro_message :: string

type_synonym outcomes = "(string, recordOutcome) gomap"

text \<open>\<^verbatim>\<open>recordOutcome{reason: ..., message: ...}\<close>, the other fields zero.\<close>

definition rejected :: "string \<Rightarrow> string \<Rightarrow> recordOutcome" where
  "rejected reason message = \<lparr>ro_fqdn = [], ro_accepted = False, ro_reason = reason, ro_message = message\<rparr>"

definition recordKey :: "string \<Rightarrow> string \<Rightarrow> string" where
  "recordKey namespace name = namespace @ ''/'' @ name"

abbreviation key_of :: "PrivateDNSRecord \<Rightarrow> string" where
  "key_of r \<equiv> recordKey (rec_Namespace r) (rec_Name r)"

abbreviation zone_of :: "PrivateDNSRecord \<Rightarrow> string" where
  "zone_of r \<equiv> zr_Name (rs_ZoneRef (rec_Spec r))"

definition newRecordOutcomes :: "PrivateDNSRecord list \<Rightarrow> outcomes" where
  "newRecordOutcomes records =
     foldl (\<lambda>outcomes record.
        AList.update (key_of record)
          (rejected reasonZoneNotFound (''no PrivateDNSZone named '' @ quote (zone_of record) @ '' is available''))
          outcomes) [] records"

definition mark_step :: "string \<Rightarrow> string \<Rightarrow> outcomes \<Rightarrow> PrivateDNSRecord \<Rightarrow> outcomes" where
  "mark_step zoneName message outcomes record =
     (if zone_of record \<noteq> zoneName then outcomes
      else
        let key = key_of record in
        if (case map_of outcomes key of
              Some outcome \<Rightarrow> \<not> ro_accepted outcome \<and> ro_reason outcome \<noteq> reasonZoneNotFound
            | None \<Rightarrow> False)
        then outcomes
        else AList.update key
          (rejected reasonZoneNotReady (''zone '' @ quote zoneName @ '' is not ready: '' @ message)) outcomes)"

definition markZoneRecordsNotReady :: "outcomes \<Rightarrow> PrivateDNSRecord list \<Rightarrow> string \<Rightarrow> string \<Rightarrow> outcomes" where
  "markZoneRecordsNotReady outcomes records zoneName message = foldl (mark_step zoneName message) outcomes records"

section \<open>Compiling the records of a zone\<close>

definition namespaceAllowed :: "NamespaceSelector \<Rightarrow> string \<Rightarrow> bool" where
  "namespaceAllowed selector namespace =
     (if length (MatchNames selector) = 0 then True else containsString (MatchNames selector) namespace)"

fun validationMessage :: "go_error \<Rightarrow> string" where
  "validationMessage (RecordError e) = ve_Message e"
| "validationMessage e = error_text e"

text \<open>The body of the loop over the inline records: the errors that block the zone, or the
  record that is admitted.\<close>

definition compileInline :: "PrivateDNSZone \<Rightarrow> string \<Rightarrow> int32 \<Rightarrow> PrivateDNSRecordSpecInline \<Rightarrow> go_error list + Record" where
  "compileInline zone normalizedZone zoneTTL inline =
     (let ttl = (case in_TTL inline of None \<Rightarrow> zoneTTL | Some t \<Rightarrow> t) in
      case FQDN (in_Name inline) normalizedZone of
        Inl err \<Rightarrow> Inl [err]
      | Inr fqdn \<Rightarrow>
          (let record = \<lparr>r_Zone = normalizedZone, r_Name = in_Name inline, r_FQDN = fqdn, r_Type = in_Type inline,
                 r_TTL = ttl, r_Values = in_Values inline,
                 r_Source = \<lparr>src_Kind = ''PrivateDNSZone'', src_Namespace = [], src_Name = z_Name zone\<rparr>\<rparr>;
               errs = ValidateRecord record
           in if length errs > 0 then Inl errs else Inr record))"

text \<open>The body of the loop over the records that reference the zone: the outcome of a rejected
  record, or the record that is admitted.\<close>

definition compileExternal :: "PrivateDNSZone \<Rightarrow> string \<Rightarrow> int32 \<Rightarrow> PrivateDNSRecord \<Rightarrow> recordOutcome + Record" where
  "compileExternal zone normalizedZone zoneTTL candidate =
     (if \<not> namespaceAllowed (zs_AllowedNamespaces (z_Spec zone)) (rec_Namespace candidate) then
        Inl (rejected reasonNamespaceNotAllowed
          (''namespace '' @ quote (rec_Namespace candidate) @ '' is not listed in zone '' @ quote (z_Name zone)
           @ '' allowedNamespaces''))
      else
        let ttl = (case rs_TTL (rec_Spec candidate) of None \<Rightarrow> zoneTTL | Some t \<Rightarrow> t) in
        case FQDN (rs_Name (rec_Spec candidate)) normalizedZone of
          Inl err \<Rightarrow> Inl (rejected reasonInvalidRecord (error_text err))
        | Inr fqdn \<Rightarrow>
            (let record = \<lparr>r_Zone = normalizedZone, r_Name = rs_Name (rec_Spec candidate), r_FQDN = fqdn,
                   r_Type = rs_Type (rec_Spec candidate), r_TTL = ttl, r_Values = rs_Values (rec_Spec candidate),
                   r_Source = \<lparr>src_Kind = ''PrivateDNSRecord'', src_Namespace = rec_Namespace candidate,
                     src_Name = rec_Name candidate\<rparr>\<rparr>;
                 errs = ValidateRecord record
             in if length errs > 0 then Inl (rejected reasonInvalidRecord (validationMessage (hd errs)))
                else Inr record))"

definition accepted_outcome :: "PrivateDNSZone \<Rightarrow> Record \<Rightarrow> recordOutcome" where
  "accepted_outcome zone record =
     \<lparr>ro_fqdn = trim_suffix (r_FQDN record) ''.'', ro_accepted = True, ro_reason = reasonAccepted,
      ro_message = ''record is published in zone '' @ quote (z_Name zone)\<rparr>"

definition inline_step ::
    "PrivateDNSZone \<Rightarrow> string \<Rightarrow> int32 \<Rightarrow> Record list \<times> go_error list \<Rightarrow> PrivateDNSRecordSpecInline
     \<Rightarrow> Record list \<times> go_error list" where
  "inline_step zone normalizedZone zoneTTL st inline =
     (let (admitted, blocking) = st in
      case compileInline zone normalizedZone zoneTTL inline of
        Inl errs \<Rightarrow> (admitted, blocking @ errs)
      | Inr record \<Rightarrow> (admitted @ [record], blocking))"

definition external_step ::
    "PrivateDNSZone \<Rightarrow> string \<Rightarrow> int32 \<Rightarrow> Record list \<times> outcomes \<Rightarrow> PrivateDNSRecord \<Rightarrow> Record list \<times> outcomes" where
  "external_step zone normalizedZone zoneTTL st candidate =
     (let (admitted, outcomes) = st in
      if zone_of candidate \<noteq> z_Name zone then (admitted, outcomes)
      else
        let key = key_of candidate in
        case compileExternal zone normalizedZone zoneTTL candidate of
          Inl outcome \<Rightarrow> (admitted, AList.update key outcome outcomes)
        | Inr record \<Rightarrow> (admitted @ [record], AList.update key (accepted_outcome zone record) outcomes))"

definition conflict_step :: "(string, string) gomap \<times> go_error list \<Rightarrow> go_error \<Rightarrow> (string, string) gomap \<times> go_error list" where
  "conflict_step st err =
     (let (conflicts, blocking) = st in
      case err of
        RecordError e \<Rightarrow> (AList.update (ve_FQDN e) (ve_Message e) conflicts, blocking)
      | _ \<Rightarrow> (conflicts, blocking @ [err]))"

record withheld =
  wh_kept :: "Record list"
  wh_excluded :: "string list"
  wh_blocking :: "go_error list"
  wh_outcomes :: outcomes

definition conflicting_outcome :: "string \<Rightarrow> recordOutcome" where
  "conflicting_outcome message =
     rejected reasonConflictingRecords (message @ ''; no record at this name is published'')"

definition withhold_step :: "(string, string) gomap \<Rightarrow> withheld \<Rightarrow> Record \<Rightarrow> withheld" where
  "withhold_step conflicts st record =
     (case map_of conflicts (r_FQDN record) of
        None \<Rightarrow> st\<lparr>wh_kept := wh_kept st @ [record]\<rparr>
      | Some message \<Rightarrow>
          (let st = st\<lparr>wh_excluded := List.insert (trim_suffix (r_FQDN record) ''.'') (wh_excluded st)\<rparr> in
           if src_Kind (r_Source record) = ''PrivateDNSZone'' then
             st\<lparr>wh_blocking := wh_blocking st @
               [RecordError \<lparr>ve_Source = r_Source record, ve_FQDN = r_FQDN record, ve_Message = message\<rparr>]\<rparr>
           else
             st\<lparr>wh_outcomes :=
               AList.update (recordKey (src_Namespace (r_Source record)) (src_Name (r_Source record)))
                 (conflicting_outcome message) (wh_outcomes st)\<rparr>))"

definition recordsForZone ::
    "PrivateDNSZone \<Rightarrow> string \<Rightarrow> PrivateDNSRecord list \<Rightarrow> outcomes
     \<Rightarrow> (Record list \<times> string list \<times> go_error list) \<times> outcomes" where
  "recordsForZone zone normalizedZone external outcomes =
     (let zoneTTL = (case zs_TTL (z_Spec zone) of None \<Rightarrow> DefaultTTL | Some t \<Rightarrow> t);
          (admitted, blocking) = foldl (inline_step zone normalizedZone zoneTTL) ([], []) (zs_Records (z_Spec zone));
          (admitted, outcomes) = foldl (external_step zone normalizedZone zoneTTL) (admitted, outcomes) external;
          (conflicts, blocking) = foldl conflict_step ([], blocking) (ValidateRecordSet admitted)
      in if length conflicts = 0 then ((admitted, [], blocking), outcomes)
         else
           let st = foldl (withhold_step conflicts)
                 \<lparr>wh_kept = [], wh_excluded = [], wh_blocking = blocking, wh_outcomes = outcomes\<rparr> admitted
           in ((wh_kept st, sort (wh_excluded st), wh_blocking st), wh_outcomes st))"

definition renderedRecordCount :: "Record list \<Rightarrow> nat" where
  "renderedRecordCount records = foldl (\<lambda>count record. count + length (r_Values record)) 0 records"

section \<open>Which records are published\<close>

text \<open>
  The specification of \<^verbatim>\<open>recordsForZone\<close>. The records that compile are admitted, inline ones
  first; of these, the ones at a name with a conflict are withheld.
\<close>

definition oks :: "('a \<Rightarrow> 'e + 'b) \<Rightarrow> 'a list \<Rightarrow> 'b list" where
  "oks f xs = concat (map (\<lambda>x. case f x of Inl e \<Rightarrow> [] | Inr y \<Rightarrow> [y]) xs)"

lemma oks_simps [simp]:
  "oks f [] = []" "oks f (x # xs) = (case f x of Inl e \<Rightarrow> [] | Inr y \<Rightarrow> [y]) @ oks f xs"
  "oks f (xs @ ys) = oks f xs @ oks f ys"
  by (simp_all add: oks_def)

lemma set_oks: "y \<in> set (oks f xs) \<longleftrightarrow> (\<exists>x \<in> set xs. f x = Inr y)"
  by (induction xs) (auto split: sum.splits)

lemma oks_filter: "\<forall>x \<in> set xs. \<not> P x \<longrightarrow> isl (f x) \<Longrightarrow> oks f (filter P xs) = oks f xs"
  by (induction xs) (auto split: sum.splits)

definition candidates :: "PrivateDNSZone \<Rightarrow> PrivateDNSRecord list \<Rightarrow> PrivateDNSRecord list" where
  "candidates zone external = filter (\<lambda>r. zone_of r = z_Name zone) external"

definition inline_records :: "PrivateDNSZone \<Rightarrow> string \<Rightarrow> Record list" where
  "inline_records zone n = oks (compileInline zone n (zone_ttl zone)) (zs_Records (z_Spec zone))"

definition inline_errors :: "PrivateDNSZone \<Rightarrow> string \<Rightarrow> go_error list" where
  "inline_errors zone n =
     concat (map (\<lambda>i. case compileInline zone n (zone_ttl zone) i of Inl errs \<Rightarrow> errs | Inr r \<Rightarrow> []) (zs_Records (z_Spec zone)))"

definition external_records :: "PrivateDNSZone \<Rightarrow> string \<Rightarrow> PrivateDNSRecord list \<Rightarrow> Record list" where
  "external_records zone n external = oks (compileExternal zone n (zone_ttl zone)) (candidates zone external)"

definition admitted_records :: "PrivateDNSZone \<Rightarrow> string \<Rightarrow> PrivateDNSRecord list \<Rightarrow> Record list" where
  "admitted_records zone n external = inline_records zone n @ external_records zone n external"

definition verdict :: "PrivateDNSZone \<Rightarrow> string \<Rightarrow> PrivateDNSRecord list \<Rightarrow> PrivateDNSRecord \<Rightarrow> recordOutcome" where
  "verdict zone n external r =
     (case compileExternal zone n (zone_ttl zone) r of
        Inl outcome \<Rightarrow> outcome
      | Inr record \<Rightarrow>
          if cname_conflict (admitted_records zone n external) (r_FQDN record)
          then conflicting_outcome (ve_Message (conflict_detail (admitted_records zone n external) (r_FQDN record)))
          else accepted_outcome zone record)"

text \<open>The loops.\<close>

lemma inline_loop:
  "foldl (inline_step zone n ttl) (adm, bl) is =
     (adm @ oks (compileInline zone n ttl) is,
      bl @ concat (map (\<lambda>i. case compileInline zone n ttl i of Inl errs \<Rightarrow> errs | Inr r \<Rightarrow> []) is))"
  by (induction "is" arbitrary: adm bl) (auto simp: inline_step_def split: sum.splits)

lemma external_loop:
  "foldl (external_step zone n ttl) (adm, outs) es =
     (adm @ oks (compileExternal zone n ttl) (candidates zone es),
      foldl (\<lambda>m r. AList.update (key_of r)
          (case compileExternal zone n ttl r of Inl o' \<Rightarrow> o' | Inr rec \<Rightarrow> accepted_outcome zone rec) m)
        outs (candidates zone es))"
  by (induction es arbitrary: adm outs) (auto simp: external_step_def candidates_def Let_def split: sum.splits)

lemma conflict_loop:
  "foldl conflict_step (m, bl) (map (conflict_error rs) fs) =
     (foldl (\<lambda>m f. AList.update f (ve_Message (conflict_detail rs f)) m) m fs, bl)"
  by (induction fs arbitrary: m) (auto simp: conflict_step_def)

lemma conflicts_get:
  "map_of (fst (foldl conflict_step ([], bl) (ValidateRecordSet rs))) f =
     (if cname_conflict rs f then Some (ve_Message (conflict_detail rs f)) else None)"
proof -
  let ?fs = "filter (cname_conflict rs) (sort (remdups (map r_FQDN rs)))"
  have find_eq: "find (\<lambda>x. x = f) xs = (if f \<in> set xs then Some f else None)" for xs
    by (induction xs) auto
  have "f \<in> set ?fs \<longleftrightarrow> cname_conflict rs f" using cname_conflictD by fastforce
  then show ?thesis
    by (simp add: ValidateRecordSet_spec conflict_loop map_of_fold_update find_eq)
qed

lemma conflicts_blocking: "snd (foldl conflict_step (m, bl) (ValidateRecordSet rs)) = bl"
  by (simp add: ValidateRecordSet_spec conflict_loop)

abbreviation from_spec :: "Record \<Rightarrow> bool" where
  "from_spec r \<equiv> src_Kind (r_Source r) = ''PrivateDNSZone''"

abbreviation source_key :: "Record \<Rightarrow> string" where
  "source_key r \<equiv> recordKey (src_Namespace (r_Source r)) (src_Name (r_Source r))"

lemma withhold_loop:
  fixes C
  defines "hit \<equiv> \<lambda>r. map_of C (r_FQDN r) \<noteq> None"
  shows "wh_kept (foldl (withhold_step C) st rs) = wh_kept st @ filter (\<lambda>r. \<not> hit r) rs"
    and "set (wh_excluded (foldl (withhold_step C) st rs))
      = set (wh_excluded st) \<union> (\<lambda>r. trim_suffix (r_FQDN r) ''.'') ` set (filter hit rs)"
    and "distinct (wh_excluded st) \<Longrightarrow> distinct (wh_excluded (foldl (withhold_step C) st rs))"
    and "wh_blocking (foldl (withhold_step C) st rs) = wh_blocking st @
      map (\<lambda>r. RecordError \<lparr>ve_Source = r_Source r, ve_FQDN = r_FQDN r, ve_Message = the (map_of C (r_FQDN r))\<rparr>)
        (filter (\<lambda>r. hit r \<and> from_spec r) rs)"
    and "wh_outcomes (foldl (withhold_step C) st rs) =
      foldl (\<lambda>m r. AList.update (source_key r) (conflicting_outcome (the (map_of C (r_FQDN r)))) m)
        (wh_outcomes st) (filter (\<lambda>r. hit r \<and> \<not> from_spec r) rs)"
  unfolding hit_def
  by (induction rs arbitrary: st) (auto simp: withhold_step_def Let_def split: option.splits)

text \<open>The whole function.\<close>

lemma recordsForZone_loops:
  fixes zone n external outcomes
  defines "A \<equiv> admitted_records zone n external"
    and "outs \<equiv> foldl (\<lambda>m r. AList.update (key_of r)
          (case compileExternal zone n (zone_ttl zone) r of Inl o' \<Rightarrow> o' | Inr rec \<Rightarrow> accepted_outcome zone rec) m)
        outcomes (candidates zone external)"
  shows "recordsForZone zone n external outcomes =
    (let C = fst (foldl conflict_step ([], inline_errors zone n) (ValidateRecordSet A)) in
     if C = [] then ((A, [], inline_errors zone n), outs)
     else
       let st = foldl (withhold_step C)
          \<lparr>wh_kept = [], wh_excluded = [], wh_blocking = inline_errors zone n, wh_outcomes = outs\<rparr> A
       in ((wh_kept st, sort (wh_excluded st), wh_blocking st), wh_outcomes st))"
  using conflicts_blocking [of "[]" "inline_errors zone n" A]
  by (simp add: recordsForZone_def zone_ttl_def [symmetric] inline_loop external_loop A_def outs_def
      admitted_records_def inline_records_def external_records_def inline_errors_def case_prod_beta Let_def)

lemma conflicts_Nil:
  "fst (foldl conflict_step ([], bl) (ValidateRecordSet rs)) = [] \<longleftrightarrow> (\<forall>f. \<not> cname_conflict rs f)"
proof
  assume "fst (foldl conflict_step ([], bl) (ValidateRecordSet rs)) = []"
  then have "map_of (fst (foldl conflict_step ([], bl) (ValidateRecordSet rs))) f = None" for f by simp
  then show "\<forall>f. \<not> cname_conflict rs f" unfolding conflicts_get by (metis option.distinct(1))
next
  assume "\<forall>f. \<not> cname_conflict rs f"
  then show "fst (foldl conflict_step ([], bl) (ValidateRecordSet rs)) = []"
    by (simp add: ValidateRecordSet_Nil [symmetric])
qed

lemma recordsForZone_result:
  assumes "recordsForZone zone n external outcomes = ((compiled, excluded, blocking), outcomes')"
  defines "A \<equiv> admitted_records zone n external"
  shows "compiled = filter (\<lambda>r. \<not> cname_conflict A (r_FQDN r)) A"
    and "excluded = sort (remdups (map (\<lambda>r. trim_suffix (r_FQDN r) ''.'') (filter (\<lambda>r. cname_conflict A (r_FQDN r)) A)))"
    and "blocking = inline_errors zone n @
      map (\<lambda>r. RecordError \<lparr>ve_Source = r_Source r, ve_FQDN = r_FQDN r,
          ve_Message = ve_Message (conflict_detail A (r_FQDN r))\<rparr>)
        (filter (\<lambda>r. cname_conflict A (r_FQDN r) \<and> from_spec r) A)"
    and "outcomes' =
      foldl (\<lambda>m r. AList.update (source_key r)
          (conflicting_outcome (ve_Message (conflict_detail A (r_FQDN r)))) m)
        (foldl (\<lambda>m r. AList.update (key_of r)
            (case compileExternal zone n (zone_ttl zone) r of Inl o' \<Rightarrow> o' | Inr rec \<Rightarrow> accepted_outcome zone rec) m)
          outcomes (candidates zone external))
        (filter (\<lambda>r. cname_conflict A (r_FQDN r) \<and> \<not> from_spec r) A)"
proof -
  define C where "C = fst (foldl conflict_step ([], inline_errors zone n) (ValidateRecordSet A))"
  have hit: "map_of C f = (if cname_conflict A f then Some (ve_Message (conflict_detail A f)) else None)" for f
    unfolding C_def by (rule conflicts_get)
  have nil: "C = [] \<longleftrightarrow> (\<forall>f. \<not> cname_conflict A f)" unfolding C_def by (rule conflicts_Nil)
  note loops = recordsForZone_loops [of zone n external outcomes, folded A_def, folded C_def, unfolded Let_def]
  have hits: "(map_of C f \<noteq> None) = cname_conflict A f" for f by (simp add: hit)
  have msg: "the (map_of C f) = ve_Message (conflict_detail A f)" if "cname_conflict A f" for f
    using that by (simp add: hit)
  note W = withhold_loop [where C = C and rs = A, unfolded hits]
  have blocked: "wh_blocking (foldl (withhold_step C) st A) = wh_blocking st @
      map (\<lambda>r. RecordError \<lparr>ve_Source = r_Source r, ve_FQDN = r_FQDN r,
          ve_Message = ve_Message (conflict_detail A (r_FQDN r))\<rparr>)
        (filter (\<lambda>r. cname_conflict A (r_FQDN r) \<and> from_spec r) A)" for st
    unfolding W(4) by (simp add: msg)
  have folds: "foldl (\<lambda>m r. AList.update (source_key r) (h (the (map_of C (r_FQDN r)))) m) m0
        (filter (\<lambda>r. cname_conflict A (r_FQDN r) \<and> P r) A)
      = foldl (\<lambda>m r. AList.update (source_key r) (h (ve_Message (conflict_detail A (r_FQDN r)))) m) m0
        (filter (\<lambda>r. cname_conflict A (r_FQDN r) \<and> P r) A)"
    for h P and m0 :: outcomes
    by (rule foldl_cong) (auto simp: msg)
  have exc: "sort (wh_excluded (foldl (withhold_step C) st A))
      = sort (remdups (map (\<lambda>r. trim_suffix (r_FQDN r) ''.'') (filter (\<lambda>r. cname_conflict A (r_FQDN r)) A)))"
    if "wh_excluded st = []" for st
  proof (rule sort_cong_set)
    show "distinct (wh_excluded (foldl (withhold_step C) st A))" using W(3) [of st] that by simp
    show "set (wh_excluded (foldl (withhold_step C) st A))
        = set (remdups (map (\<lambda>r. trim_suffix (r_FQDN r) ''.'') (filter (\<lambda>r. cname_conflict A (r_FQDN r)) A)))"
      unfolding W(2) that by simp
  qed simp
  let ?st = "\<lparr>wh_kept = [], wh_excluded = [], wh_blocking = inline_errors zone n, wh_outcomes = foldl (\<lambda>m r. AList.update (key_of r)
            (case compileExternal zone n (zone_ttl zone) r of Inl o' \<Rightarrow> o' | Inr rec \<Rightarrow> accepted_outcome zone rec) m)
          outcomes (candidates zone external)\<rparr>"
  show "compiled = filter (\<lambda>r. \<not> cname_conflict A (r_FQDN r)) A"
    using assms(1) nil W(1) [of ?st] unfolding loops by (auto split: if_splits)
  show "excluded = sort (remdups (map (\<lambda>r. trim_suffix (r_FQDN r) ''.'') (filter (\<lambda>r. cname_conflict A (r_FQDN r)) A)))"
    using assms(1) nil exc [of ?st] unfolding loops by (auto split: if_splits)
  show "blocking = inline_errors zone n @
      map (\<lambda>r. RecordError \<lparr>ve_Source = r_Source r, ve_FQDN = r_FQDN r,
          ve_Message = ve_Message (conflict_detail A (r_FQDN r))\<rparr>)
        (filter (\<lambda>r. cname_conflict A (r_FQDN r) \<and> from_spec r) A)"
    using assms(1) nil blocked [of ?st] unfolding loops by (auto split: if_splits)
  show "outcomes' =
      foldl (\<lambda>m r. AList.update (source_key r)
          (conflicting_outcome (ve_Message (conflict_detail A (r_FQDN r)))) m)
        (foldl (\<lambda>m r. AList.update (key_of r)
            (case compileExternal zone n (zone_ttl zone) r of Inl o' \<Rightarrow> o' | Inr rec \<Rightarrow> accepted_outcome zone rec) m)
          outcomes (candidates zone external))
        (filter (\<lambda>r. cname_conflict A (r_FQDN r) \<and> \<not> from_spec r) A)"
    using assms(1) nil W(5) [of ?st] folds [where h = conflicting_outcome and P = "\<lambda>r. \<not> from_spec r"]
    unfolding loops by (auto split: if_splits)
qed

section \<open>What is admitted\<close>

lemma compileInline_Inr:
  assumes "compileInline zone n ttl i = Inr r"
  shows "FQDN (in_Name i) n = Inr (r_FQDN r)" and "ValidateRecord r = []" and "from_spec r" and "r_Zone r = n"
  using assms by (auto simp: compileInline_def Let_def split: sum.splits if_splits)

lemma compileExternal_Inr:
  assumes "compileExternal zone n ttl e = Inr r"
  shows "FQDN (rs_Name (rec_Spec e)) n = Inr (r_FQDN r)" and "ValidateRecord r = []" and "\<not> from_spec r"
    and "r_Zone r = n" and "source_key r = key_of e"
    and "namespaceAllowed (zs_AllowedNamespaces (z_Spec zone)) (rec_Namespace e)"
    and "src_Namespace (r_Source r) = rec_Namespace e" and "src_Name (r_Source r) = rec_Name e"
  using assms by (auto simp: compileExternal_def Let_def split: sum.splits if_splits)

lemma admitted_cases:
  assumes "r \<in> set (admitted_records zone n external)"
  obtains i where "i \<in> set (zs_Records (z_Spec zone))" "compileInline zone n (zone_ttl zone) i = Inr r"
  | e where "e \<in> set external" "zone_of e = z_Name zone" "compileExternal zone n (zone_ttl zone) e = Inr r"
  using assms by (auto simp: admitted_records_def inline_records_def external_records_def set_oks candidates_def)

lemma admitted_valid:
  assumes "r \<in> set (admitted_records zone n external)"
  shows "ValidateRecord r = []" and "canonical (r_FQDN r)" and "in_zone (normalizeDomain n) (r_FQDN r)" and "r_Zone r = n"
proof -
  have "ValidateRecord r = [] \<and> r_Zone r = n \<and> (\<exists>name. FQDN name n = Inr (r_FQDN r))"
    using assms
  proof (cases rule: admitted_cases)
    case (1 i)
    with compileInline_Inr [OF 1(2)] show ?thesis by simp (rule exI)
  next
    case (2 e)
    with compileExternal_Inr [OF 2(3)] show ?thesis by simp (rule exI)
  qed
  then show "ValidateRecord r = []" "canonical (r_FQDN r)" "in_zone (normalizeDomain n) (r_FQDN r)" "r_Zone r = n"
    using FQDN_Inr by blast+
qed

lemma from_spec_admitted:
  "r \<in> set (admitted_records zone n external) \<Longrightarrow> from_spec r \<longleftrightarrow> r \<in> set (inline_records zone n)"
  using compileInline_Inr(3) compileExternal_Inr(3)
  by (fastforce simp: admitted_records_def inline_records_def external_records_def set_oks)

lemma compiled_valid:
  assumes "recordsForZone zone n external outcomes = ((compiled, excluded, blocking), outcomes')"
  shows "ValidateRecords compiled = []" and "r \<in> set compiled \<Longrightarrow> r \<in> set (admitted_records zone n external)"
proof -
  let ?A = "admitted_records zone n external"
  note compiled = recordsForZone_result(1) [OF assms]
  then show "r \<in> set compiled \<Longrightarrow> r \<in> set (admitted_records zone n external)" by simp
  have no: "\<not> cname_conflict compiled f" for f
  proof (cases "cname_conflict ?A f")
    case True
    then have "r_FQDN r \<noteq> f" if "r \<in> set compiled" for r using that compiled by auto
    then show ?thesis using cname_conflictD [of compiled f] by blast
  next
    case False
    show ?thesis by (rule no_conflict_mono [OF _ False]) (use compiled in auto)
  qed
  have "ValidateRecord r = []" if "r \<in> set compiled" for r
    by (rule admitted_valid(1)) (use that compiled in auto)
  with no show "ValidateRecords compiled = []" by (simp add: ValidateRecords_Nil)
qed

text \<open>A record that is not admitted has no influence on what is published or on whether the
  zone is blocked.\<close>

lemma external_records_filter:
  assumes "\<forall>e \<in> set external. \<not> P e \<longrightarrow> zone_of e \<noteq> z_Name zone \<or> isl (compileExternal zone n (zone_ttl zone) e)"
  shows "external_records zone n (filter P external) = external_records zone n external"
proof -
  have "candidates zone (filter P external) = filter P (candidates zone external)"
    by (simp add: candidates_def conj_commute)
  moreover have "oks (compileExternal zone n (zone_ttl zone)) (filter P (candidates zone external))
      = oks (compileExternal zone n (zone_ttl zone)) (candidates zone external)"
    by (rule oks_filter) (use assms in \<open>auto simp: candidates_def\<close>)
  ultimately show ?thesis by (simp add: external_records_def)
qed

lemma recordsForZone_admitted_only:
  assumes "external_records zone n ext1 = external_records zone n ext2"
  shows "fst (recordsForZone zone n ext1 outs1) = fst (recordsForZone zone n ext2 outs2)"
proof -
  obtain c1 x1 b1 o1 where r1: "recordsForZone zone n ext1 outs1 = ((c1, x1, b1), o1)" by (metis prod.exhaust)
  obtain c2 x2 b2 o2 where r2: "recordsForZone zone n ext2 outs2 = ((c2, x2, b2), o2)" by (metis prod.exhaust)
  have "admitted_records zone n ext1 = admitted_records zone n ext2" using assms by (simp add: admitted_records_def)
  then show ?thesis
    using recordsForZone_result(1-3) [OF r1] recordsForZone_result(1-3) [OF r2] r1 r2 by simp
qed

section \<open>What each record is told\<close>

lemma recordsForZone_outcomes:
  assumes "recordsForZone zone n external outcomes = ((compiled, excluded, blocking), outcomes')"
    and "distinct (map key_of (candidates zone external))"
  shows "map_of outcomes' k =
    (case find (\<lambda>e. key_of e = k) (candidates zone external) of
       None \<Rightarrow> map_of outcomes k
     | Some e \<Rightarrow> Some (verdict zone n external e))"
proof -
  let ?A = "admitted_records zone n external" and ?E = "candidates zone external"
  let ?comp = "compileExternal zone n (zone_ttl zone)"
  let ?W = "filter (\<lambda>r. cname_conflict ?A (r_FQDN r) \<and> \<not> from_spec r) ?A"
  note get = map_of_fold_update
  have source: "\<exists>e \<in> set ?E. ?comp e = Inr r \<and> key_of e = source_key r" if "r \<in> set ?W" for r
  proof -
    have "r \<in> set ?A" "\<not> from_spec r" using that by auto
    then have "r \<in> set (external_records zone n external)"
      using from_spec_admitted by (auto simp: admitted_records_def)
    then obtain e where "e \<in> set ?E" "?comp e = Inr r" by (auto simp: external_records_def set_oks)
    then show ?thesis using compileExternal_Inr(5) by metis
  qed
  show ?thesis
  proof (cases "find (\<lambda>e. key_of e = k) ?E")
    case None
    then have no: "key_of e \<noteq> k" if "e \<in> set ?E" for e using that by (auto simp: find_None_iff)
    then have "find (\<lambda>e. key_of e = k) (rev ?E) = None" by (auto simp: find_None_iff)
    moreover have "find (\<lambda>r. source_key r = k) (rev ?W) = None"
    proof -
      have "source_key r \<noteq> k" if "r \<in> set ?W" for r using source [OF that] no by auto
      then show ?thesis by (auto simp: find_None_iff)
    qed
    ultimately show ?thesis unfolding recordsForZone_result(4) [OF assms(1)] get None by simp
  next
    case (Some e)
    then have e: "e \<in> set ?E" "key_of e = k" by (auto simp: find_Some_iff)
    then have f: "find (\<lambda>e. key_of e = k) (rev ?E) = Some e" using find_unique(2) [OF assms(2) e(1)] by simp
    have only: "?comp e = Inr r" if r: "r \<in> set ?W" "source_key r = k" for r
    proof -
      from source [OF r(1)] obtain e' where "e' \<in> set ?E" "?comp e' = Inr r" "key_of e' = k" using r(2) by metis
      moreover have "e' = e" by (rule inj_onD [of key_of "set ?E"]) (use calculation e assms(2) in \<open>auto simp: distinct_map\<close>)
      ultimately show ?thesis by simp
    qed
    show ?thesis
    proof (cases "?comp e")
      case (Inl o')
      have "source_key r \<noteq> k" if "r \<in> set ?W" for r using only [OF that] Inl by auto
      then have "find (\<lambda>r. source_key r = k) (rev ?W) = None" by (auto simp: find_None_iff)
      then show ?thesis unfolding recordsForZone_result(4) [OF assms(1)] get Some using Inl f by (simp add: verdict_def)
    next
      case (Inr r)
      have mem: "r \<in> set ?A" using e(1) Inr by (auto simp: admitted_records_def external_records_def set_oks)
      show ?thesis
      proof (cases "cname_conflict ?A (r_FQDN r)")
        case True
        then have "r \<in> set ?W" using mem compileExternal_Inr(3) [OF Inr] by simp
        moreover have "source_key r = k" using compileExternal_Inr(5) [OF Inr] e(2) by simp
        ultimately have "find (\<lambda>r. source_key r = k) (rev ?W) \<noteq> None" unfolding find_None_iff set_rev by blast
        then obtain r' where r': "find (\<lambda>r. source_key r = k) (rev ?W) = Some r'" by blast
        then have "r' \<in> set ?W" "source_key r' = k" using find_SomeD [OF r'] by simp_all
        from only [OF this] have "r' = r" using Inr by simp
        then show ?thesis unfolding recordsForZone_result(4) [OF assms(1)] get Some r' using Inr True by (simp add: verdict_def)
      next
        case False
        have "source_key r' \<noteq> k" if "r' \<in> set ?W" for r'
        proof
          assume "source_key r' = k"
          from only [OF that this] Inr have "r' = r" by simp
          with that False show False by simp
        qed
        then have "find (\<lambda>r. source_key r = k) (rev ?W) = None" by (auto simp: find_None_iff)
        then show ?thesis unfolding recordsForZone_result(4) [OF assms(1)] get Some using Inr False f by (simp add: verdict_def)
      qed
    qed
  qed
qed

lemma verdict_accepted:
  assumes "recordsForZone zone n external outcomes = ((compiled, excluded, blocking), outcomes')"
    and "e \<in> set (candidates zone external)"
  shows "ro_accepted (verdict zone n external e) \<longleftrightarrow>
     (\<exists>r \<in> set compiled. compileExternal zone n (zone_ttl zone) e = Inr r)"
proof -
  have rej: "\<not> ro_accepted o'" if "compileExternal zone n ttl e = Inl o'" for o' ttl
    using that by (auto simp: compileExternal_def Let_def rejected_def split: if_splits sum.splits)
  show ?thesis
  proof (cases "compileExternal zone n (zone_ttl zone) e")
    case (Inl o')
    then show ?thesis using rej by (auto simp: verdict_def)
  next
    case (Inr r)
    then have "r \<in> set (admitted_records zone n external)"
      using assms(2) by (auto simp: admitted_records_def external_records_def set_oks)
    then show ?thesis
      using Inr recordsForZone_result(1) [OF assms(1)]
      by (auto simp: verdict_def accepted_outcome_def conflicting_outcome_def rejected_def)
  qed
qed

text \<open>The outcomes before the zones are processed, and after a zone failed.\<close>

lemma newRecordOutcomes_get:
  "map_of (newRecordOutcomes records) k =
     (case find (\<lambda>r. key_of r = k) (rev records) of
        None \<Rightarrow> None
      | Some r \<Rightarrow> Some (rejected reasonZoneNotFound
          (''no PrivateDNSZone named '' @ quote (zone_of r) @ '' is available'')))"
  unfolding newRecordOutcomes_def map_of_fold_update by (simp split: option.split)

definition specific :: "recordOutcome option \<Rightarrow> bool" where
  "specific o' = (case o' of None \<Rightarrow> False
     | Some outcome \<Rightarrow> \<not> ro_accepted outcome \<and> ro_reason outcome \<noteq> reasonZoneNotFound)"

lemma mark_step_get:
  "map_of (mark_step zoneName message outs r) k =
     (if zone_of r = zoneName \<and> key_of r = k \<and> \<not> specific (map_of outs k)
      then Some (rejected reasonZoneNotReady (''zone '' @ quote zoneName @ '' is not ready: '' @ message))
      else map_of outs k)"
  by (auto simp: mark_step_def specific_def Let_def split: option.splits)

lemma markZoneRecordsNotReady_get:
  "map_of (markZoneRecordsNotReady outs records zoneName message) k =
     (if k \<in> key_of ` set (filter (\<lambda>r. zone_of r = zoneName) records) \<and> \<not> specific (map_of outs k)
      then Some (rejected reasonZoneNotReady (''zone '' @ quote zoneName @ '' is not ready: '' @ message))
      else map_of outs k)"
proof (induction records arbitrary: outs)
  case Nil
  then show ?case by (simp add: markZoneRecordsNotReady_def)
next
  case (Cons r rs)
  have "markZoneRecordsNotReady outs (r # rs) zoneName message
      = markZoneRecordsNotReady (mark_step zoneName message outs r) rs zoneName message"
    by (simp add: markZoneRecordsNotReady_def)
  moreover have "specific (Some (rejected reasonZoneNotReady m))" for m
    by (simp add: specific_def rejected_def)
  ultimately show ?case using Cons.IH by (auto simp: mark_step_get)
qed

lemma renderedRecordCount_sum: "renderedRecordCount rs = sum_list (map (length \<circ> r_Values) rs)"
proof -
  have "foldl (\<lambda>count record. count + length (r_Values record)) c rs = c + sum_list (map (length \<circ> r_Values) rs)" for c
    by (induction rs arbitrary: c) auto
  then show ?thesis by (simp add: renderedRecordCount_def)
qed

end
