(* ===== verification/Controller_Status.thy ===== *)
theory Controller_Status
  imports Controller_Records
begin

text \<open>
  The results of a pass for each zone, and how
  \<^verbatim>\<open>internal/controller/privatednszone_controller.go\<close> reports them: \<^verbatim>\<open>failedResult\<close>,
  \<^verbatim>\<open>writeZoneStatuses\<close>, \<^verbatim>\<open>writeRecordStatuses\<close>, the release of terminating zones and
  \<^verbatim>\<open>reportCoreDNSUnavailable\<close>. \<^verbatim>\<open>equality.Semantic.DeepEqual\<close> is equality, since nil and empty
  slices are one value here; a merge patch of a status is the call \<open>patch_zone_status\<close> with
  the object that carries the new status.
\<close>

section \<open>Results\<close>

definition privateDNSZoneFinalizer :: string where
  "privateDNSZoneFinalizer = ''dns.custlynotts.io/private-zone-cleanup''"

record zoneResult =
  res_conditions :: "Condition list"
  res_records :: nat
  res_serial :: string
  res_zoneFileKey :: string
  res_lastAppliedHash :: string
  res_rendered :: bool
  res_excluded :: "string list"

type_synonym results = "(string, zoneResult) gomap"

abbreviation z_Generation :: "PrivateDNSZone \<Rightarrow> int64" where
  "z_Generation z \<equiv> om_Generation (z_Meta z)"

definition failedResult :: "PrivateDNSZone \<Rightarrow> string \<Rightarrow> string \<Rightarrow> zoneResult" where
  "failedResult zone reason message =
     \<lparr>res_conditions = [condition ConditionReady ConditionFalse reason message (z_Generation zone)],
      res_records = 0, res_serial = zst_Serial (z_Status zone), res_zoneFileKey = [],
      res_lastAppliedHash = zst_LastAppliedHash (z_Status zone), res_rendered = False, res_excluded = []\<rparr>"

definition failureReason :: "zoneResult \<Rightarrow> string" where
  "failureReason z =
     (case find (\<lambda>cond. c_Type cond = ConditionReady \<and> c_Status cond = ConditionFalse) (res_conditions z) of
        Some cond \<Rightarrow> c_Reason cond
      | None \<Rightarrow> reasonInvalidRecordSet)"

definition effectivePolicy :: "UnresolvedRecordPolicy \<Rightarrow> UnresolvedRecordPolicy" where
  "effectivePolicy policy = (if policy = [] then UnresolvedRecordPolicyNXDOMAIN else policy)"

definition reloadReason :: "bool \<Rightarrow> string" where
  "reloadReason reloadable = (if reloadable then ''ReloadPlugin'' else ''RolloutRestart'')"

definition reloadMessage :: "bool \<Rightarrow> string" where
  "reloadMessage reloadable =
     (if reloadable then ''CoreDNS reload plugin will pick up the change''
      else ''CoreDNS deployment rollout restart was triggered because reload plugin is missing'')"

definition combinedHash :: "results \<Rightarrow> string" where
  "combinedHash results =
     join '','' (sort (filter (\<lambda>h. h \<noteq> []) (map (\<lambda>(name, result). res_lastAppliedHash result) results)))"

section \<open>Releasing terminating zones\<close>

text \<open>The loop assigns to the elements of the slice, so the zones are returned as well; a
  successful update refreshes the object in place.\<close>

fun releaseDeletedZones ::
    "'w PrivateDNSZoneReconciler \<Rightarrow> PrivateDNSZone list \<Rightarrow> 'w \<Rightarrow> (api_error + PrivateDNSZone list) \<times> 'w" where
  "releaseDeletedZones r [] w = (Inr [], w)"
| "releaseDeletedZones r (zone # zones) w =
     (if \<not> z_deleting zone \<or> \<not> containsString (om_Finalizers (z_Meta zone)) privateDNSZoneFinalizer then
        (case releaseDeletedZones r zones w of
           (Inl err, w) \<Rightarrow> (Inl err, w)
         | (Inr zones, w) \<Rightarrow> (Inr (zone # zones), w))
      else
        let zone = zone\<lparr>z_Meta := (z_Meta zone)\<lparr>om_Finalizers :=
              removeString (om_Finalizers (z_Meta zone)) privateDNSZoneFinalizer\<rparr>\<rparr>
        in case update_zone (Client r) zone w of
          (Inl err, w) \<Rightarrow>
            if \<not> api_IsNotFound err then (Inl err, w)
            else (case releaseDeletedZones r zones w of
                (Inl err, w) \<Rightarrow> (Inl err, w)
              | (Inr zones, w) \<Rightarrow> (Inr (zone # zones), w))
        | (Inr zone, w) \<Rightarrow>
            (case releaseDeletedZones r zones w of
               (Inl err, w) \<Rightarrow> (Inl err, w)
             | (Inr zones, w) \<Rightarrow> (Inr (zone # zones), w)))"

section \<open>Writing statuses\<close>

definition desired_conditions :: "PrivateDNSZone \<Rightarrow> zoneResult \<Rightarrow> bool \<Rightarrow> Condition list" where
  "desired_conditions zone result reloadable =
     res_conditions result
     @ (if res_rendered result \<and> length (res_excluded result) > 0 then
          [condition ConditionRecordsExcluded ConditionTrue reasonConflictingRecords
             (''withheld '' @ dec (length (res_excluded result)) @ '' name(s) whose records conflict: ''
              @ join '', '' (res_excluded result)) (z_Generation zone)]
        else [])
     @ (if res_rendered result then
          [condition ConditionCorefilePatched ConditionTrue ''Patched''
             ''CoreDNS Corefile managed block patched'' (z_Generation zone),
           condition ConditionVolumeMounted ConditionTrue ''Mounted''
             ''CoreDNS ConfigMap volume items are up to date'' (z_Generation zone),
           condition ConditionReloadTriggered ConditionTrue (reloadReason reloadable)
             (reloadMessage reloadable) (z_Generation zone),
           condition ConditionReady ConditionTrue ''Ready'' ''private DNS zone is ready'' (z_Generation zone)]
        else [])"

definition zone_status :: "conditions_lib \<Rightarrow> PrivateDNSZone \<Rightarrow> zoneResult \<Rightarrow> bool \<Rightarrow> PrivateDNSZoneStatus" where
  "zone_status lib zone result reloadable =
     \<lparr>zst_ObservedGeneration = z_Generation zone,
      zst_Conditions = applyConditions lib (zst_Conditions (z_Status zone))
        (desired_conditions zone result reloadable) zoneConditionTypes,
      zst_Records = int (res_records result), zst_Serial = res_serial result,
      zst_ZoneFileKey = res_zoneFileKey result, zst_LastAppliedHash = res_lastAppliedHash result\<rparr>"

fun writeZoneStatuses ::
    "'w PrivateDNSZoneReconciler \<Rightarrow> conditions_lib \<Rightarrow> PrivateDNSZone list \<Rightarrow> results \<Rightarrow> bool
     \<Rightarrow> 'w \<Rightarrow> api_error option \<times> 'w" where
  "writeZoneStatuses r lib [] results reloadable w = (None, w)"
| "writeZoneStatuses r lib (zone # zones) results reloadable w =
     (case map_of results (z_Name zone) of
        None \<Rightarrow> writeZoneStatuses r lib zones results reloadable w
      | Some result \<Rightarrow>
          if z_deleting zone then writeZoneStatuses r lib zones results reloadable w
          else
            let status = zone_status lib zone result reloadable in
            if z_Status zone = status then writeZoneStatuses r lib zones results reloadable w
            else
              case patch_zone_status (Client r) (zone\<lparr>z_Status := status\<rparr>) w of
                (Inl err, w) \<Rightarrow>
                  if \<not> api_IsNotFound err then (Some err, w)
                  else writeZoneStatuses r lib zones results reloadable w
              | (Inr _, w) \<Rightarrow> writeZoneStatuses r lib zones results reloadable w)"

definition record_status :: "conditions_lib \<Rightarrow> PrivateDNSRecord \<Rightarrow> recordOutcome \<Rightarrow> PrivateDNSRecordStatus" where
  "record_status lib rec outcome =
     (let conditionStatus = (if ro_accepted outcome then ConditionTrue else ConditionFalse) in
      \<lparr>rst_ObservedGeneration = om_Generation (rec_Meta rec),
       rst_Conditions = applyConditions lib (rst_Conditions (rec_Status rec))
         [condition ConditionAccepted conditionStatus (ro_reason outcome) (ro_message outcome)
            (om_Generation (rec_Meta rec))] [ConditionAccepted],
       rst_FQDN = ro_fqdn outcome\<rparr>)"

fun writeRecordStatuses ::
    "'w PrivateDNSZoneReconciler \<Rightarrow> conditions_lib \<Rightarrow> PrivateDNSRecord list \<Rightarrow> outcomes
     \<Rightarrow> 'w \<Rightarrow> api_error option \<times> 'w" where
  "writeRecordStatuses r lib [] outcomes w = (None, w)"
| "writeRecordStatuses r lib (rec # recs) outcomes w =
     (if om_DeletionTimestamp (rec_Meta rec) \<noteq> None then writeRecordStatuses r lib recs outcomes w
      else
        case map_of outcomes (key_of rec) of
          None \<Rightarrow> writeRecordStatuses r lib recs outcomes w
        | Some outcome \<Rightarrow>
            let status = record_status lib rec outcome in
            if rec_Status rec = status then writeRecordStatuses r lib recs outcomes w
            else
              case patch_record_status (Client r) (rec\<lparr>rec_Status := status\<rparr>) w of
                (Inl err, w) \<Rightarrow>
                  if \<not> api_IsNotFound err then (Some err, w)
                  else writeRecordStatuses r lib recs outcomes w
              | (Inr _, w) \<Rightarrow> writeRecordStatuses r lib recs outcomes w)"

section \<open>An unavailable CoreDNS\<close>

definition unavailable_step ::
    "PrivateDNSRecord list \<Rightarrow> string \<Rightarrow> results \<times> outcomes \<Rightarrow> PrivateDNSZone \<Rightarrow> results \<times> outcomes" where
  "unavailable_step records message st zone =
     (let (results, outcomes) = st in
      if z_deleting zone then (results, outcomes)
      else (AList.update (z_Name zone) (failedResult zone reasonCoreDNSUnavailable message) results,
            markZoneRecordsNotReady outcomes records (z_Name zone) message))"

definition reportCoreDNSUnavailable ::
    "'w PrivateDNSZoneReconciler \<Rightarrow> conditions_lib \<Rightarrow> PrivateDNSZone list \<Rightarrow> PrivateDNSRecord list \<Rightarrow> string \<Rightarrow> bool
     \<Rightarrow> 'w \<Rightarrow> ctrl_error option \<times> 'w" where
  "reportCoreDNSUnavailable r lib zones records message releaseTerminating w =
     (case (if releaseTerminating then releaseDeletedZones r zones w else (Inr zones, w)) of
        (Inl err, w) \<Rightarrow> (Some (ApiError err), w)
      | (Inr zones, w) \<Rightarrow>
          (let (results, outcomes) = foldl (unavailable_step records message) ([], newRecordOutcomes records) zones in
           case writeZoneStatuses r lib zones results False w of
             (Some err, w) \<Rightarrow> (Some (ApiError err), w)
           | (None, w) \<Rightarrow>
               (case writeRecordStatuses r lib records outcomes w of
                  (Some err, w) \<Rightarrow> (Some (ApiError err), w)
                | (None, w) \<Rightarrow> (Some (GoError (PlainError message)), w))))"

section \<open>Statuses that are already reported\<close>

definition reported_zone :: "conditions_lib \<Rightarrow> results \<Rightarrow> bool \<Rightarrow> PrivateDNSZone \<Rightarrow> PrivateDNSZone" where
  "reported_zone lib results reloadable zone =
     (case map_of results (z_Name zone) of
        None \<Rightarrow> zone
      | Some result \<Rightarrow> zone\<lparr>z_Status := zone_status lib zone result reloadable\<rparr>)"

definition reported_record :: "conditions_lib \<Rightarrow> outcomes \<Rightarrow> PrivateDNSRecord \<Rightarrow> PrivateDNSRecord" where
  "reported_record lib outcomes rec =
     (case map_of outcomes (key_of rec) of
        None \<Rightarrow> rec
      | Some outcome \<Rightarrow> rec\<lparr>rec_Status := record_status lib rec outcome\<rparr>)"

lemma desired_conditions_status [simp]:
  "desired_conditions (zone\<lparr>z_Status := st\<rparr>) result reloadable = desired_conditions zone result reloadable"
  by (simp add: desired_conditions_def)

lemma zone_status_again:
  assumes "lawful_conditions lib" and "lawful_conditions lib'"
    and "one_each (zst_Conditions (z_Status zone))" and "one_each (desired_conditions zone result reloadable)"
  shows "zone_status lib' (zone\<lparr>z_Status := zone_status lib zone result reloadable\<rparr>) result reloadable
    = zone_status lib zone result reloadable"
  using applyConditions_again [OF assms, of zoneConditionTypes] by (simp add: zone_status_def)

lemma record_status_again:
  assumes "lawful_conditions lib" and "lawful_conditions lib'" and "one_each (rst_Conditions (rec_Status rec))"
  shows "record_status lib' (rec\<lparr>rec_Status := record_status lib rec outcome\<rparr>) outcome = record_status lib rec outcome"
  using applyConditions_again [OF assms] by (simp add: record_status_def Let_def)

lemma writeZoneStatuses_reported:
  assumes "lawful_conditions lib" and "lawful_conditions lib'"
    and "list_all (\<lambda>z. one_each (zst_Conditions (z_Status z))) zones"
    and "list_all (\<lambda>(k, res). \<forall>zone reloadable. one_each (desired_conditions zone res reloadable)) results"
  shows "writeZoneStatuses r lib' (map (reported_zone lib results reloadable) zones) results reloadable w = (None, w)"
  using assms(3)
proof (induction zones)
  case (Cons z zs)
  show ?case
  proof (cases "map_of results (z_Name z)")
    case None
    then show ?thesis using Cons by (simp add: reported_zone_def)
  next
    case (Some res)
    then have "one_each (desired_conditions z res reloadable)"
      using assms(4) map_of_SomeD [OF Some] by (fastforce simp: list_all_iff)
    with Some zone_status_again [OF assms(1,2)] Cons show ?thesis by (simp add: reported_zone_def)
  qed
qed simp

lemma writeRecordStatuses_reported:
  assumes "lawful_conditions lib" and "lawful_conditions lib'"
    and "list_all (\<lambda>r. one_each (rst_Conditions (rec_Status r))) recs"
  shows "writeRecordStatuses r lib' (map (reported_record lib outcomes) recs) outcomes w = (None, w)"
  using assms(3)
proof (induction recs)
  case (Cons q qs)
  then show ?case
    using record_status_again [OF assms(1,2), of q]
    by (cases "map_of outcomes (key_of q)") (simp_all add: reported_record_def)
qed simp

end
