(* ===== verification/Controller_Reconcile.thy ===== *)
theory Controller_Reconcile
  imports Controller_Status Coredns_Block
begin

text \<open>
  \<^verbatim>\<open>Reconcile\<close> of \<^verbatim>\<open>internal/controller/privatednszone_controller.go\<close>, with
  \<^verbatim>\<open>holdLastKnownGood\<close>, the claim of live zones and the loop that renders every zone. What
  a pass takes from outside the cluster is a record: the clock, the iteration orders of Go
  and the two helpers for conditions.
\<close>

record environment =
  env_Now :: "string \<Rightarrow> utc_date"
  env_Records :: "Record order"
  env_Directives :: "ZoneDirective order"
  env_Answers :: "Record order"
  env_Items :: "KeyToPath order"
  env_Conditions :: conditions_lib

section \<open>Claiming the live zones\<close>

fun claimZones ::
    "'w PrivateDNSZoneReconciler \<Rightarrow> PrivateDNSZone list \<Rightarrow> 'w \<Rightarrow> (api_error + PrivateDNSZone list) \<times> 'w" where
  "claimZones r [] w = (Inr [], w)"
| "claimZones r (zone # zones) w =
     (if z_deleting zone \<or> containsString (om_Finalizers (z_Meta zone)) privateDNSZoneFinalizer then
        (case claimZones r zones w of
           (Inl err, w) \<Rightarrow> (Inl err, w)
         | (Inr zones, w) \<Rightarrow> (Inr (zone # zones), w))
      else
        case update_zone (Client r) (zone\<lparr>z_Meta := (z_Meta zone)\<lparr>om_Finalizers :=
              om_Finalizers (z_Meta zone) @ [privateDNSZoneFinalizer]\<rparr>\<rparr>) w of
          (Inl err, w) \<Rightarrow> (Inl err, w)
        | (Inr zone, w) \<Rightarrow>
            (case claimZones r zones w of
               (Inl err, w) \<Rightarrow> (Inl err, w)
             | (Inr zones, w) \<Rightarrow> (Inr (zone # zones), w)))"

section \<open>Rendering every zone\<close>

record rendering =
  rn_zoneFiles :: "(string, string) gomap"
  rn_directives :: "ZoneDirective list"
  rn_results :: results
  rn_outcomes :: outcomes

text \<open>What a pass reads before it renders: the blocks and the managed keys of the previous
  output.\<close>

record previous_output =
  po_Blocks :: "(string, string) gomap"
  po_ManagedKeys :: "string list"
  po_ConfigMap :: ConfigMap

definition holdLastKnownGood ::
    "PrivateDNSZone \<Rightarrow> string \<Rightarrow> previous_output \<Rightarrow> zoneResult \<Rightarrow> ZoneDirective list \<Rightarrow> (string, string) gomap
     \<Rightarrow> zoneResult \<times> ZoneDirective list \<times> (string, string) gomap" where
  "holdLastKnownGood zone normalizedZone po result directives zoneFiles =
     (case map_of (po_Blocks po) (trim_suffix normalizedZone ''.'') of
        None \<Rightarrow> (result, directives, zoneFiles)
      | Some raw \<Rightarrow>
          (let directives = directives @
                 [\<lparr>zd_Zone = normalizedZone, zd_DBFile = [], zd_Policy = [], zd_Records = [], zd_Raw = raw\<rparr>];
               result = result\<lparr>res_conditions := res_conditions result @
                 [condition ConditionLastKnownGoodApplied ConditionTrue (failureReason result)
                    ''kept the previously rendered output for this zone'' (z_Generation zone)]\<rparr>;
               key = ZoneFileKey normalizedZone
           in if \<not> containsString (po_ManagedKeys po) key then (result, directives, zoneFiles)
              else case map_of (cm_Data (po_ConfigMap po)) key of
                None \<Rightarrow> (result, directives, zoneFiles)
              | Some existing \<Rightarrow>
                  (result\<lparr>res_zoneFileKey := key\<rparr>, directives, AList.update key existing zoneFiles)))"

text \<open>A zone that fails after its name was normalised: its previous output is held, the result
  is recorded and its records are told.\<close>

definition failAndHold ::
    "PrivateDNSRecord list \<Rightarrow> previous_output \<Rightarrow> PrivateDNSZone \<Rightarrow> string \<Rightarrow> string \<Rightarrow> go_error \<Rightarrow> outcomes
     \<Rightarrow> rendering \<Rightarrow> rendering" where
  "failAndHold records po zone normalizedZone reason err outcomes rn =
     (let (result, directives, zoneFiles) =
        holdLastKnownGood zone normalizedZone po (failedResult zone reason (error_text err))
          (rn_directives rn) (rn_zoneFiles rn)
      in \<lparr>rn_zoneFiles = zoneFiles, rn_directives = directives,
          rn_results = AList.update (z_Name zone) result (rn_results rn),
          rn_outcomes = markZoneRecordsNotReady outcomes records (z_Name zone) (error_text err)\<rparr>)"

definition renderedResult ::
    "PrivateDNSZone \<Rightarrow> UnresolvedRecordPolicy \<Rightarrow> Record list \<Rightarrow> string list \<Rightarrow> ZoneFile \<Rightarrow> zoneResult" where
  "renderedResult zone policy compiled excluded zoneFile =
     (let result =
        \<lparr>res_conditions = [], res_records = renderedRecordCount compiled, res_serial = zf_Serial zoneFile,
         res_zoneFileKey = [], res_lastAppliedHash = zf_Hash zoneFile, res_rendered = True, res_excluded = excluded\<rparr>
      in if policy = UnresolvedRecordPolicyForward then
           result\<lparr>res_conditions := res_conditions result @
             [condition ConditionTemplateRendered ConditionTrue reasonRendered
                ''CoreDNS template records rendered successfully'' (z_Generation zone)]\<rparr>
         else
           result\<lparr>res_zoneFileKey := zf_Key zoneFile,
             res_conditions := res_conditions result @
             [condition ConditionZoneFileRendered ConditionTrue reasonRendered
                ''zone file rendered successfully'' (z_Generation zone)]\<rparr>)"

definition render_step ::
    "environment \<Rightarrow> PrivateDNSRecord list \<Rightarrow> previous_output \<Rightarrow> rendering \<Rightarrow> PrivateDNSZone \<Rightarrow> rendering" where
  "render_step env records po rn zone =
     (if z_deleting zone then rn
      else
        case NormalizeZone (zs_Zone (z_Spec zone)) of
          Inl err \<Rightarrow>
            rn\<lparr>rn_results := AList.update (z_Name zone) (failedResult zone reasonInvalidZone (error_text err)) (rn_results rn),
               rn_outcomes := markZoneRecordsNotReady (rn_outcomes rn) records (z_Name zone) (error_text err)\<rparr>
        | Inr normalizedZone \<Rightarrow>
            (let ((compiled, excluded, validationErrs), outcomes) =
               recordsForZone zone normalizedZone records (rn_outcomes rn)
             in if length validationErrs > 0 then
                  failAndHold records po zone normalizedZone reasonInvalidRecordSet (hd validationErrs) outcomes rn
                else
                  case RenderZone (env_Records env) zone compiled (env_Now env (z_Name zone))
                      \<lparr>pr_Serial = zst_Serial (z_Status zone), pr_Hash = zst_LastAppliedHash (z_Status zone)\<rparr> of
                    Inl err \<Rightarrow>
                      failAndHold records po zone normalizedZone reasonZoneRenderFailed err outcomes rn
                  | Inr zoneFile \<Rightarrow>
                      (let policy = effectivePolicy (zs_UnresolvedRecordPolicy (z_Spec zone)) in
                       \<lparr>rn_zoneFiles =
                          (if policy = UnresolvedRecordPolicyForward then rn_zoneFiles rn
                           else AList.update (zf_Key zoneFile) (zf_Content zoneFile) (rn_zoneFiles rn)),
                        rn_directives = rn_directives rn @
                          [\<lparr>zd_Zone = normalizedZone, zd_DBFile = zf_Key zoneFile, zd_Policy = policy,
                            zd_Records = compiled, zd_Raw = []\<rparr>],
                        rn_results = AList.update (z_Name zone)
                          (renderedResult zone policy compiled excluded zoneFile) (rn_results rn),
                        rn_outcomes = outcomes\<rparr>)))"

definition renderZones ::
    "environment \<Rightarrow> PrivateDNSRecord list \<Rightarrow> previous_output \<Rightarrow> PrivateDNSZone list \<Rightarrow> rendering" where
  "renderZones env records po zones =
     foldl (render_step env records po)
       \<lparr>rn_zoneFiles = [], rn_directives = [], rn_results = [], rn_outcomes = newRecordOutcomes records\<rparr> zones"

section \<open>Reconcile\<close>

definition publish ::
    "'w PrivateDNSZoneReconciler \<Rightarrow> environment \<Rightarrow> PrivateDNSZone list \<Rightarrow> PrivateDNSRecord list \<Rightarrow> ConfigMap
     \<Rightarrow> string \<Rightarrow> 'w \<Rightarrow> ctrl_error option \<times> 'w" where
  "publish r env zones records cm corefile w =
     (let previousManagedKeys = ManagedZoneKeys cm;
          po = \<lparr>po_Blocks = ExtractZoneBlocks corefile, po_ManagedKeys = previousManagedKeys, po_ConfigMap = cm\<rparr>
      in case claimZones r zones w of
        (Inl err, w) \<Rightarrow> (Some (ApiError err), w)
      | (Inr zones, w) \<Rightarrow>
          (let rn = renderZones env records po zones in
           case PatchCorefile (env_Directives env) (env_Answers env) corefile (rn_directives rn) of
             Inl err \<Rightarrow> (Some (GoError err), w)
           | Inr patchedCorefile \<Rightarrow>
               (let reloadable = HasReloadPlugin patchedCorefile in
                case commitCoreDNS r (env_Items env) cm patchedCorefile (rn_zoneFiles rn) previousManagedKeys
                    reloadable (combinedHash (rn_results rn)) w of
                  (Some err, w) \<Rightarrow> (Some err, w)
                | (None, w) \<Rightarrow>
                (case releaseDeletedZones r zones w of
                  (Inl err, w) \<Rightarrow> (Some (ApiError err), w)
                | (Inr zones, w) \<Rightarrow>
                (case writeZoneStatuses r (env_Conditions env) zones (rn_results rn) reloadable w of
                  (Some err, w) \<Rightarrow> (Some (ApiError err), w)
                | (None, w) \<Rightarrow>
                (case writeRecordStatuses r (env_Conditions env) records (rn_outcomes rn) w of
                  (Some err, w) \<Rightarrow> (Some (ApiError err), w)
                | (None, w) \<Rightarrow> (None, w)))))))"

definition Reconcile :: "'w PrivateDNSZoneReconciler \<Rightarrow> environment \<Rightarrow> 'w \<Rightarrow> ctrl_error option \<times> 'w" where
  "Reconcile r env w =
     (case list_zones (Client r) w of
        (Inl err, w) \<Rightarrow> (Some (ApiError err), w)
      | (Inr zones, w) \<Rightarrow>
     (case list_records (Client r) w of
        (Inl err, w) \<Rightarrow> (Some (ApiError err), w)
      | (Inr records, w) \<Rightarrow>
     (case get_configmap (Client r) (CoreDNSNamespace r) (CoreDNSConfigMap r) w of
        (Inl cmErr, w) \<Rightarrow>
          if api_IsNotFound cmErr then
            reportCoreDNSUnavailable r (env_Conditions env) zones records
              (''CoreDNS ConfigMap '' @ CoreDNSNamespace r @ ''/'' @ CoreDNSConfigMap r @ '' does not exist'') True w
          else reportCoreDNSUnavailable r (env_Conditions env) zones records (api_Error cmErr) False w
      | (Inr cm, w) \<Rightarrow>
          (let corefile = get_or_empty (cm_Data cm) corefileKey in
           if corefile = [] then
             reportCoreDNSUnavailable r (env_Conditions env) zones records
               (''CoreDNS ConfigMap '' @ CoreDNSNamespace r @ ''/'' @ CoreDNSConfigMap r @ '' has no Corefile key'') True w
           else publish r env zones records cm corefile w))))"

text \<open>The requests a change of a record enqueues: the reconcile request of the zone it names.\<close>

definition mapRecord :: "PrivateDNSRecord \<Rightarrow> string list" where
  "mapRecord record = [zr_Name (rs_ZoneRef (rec_Spec record))]"

end
