(* ===== verification/Controller_Files.thy ===== *)
theory Controller_Files
  imports Commit_Protocol Coredns_Block
begin

text \<open>
  Which files a patched Corefile names. The commit protocol asks that every named file is
  in the ConfigMap and mounted; here the files a Corefile names are computed from what is
  outside the managed block and from the directives that were rendered into it.
\<close>

section \<open>Words of a line\<close>

abbreviation word :: "string \<Rightarrow> bool" where
  "word w \<equiv> w \<noteq> [] \<and> (\<forall>c \<in> set w. graphic c)"

lemma fields_from_graphic:
  "\<forall>c \<in> set w. graphic c \<Longrightarrow> str_fields_from cur (w @ s) = str_fields_from (rev w @ cur) s"
proof (induction w arbitrary: cur)
  case (Cons c w)
  have "starts_with space_runes (c # w @ s) = None"
    by (rule starts_with_graphic) (use Cons.prems in simp)
  with Cons show ?case by (simp add: str_fields_from.simps [of cur "c # w @ s"])
qed simp

lemma starts_with_blank: "starts_with space_runes (CHR '' '' # s) = Some '' ''"
  by (simp add: starts_with_def space_runes_def)

lemma starts_with_end: "starts_with space_runes [] = None"
  by (simp add: starts_with_None)

lemma fields_from_blank:
  "str_fields_from cur (CHR '' '' # s) = (if cur = [] then [] else [rev cur]) @ str_fields s"
  by (simp add: str_fields_from.simps [of cur "CHR '' '' # s"] starts_with_blank str_fields_def)

lemma fields_blank [simp]: "str_fields (CHR '' '' # s) = str_fields s"
  by (simp add: str_fields_def fields_from_blank)

lemma fields_blanks: "str_fields (replicate k (CHR '' '') @ s) = str_fields s"
  by (induction k) simp_all

lemma fields_word:
  assumes "word w"
  shows "str_fields w = [w]" and "str_fields (w @ CHR '' '' # s) = w # str_fields s"
proof -
  have g: "\<forall>c \<in> set w. graphic c" using assms by blast
  show "str_fields w = [w]"
    using fields_from_graphic [OF g, of "[]" "[]"] assms
    by (simp add: str_fields_def str_fields_from.simps [of "rev w" "[]"] starts_with_end)
  show "str_fields (w @ CHR '' '' # s) = w # str_fields s"
    using fields_from_graphic [OF g, of "[]" "CHR '' '' # s"] assms
    by (simp add: str_fields_def fields_from_blank)
qed

text \<open>A line whose first word is not \<open>file\<close> names no file; a line of the file plugin names its
  first argument.\<close>

lemma named_file_other:
  assumes "word w" and "w \<noteq> ''file''"
  shows "named_file (replicate k (CHR '' '') @ w) = None"
    and "named_file (replicate k (CHR '' '') @ w @ CHR '' '' # s) = None"
  using assms by (auto simp: named_file_def fields_blanks fields_word split: list.splits)

lemma named_file_file:
  assumes "word key"
  shows "named_file (''    file /etc/coredns/'' @ key @ CHR '' '' # s) = Some key"
proof -
  have w: "word ''file''" "word (''/etc/coredns/'' @ key)" using assms by (auto simp: graphic_def)
  have "str_fields (replicate 4 (CHR '' '') @ ''file'' @ CHR '' '' # (''/etc/coredns/'' @ key) @ CHR '' '' # s)
      = ''file'' # (''/etc/coredns/'' @ key) # str_fields s"
    unfolding fields_blanks fields_word(2) [OF w(1)] fields_word(2) [OF w(2)] ..
  then have "str_fields (''    file /etc/coredns/'' @ key @ CHR '' '' # s)
      = ''file'' # (''/etc/coredns/'' @ key) # str_fields s"
    by (simp add: numeral_eq_Suc)
  then show ?thesis by (simp add: named_file_def file_dir_def)
qed

section \<open>The files of a text\<close>

lemma named_files_split: "named_files s = (\<Union>l \<in> set (split_on nl s). set_option (named_file l))"
proof -
  have "set (List.map_filter f xs) = (\<Union>x \<in> set xs. set_option (f x))" for f :: "string \<Rightarrow> string option" and xs
    by (induction xs) (auto simp: List.map_filter_simps split: option.splits)
  then show ?thesis by (simp add: named_files_def)
qed

lemma named_files_Nil [simp]: "named_files [] = {}"
  by code_simp

lemma named_files_line: "named_files (a @ nl # b) = named_files a \<union> named_files b"
  by (simp add: named_files_split split_on_append)

lemma named_files_Cons_line [simp]: "named_files (nl # b) = named_files b"
  using named_files_line [of "[]" b] by simp

lemma named_files_snoc_line [simp]: "named_files (a @ [nl]) = named_files a"
  using named_files_line [of a "[]"] by simp

lemma named_files_single: "nl \<notin> set l \<Longrightarrow> named_files l = set_option (named_file l)"
  by (simp add: named_files_split split_on_no_sep)

lemma named_files_trim [simp]: "named_files (trim_right_char nl s) = named_files s"
  by (induction s rule: rev_induct) auto

lemma named_files_lines:
  "ls \<noteq> [] \<Longrightarrow> \<forall>l \<in> set ls. nl \<notin> set l \<Longrightarrow> named_files (join [nl] ls) = (\<Union>l \<in> set ls. set_option (named_file l))"
  by (simp add: named_files_split split_join)

lemma named_files_blocks:
  "named_files (a @ concat (map (\<lambda>l. nl # nl # l) ls)) = named_files a \<union> (\<Union>l \<in> set ls. named_files l)"
proof (induction ls arbitrary: a)
  case (Cons l ls)
  have "a @ concat (map (\<lambda>l. nl # nl # l) (l # ls)) = (a @ nl # nl # l) @ concat (map (\<lambda>l. nl # nl # l) ls)"
    by simp
  then have "named_files (a @ concat (map (\<lambda>l. nl # nl # l) (l # ls)))
      = named_files (a @ nl # nl # l) \<union> (\<Union>l \<in> set ls. named_files l)" by (simp only: Cons.IH)
  also have "named_files (a @ nl # nl # l) = named_files a \<union> named_files l" by (simp add: named_files_line)
  finally show ?case by auto
qed simp

lemma markers_name_nothing: "named_files ManagedBlockStart = {}" "named_files ManagedBlockEnd = {}"
  by code_simp+

section \<open>The files of a directive\<close>

definition directive_files :: "Record order \<Rightarrow> ZoneDirective \<Rightarrow> string set" where
  "directive_files ordR d = named_files (join [nl] (directive_lines ordR d))"

lemma PatchCorefile_files:
  assumes "PatchCorefile ordD ordR cf ds = Inr cf'" and "is_order ordD"
  shows "named_files cf' = named_files (outside_block cf) \<union> (\<Union>d \<in> set ds. directive_files ordR d)"
proof -
  obtain s where s: "removeManagedBlock cf = Inr s"
    and cf': "cf' = trim_right_char nl s @ [nl, nl] @ renderManagedBlock ordD ordR ds @ [nl]"
    using assms(1) by (auto simp: PatchCorefile_def Let_def split: sum.splits)
  let ?ls = "map (\<lambda>d. join [nl] (directive_lines ordR d)) (sort_slice ordD zd_Zone ds)"
  have "map (directive_text ordR) es = map (\<lambda>l. nl # nl # l) (map (\<lambda>d. join [nl] (directive_lines ordR d)) es)" for es
    by (simp add: directive_text_lines)
  then have "renderManagedBlock ordD ordR ds = (ManagedBlockStart @ concat (map (\<lambda>l. nl # nl # l) ?ls)) @ nl # ManagedBlockEnd"
    by (simp only: renderManagedBlock_def append_assoc append.simps)
  then have "named_files (renderManagedBlock ordD ordR ds) = (\<Union>l \<in> set ?ls. named_files l)"
    by (simp only: named_files_line named_files_blocks markers_name_nothing) simp
  then have "named_files (renderManagedBlock ordD ordR ds) = (\<Union>d \<in> set ds. directive_files ordR d)"
    using assms(2) by (simp add: directive_files_def)
  moreover have "named_files cf' = named_files (trim_right_char nl s) \<union> named_files (renderManagedBlock ordD ordR ds)"
    unfolding cf' using named_files_line [of "trim_right_char nl s" "nl # renderManagedBlock ordD ordR ds @ [nl]"] by simp
  ultimately show ?thesis by (simp add: outside_block_def s)
qed

text \<open>A stanza that is held names the files it named before.\<close>

lemma directive_files_raw: "zd_Raw d \<noteq> [] \<Longrightarrow> directive_files ordR d = named_files (zd_Raw d)"
  by (simp add: directive_files_def directive_lines_def)

text \<open>A stanza with a zone file names that file only.\<close>

lemma fixed_lines:
  "named_file ''    errors'' = None" "named_file ''    cache 30'' = None" "named_file ''}'' = None"
  "named_file ''    forward . /etc/resolv.conf'' = None" "named_file ''        fallthrough'' = None"
  "named_file ''    }'' = None"
  by code_simp+

lemma named_file_header:
  assumes "\<forall>c \<in> set zone. graphic c"
  shows "named_file (zone @ '':53 {'') = None"
proof -
  have "word (zone @ '':53'')" using assms by (auto simp: graphic_def)
  moreover have "zone @ '':53'' \<noteq> ''file''"
  proof
    assume "zone @ '':53'' = ''file''"
    then have "last (zone @ '':53'') = last ''file''" by (rule arg_cong)
    then show False by simp
  qed
  ultimately show ?thesis using named_file_other(2) [of "zone @ '':53''" 0 "''{''"] by simp
qed

lemma directive_files_file:
  assumes "zd_Raw d = []" and "zd_Policy d \<noteq> UnresolvedRecordPolicyForward"
    and "word (zd_DBFile d)" and "\<forall>c \<in> set (zd_Zone d). graphic c"
  shows "directive_files ordR d = {zd_DBFile d}"
proof -
  let ?z = "trim_suffix (zd_Zone d) ''.''"
  have z: "\<forall>c \<in> set ?z. graphic c" using assms(4) set_trim_suffix by blast
  have no: "nl \<notin> set w" if "\<forall>c \<in> set w. graphic c" for w using that by (auto simp: graphic_def)
  have "directive_lines ordR d = [?z @ '':53 {'', ''    errors'', ''    file /etc/coredns/'' @ zd_DBFile d @ CHR '' '' # ?z,
      ''    cache 30'', ''}'']"
    using assms(1,2) by (simp add: directive_lines_def Let_def)
  moreover have "nl \<notin> set (zd_DBFile d)" "nl \<notin> set ?z" using no assms(3) z by blast+
  ultimately have "directive_files ordR d =
      (\<Union>l \<in> {?z @ '':53 {'', ''    errors'', ''    file /etc/coredns/'' @ zd_DBFile d @ CHR '' '' # ?z,
      ''    cache 30'', ''}''}. set_option (named_file l))"
    unfolding directive_files_def by (subst named_files_lines) (simp_all del: append.simps)
  then show ?thesis
    by (simp only: UN_insert UN_empty named_file_header [OF z] named_file_file [OF assms(3)] fixed_lines) simp
qed

text \<open>A stanza with templates names no file.\<close>

lemma template_lines_name_nothing:
  assumes "l \<in> set (template_lines s)"
  shows "named_file l = None"
proof -
  have w: "word ''template''" "word ''match''" "word ''answer''" by (simp_all add: graphic_def)
  have t: "''    template IN '' @ x = replicate 4 (CHR '' '') @ ''template'' @ CHR '' '' # ''IN '' @ x"
    and m: "''        match ^'' @ x = replicate 8 (CHR '' '') @ ''match'' @ CHR '' '' # ''^'' @ x"
    and a: "''        answer '' @ x = replicate 8 (CHR '' '') @ ''answer'' @ CHR '' '' # x" for x
    by (simp_all add: numeral_eq_Suc)
  consider x where "l = ''    template IN '' @ x" | x where "l = ''        match ^'' @ x"
    | x where "l = ''        answer '' @ x" | "l = ''        fallthrough''" | "l = ''    }''"
    using assms unfolding template_lines_def set_append set_map list.set by blast
  then show ?thesis
  proof cases
    case (1 x)
    show ?thesis unfolding 1 t by (rule named_file_other(2) [OF w(1)]) simp
  next
    case (2 x)
    show ?thesis unfolding 2 m by (rule named_file_other(2) [OF w(2)]) simp
  next
    case (3 x)
    show ?thesis unfolding 3 a by (rule named_file_other(2) [OF w(3)]) simp
  qed (simp_all only: fixed_lines)
qed

lemma directive_files_template:
  assumes "directive_ok ordR d z" and "is_order ordR" and "zd_Raw d = []"
    and "zd_Policy d = UnresolvedRecordPolicyForward" and "\<forall>c \<in> set (zd_Zone d). graphic c"
  shows "directive_files ordR d = {}"
proof -
  let ?z = "trim_suffix (zd_Zone d) ''.''"
  have z: "\<forall>c \<in> set ?z. graphic c" using assms(5) set_trim_suffix by blast
  have ls: "directive_lines ordR d = [?z @ '':53 {'', ''    errors'']
         @ (concat (map template_lines (groupTemplateRecords (DeduplicateAndSort ordR (zd_Records d))))
              @ [''    forward . /etc/resolv.conf''])
         @ [''    cache 30'', ''}'']"
    using assms(3,4) by (simp add: directive_lines_def Let_def)
  have "is_stanza z (directive_lines ordR d)" by (rule directive_stanza [OF assms(1,2)])
  then have "directive_lines ordR d \<noteq> []" "\<forall>l \<in> set (directive_lines ordR d). nl \<notin> set l"
    by (auto simp: is_stanza_def)
  then have "directive_files ordR d = (\<Union>l \<in> set (directive_lines ordR d). set_option (named_file l))"
    unfolding directive_files_def by (rule named_files_lines)
  moreover have "named_file l = None" if "l \<in> set (directive_lines ordR d)" for l
    using that named_file_header [OF z] template_lines_name_nothing fixed_lines unfolding ls by auto
  ultimately show ?thesis by simp
qed

section \<open>The stanzas that can be held\<close>

text \<open>A stanza read back from the block is not empty.\<close>

lemma ExtractZoneBlocks_nonempty:
  assumes "map_of (ExtractZoneBlocks cf) z = Some raw"
  shows "raw \<noteq> []"
proof -
  have "\<forall>z raw. map_of (snd (snd (foldl extract_step st ls))) z = Some raw \<longrightarrow> raw \<noteq> []"
    if "\<forall>z raw. map_of (snd (snd st)) z = Some raw \<longrightarrow> raw \<noteq> []" for st ls
    using that
  proof (induction ls arbitrary: st)
    case (Cons l ls)
    obtain zone cur m where st: "st = (zone, cur, m)" by (metis prod.exhaust)
    have "join [nl] (cur @ [''}'']) \<noteq> []" by (cases cur) (simp_all add: join_Cons)
    with Cons.prems have "\<forall>z raw. map_of (snd (snd (extract_step st l))) z = Some raw \<longrightarrow> raw \<noteq> []"
      by (auto simp: st extract_step_def Let_def split: option.splits)
    then show ?case using Cons.IH by simp
  qed simp
  from this [of "([], [], [])"] show ?thesis
    using assms by (auto simp: ExtractZoneBlocks_def Let_def split: option.splits if_splits)
qed

end
