(* ===== verification/Controller_Pass.thy ===== *)
theory Controller_Pass
  imports Controller_Reconcile Controller_Files Commit_Settled
begin

text \<open>
  What holds of one pass: the invariant of the loop that renders the zones, that a pass
  over a coherent state satisfies the hypotheses of the commit protocol, and that every
  state a pass stores is therefore safe.
\<close>

section \<open>Zone file keys\<close>

lemma ZoneFileKey_form:
  assumes "canonical n"
  shows "ZoneFileKey n = map file_key_char (trim_suffix n ''.'') @ ''-'' @ hex_bytes (take 3 (sha1_sum n)) @ ''.db''"
  using assms by (simp add: ZoneFileKey_def)

lemma ZoneFileKey_word:
  assumes "canonical n"
  shows "word (ZoneFileKey n)"
proof -
  have "graphic c" if "c \<in> set (trim_suffix n ''.'')" for c
    using that canonical_graphic [OF assms] set_trim_suffix by blast
  then have "graphic (file_key_char c)" if "c \<in> set (trim_suffix n ''.'')" for c
    using that by (simp add: file_key_char_def graphic_def)
  moreover have "graphic c" if "is_hex c" for c
    using that by (auto simp: is_hex_def is_digit_def graphic_def)
  ultimately show ?thesis
    unfolding ZoneFileKey_form [OF assms] using hex_bytes_hex by (auto simp: graphic_def)
qed

lemma ZoneFileKey_listable:
  assumes "canonical n"
  shows "listable_key (ZoneFileKey n)"
proof -
  have w: "word (ZoneFileKey n)" by (rule ZoneFileKey_word [OF assms])
  have "CHR '','' \<noteq> file_key_char c" if "c \<in> set (trim_suffix n ''.'')" for c
  proof -
    have "c \<in> set n" using that set_trim_suffix by blast
    then have "ldh c \<or> c = CHR ''.''" by (rule canonical_bytes [OF assms])
    then show ?thesis by (auto simp: file_key_char_def ldh_def label_rune_ok_def)
  qed
  moreover have "\<not> is_hex CHR '',''" by (simp add: is_hex_def is_digit_def)
  ultimately have "CHR '','' \<notin> set (ZoneFileKey n)"
    unfolding ZoneFileKey_form [OF assms] using hex_bytes_hex by auto
  then show ?thesis using w trim_space_all_graphic by (simp add: listable_key_def)
qed

lemma ZoneFileKey_not_corefile:
  assumes "canonical n"
  shows "ZoneFileKey n \<noteq> corefileKey"
proof
  assume "ZoneFileKey n = corefileKey"
  then have "last (ZoneFileKey n) = last corefileKey" by simp
  then show False unfolding ZoneFileKey_form [OF assms] by (simp add: corefileKey_def)
qed

section \<open>The invariant of the rendering loop\<close>

text \<open>
  A directive is rendered in this pass, with its zone file in the collected files unless it
  uses templates, or carries the stanza of the previous output, with its zone file when the
  operator manages one.
\<close>

definition rendered_directive :: "(string, string) gomap \<Rightarrow> ZoneDirective \<Rightarrow> bool" where
  "rendered_directive files d \<longleftrightarrow> zd_Raw d = []
     \<and> (if zd_Policy d = UnresolvedRecordPolicyForward then \<forall>r \<in> set (zd_Records d). record_clean r
        else zd_DBFile d = ZoneFileKey (zd_Zone d) \<and> zd_DBFile d \<in> keys_of files)"

definition held_directive :: "previous_output \<Rightarrow> (string, string) gomap \<Rightarrow> ZoneDirective \<Rightarrow> bool" where
  "held_directive po files d \<longleftrightarrow>
     map_of (po_Blocks po) (trim_suffix (zd_Zone d) ''.'') = Some (zd_Raw d)
     \<and> (ZoneFileKey (zd_Zone d) \<in> set (po_ManagedKeys po) \<and> has_key (cm_Data (po_ConfigMap po)) (ZoneFileKey (zd_Zone d))
        \<longrightarrow> ZoneFileKey (zd_Zone d) \<in> keys_of files)"

definition rendering_ok :: "previous_output \<Rightarrow> rendering \<Rightarrow> bool" where
  "rendering_ok po rn \<longleftrightarrow>
     distinct (map fst (rn_zoneFiles rn))
     \<and> (\<forall>k \<in> keys_of (rn_zoneFiles rn). \<exists>n. canonical n \<and> k = ZoneFileKey n)
     \<and> (\<forall>d \<in> set (rn_directives rn). canonical (zd_Zone d)
          \<and> (rendered_directive (rn_zoneFiles rn) d \<or> held_directive po (rn_zoneFiles rn) d))"

lemma rendered_mono: "rendered_directive files d \<Longrightarrow> keys_of files \<subseteq> keys_of files' \<Longrightarrow> rendered_directive files' d"
  by (auto simp: rendered_directive_def del: imageE)

lemma held_mono: "held_directive po files d \<Longrightarrow> keys_of files \<subseteq> keys_of files' \<Longrightarrow> held_directive po files' d"
  by (auto simp: held_directive_def del: imageE)

lemma rendering_ok_add:
  assumes "rendering_ok po rn" and "canonical n"
    and "rn_zoneFiles rn' = rn_zoneFiles rn \<or> rn_zoneFiles rn' = AList.update (ZoneFileKey n) c (rn_zoneFiles rn)"
    and "rn_directives rn' = rn_directives rn @ ds"
    and "\<And>d. d \<in> set ds \<Longrightarrow> canonical (zd_Zone d)
        \<and> (rendered_directive (rn_zoneFiles rn') d \<or> held_directive po (rn_zoneFiles rn') d)"
  shows "rendering_ok po rn'"
proof -
  have keys: "keys_of (rn_zoneFiles rn) \<subseteq> keys_of (rn_zoneFiles rn')"
    "keys_of (rn_zoneFiles rn') \<subseteq> insert (ZoneFileKey n) (keys_of (rn_zoneFiles rn))"
    using assms(3) by (elim disjE; simp add: subset_insertI)+
  have "distinct (map fst (rn_zoneFiles rn'))" using assms(1,3) by (auto simp: rendering_ok_def)
  moreover have "\<exists>n. canonical n \<and> k = ZoneFileKey n" if "k \<in> keys_of (rn_zoneFiles rn')" for k
    using that keys(2) assms(1,2) unfolding rendering_ok_def by blast
  moreover have "canonical (zd_Zone d) \<and> (rendered_directive (rn_zoneFiles rn') d \<or> held_directive po (rn_zoneFiles rn') d)"
    if "d \<in> set (rn_directives rn')" for d
    using that assms(1,4,5) rendered_mono [OF _ keys(1)] held_mono [OF _ keys(1)]
    unfolding rendering_ok_def by (metis Un_iff set_append)
  ultimately show ?thesis unfolding rendering_ok_def by blast
qed

lemma holdLastKnownGood_cases:
  obtains "holdLastKnownGood zone n po result ds files = (result, ds, files)"
  | d c result' files' where
      "holdLastKnownGood zone n po result ds files = (result', ds @ [d], files')"
      "zd_Zone d = n" "map_of (po_Blocks po) (trim_suffix n ''.'') = Some (zd_Raw d)"
      "files' = files \<and> \<not> (ZoneFileKey n \<in> set (po_ManagedKeys po) \<and> has_key (cm_Data (po_ConfigMap po)) (ZoneFileKey n))
       \<or> files' = AList.update (ZoneFileKey n) c files"
proof (cases "map_of (po_Blocks po) (trim_suffix n ''.'')")
  case None
  then show ?thesis using that(1) by (simp add: holdLastKnownGood_def)
next
  case (Some raw)
  let ?d = "\<lparr>zd_Zone = n, zd_DBFile = [], zd_Policy = [], zd_Records = [], zd_Raw = raw\<rparr>"
  let ?r = "result\<lparr>res_conditions := res_conditions result @
                 [condition ConditionLastKnownGoodApplied ConditionTrue (failureReason result)
                    ''kept the previously rendered output for this zone'' (z_Generation zone)]\<rparr>"
  consider "ZoneFileKey n \<notin> set (po_ManagedKeys po)"
    | "ZoneFileKey n \<in> set (po_ManagedKeys po)" "map_of (cm_Data (po_ConfigMap po)) (ZoneFileKey n) = None"
    | c where "ZoneFileKey n \<in> set (po_ManagedKeys po)" "map_of (cm_Data (po_ConfigMap po)) (ZoneFileKey n) = Some c"
    by blast
  then show ?thesis
  proof cases
    case 1
    then show ?thesis using Some
      by (intro that(2) [where d = ?d and result' = ?r and files' = files and c = "[]"]) (simp_all add: holdLastKnownGood_def Let_def)
  next
    case 2
    then show ?thesis using Some
      by (intro that(2) [where d = ?d and result' = ?r and files' = files and c = "[]"]) (simp_all add: holdLastKnownGood_def Let_def)
  next
    case (3 c)
    then show ?thesis using Some
      by (intro that(2) [where d = ?d and result' = "?r\<lparr>res_zoneFileKey := ZoneFileKey n\<rparr>" and c = c
            and files' = "AList.update (ZoneFileKey n) c files"]) (simp_all add: holdLastKnownGood_def Let_def)
  qed
qed

lemma failAndHold_ok:
  assumes "rendering_ok po rn" and "canonical n"
  shows "rendering_ok po (failAndHold records po zone n reason err outs rn)"
proof -
  let ?result = "failedResult zone reason (error_text err)"
  show ?thesis
  proof (rule holdLastKnownGood_cases [of zone n po ?result "rn_directives rn" "rn_zoneFiles rn"])
    let ?rn = "failAndHold records po zone n reason err outs rn"
    assume "holdLastKnownGood zone n po ?result (rn_directives rn) (rn_zoneFiles rn) = (?result, rn_directives rn, rn_zoneFiles rn)"
    then have "rn_zoneFiles ?rn = rn_zoneFiles rn" "rn_directives ?rn = rn_directives rn"
      by (simp_all add: failAndHold_def)
    then show ?thesis using assms(1) unfolding rendering_ok_def by metis
  next
    fix d c result' files'
    assume h: "holdLastKnownGood zone n po ?result (rn_directives rn) (rn_zoneFiles rn) = (result', rn_directives rn @ [d], files')"
      and d: "zd_Zone d = n" "map_of (po_Blocks po) (trim_suffix n ''.'') = Some (zd_Raw d)"
      and files: "files' = rn_zoneFiles rn \<and> \<not> (ZoneFileKey n \<in> set (po_ManagedKeys po) \<and> has_key (cm_Data (po_ConfigMap po)) (ZoneFileKey n))
        \<or> files' = AList.update (ZoneFileKey n) c (rn_zoneFiles rn)"
    from files have key: "ZoneFileKey n \<in> set (po_ManagedKeys po) \<and> has_key (cm_Data (po_ConfigMap po)) (ZoneFileKey n)
        \<longrightarrow> ZoneFileKey n \<in> keys_of files'"
    proof
      assume "files' = AList.update (ZoneFileKey n) c (rn_zoneFiles rn)"
      then show ?thesis by simp
    qed blast
    have held: "held_directive po files' d" unfolding held_directive_def d(1) using d(2) key by blast
    let ?rn = "failAndHold records po zone n reason err outs rn"
    have rn: "rn_zoneFiles ?rn = files'" "rn_directives ?rn = rn_directives rn @ [d]"
      by (simp_all add: failAndHold_def h)
    show ?thesis
    proof (rule rendering_ok_add [OF assms _ rn(2)])
      show "rn_zoneFiles ?rn = rn_zoneFiles rn \<or> rn_zoneFiles ?rn = AList.update (ZoneFileKey n) c (rn_zoneFiles rn)"
        unfolding rn(1) using files by blast
      show "canonical (zd_Zone e) \<and> (rendered_directive (rn_zoneFiles ?rn) e \<or> held_directive po (rn_zoneFiles ?rn) e)"
        if "e \<in> set [d]" for e
        using that held assms(2) d(1) unfolding rn(1) by simp
    qed
  qed
qed

lemma compiled_clean:
  assumes "recordsForZone zone n external outcomes = ((compiled, excluded, blocking), outcomes')" and "canonical n"
    and "r \<in> set compiled"
  shows "record_clean r"
proof -
  note A = compiled_valid(2) [OF assms(1,3)]
  have v: "ValidateRecord r = []" and f: "canonical (r_FQDN r)" and z: "r_Zone r = n" using admitted_valid [OF A] by simp_all
  from v obtain u where "validateValue (r_Type r) u = None" by (auto simp: ValidateRecord_Nil neq_Nil_conv)
  then have "nl \<notin> set (r_Type r)" by (auto dest!: validateValue_type)
  with f z assms(2) show ?thesis by (simp add: record_clean_def canonical_no_newline)
qed

lemma render_step_ok:
  assumes "rendering_ok po rn"
  shows "rendering_ok po (render_step env records po rn zone)"
proof (cases "z_deleting zone")
  case False
  show ?thesis
  proof (cases "NormalizeZone (zs_Zone (z_Spec zone))")
    case (Inl err)
    then show ?thesis using assms False by (simp add: render_step_def rendering_ok_def)
  next
    case (Inr n)
    then have n: "canonical n" by (rule NormalizeZone_canonical)
    obtain compiled excluded errs outs where r: "recordsForZone zone n records (rn_outcomes rn) = ((compiled, excluded, errs), outs)"
      by (metis prod.exhaust)
    show ?thesis
    proof (cases "errs = []")
      case False
      then show ?thesis using \<open>\<not> z_deleting zone\<close> Inr r failAndHold_ok [OF assms n] by (simp add: render_step_def)
    next
      case True
      let ?prev = "\<lparr>pr_Serial = zst_Serial (z_Status zone), pr_Hash = zst_LastAppliedHash (z_Status zone)\<rparr>"
      show ?thesis
      proof (cases "RenderZone (env_Records env) zone compiled (env_Now env (z_Name zone)) ?prev")
        case (Inl err)
        then show ?thesis using False Inr r True failAndHold_ok [OF assms n] by (simp add: render_step_def)
      next
        case zf: (Inr zf)
        then have key: "zf_Key zf = ZoneFileKey n" using Inr by (auto simp: RenderZone_Inr_iff)
        let ?rn = "render_step env records po rn zone"
        let ?policy = "effectivePolicy (zs_UnresolvedRecordPolicy (z_Spec zone))"
        let ?d = "\<lparr>zd_Zone = n, zd_DBFile = ZoneFileKey n, zd_Policy = ?policy, zd_Records = compiled, zd_Raw = []\<rparr>"
        have rn: "rn_zoneFiles ?rn = (if ?policy = UnresolvedRecordPolicyForward then rn_zoneFiles rn
            else AList.update (ZoneFileKey n) (zf_Content zf) (rn_zoneFiles rn))" "rn_directives ?rn = rn_directives rn @ [?d]"
          using False Inr r True zf key by (simp_all add: render_step_def Let_def)
        have "rendered_directive (rn_zoneFiles ?rn) ?d"
          using compiled_clean [OF r n] by (simp add: rn(1) rendered_directive_def)
        note rendered = this
        show ?thesis
        proof (rule rendering_ok_add [OF assms n _ rn(2)])
          show "rn_zoneFiles ?rn = rn_zoneFiles rn
              \<or> rn_zoneFiles ?rn = AList.update (ZoneFileKey n) (zf_Content zf) (rn_zoneFiles rn)"
            unfolding rn(1) by simp
          show "canonical (zd_Zone e) \<and> (rendered_directive (rn_zoneFiles ?rn) e \<or> held_directive po (rn_zoneFiles ?rn) e)"
            if "e \<in> set [?d]" for e
          proof -
            have e: "e = ?d" using that by simp
            show ?thesis unfolding e using rendered n by simp
          qed
        qed
      qed
    qed
  qed
qed (simp add: render_step_def assms)

lemma renderZones_ok: "rendering_ok po (renderZones env records po zones)"
proof -
  have "rendering_ok po (foldl (render_step env records po) rn zones)" if "rendering_ok po rn" for rn
    using that by (induction zones arbitrary: rn) (simp_all add: render_step_ok)
  note step = this
  show ?thesis unfolding renderZones_def by (rule step) (simp add: rendering_ok_def)
qed

section \<open>The conditions of the results\<close>

text \<open>The results of a pass ask for one condition of each type.\<close>

abbreviation conditions_ok :: "zoneResult \<Rightarrow> bool" where
  "conditions_ok result \<equiv> \<forall>zone reloadable. one_each (desired_conditions zone result reloadable)"

lemma failedResult_conditions: "conditions_ok (failedResult zone reason message)"
  by (simp add: desired_conditions_def failedResult_def)

lemma held_conditions:
  "holdLastKnownGood zone n po (failedResult zone reason message) ds files = (result, ds', files') \<Longrightarrow> conditions_ok result"
  by (auto simp: holdLastKnownGood_def Let_def desired_conditions_def failedResult_def split: option.splits if_splits)

lemma rendered_conditions: "conditions_ok (renderedResult zone policy compiled excluded zf)"
  by (auto simp: desired_conditions_def renderedResult_def Let_def)

lemma list_all_update: "list_all P m \<Longrightarrow> P (k, v) \<Longrightarrow> list_all P (AList.update k v m)"
  by (induction m) auto

lemma failAndHold_conditions:
  assumes "list_all (\<lambda>(k, res). conditions_ok res) (rn_results rn)"
  shows "list_all (\<lambda>(k, res). conditions_ok res) (rn_results (failAndHold records po zone n reason err outs rn))"
proof -
  obtain result ds files where h: "holdLastKnownGood zone n po (failedResult zone reason (error_text err))
      (rn_directives rn) (rn_zoneFiles rn) = (result, ds, files)" by (metis prod.exhaust)
  have "conditions_ok result" by (rule held_conditions [OF h])
  then show ?thesis by (simp add: failAndHold_def h list_all_update assms)
qed

lemma render_step_conditions:
  assumes "list_all (\<lambda>(k, res). conditions_ok res) (rn_results rn)"
  shows "list_all (\<lambda>(k, res). conditions_ok res) (rn_results (render_step env records po rn zone))"
  using assms failAndHold_conditions failedResult_conditions rendered_conditions
  by (simp add: render_step_def Let_def list_all_update split: sum.split prod.split)

lemma renderZones_conditions:
  "list_all (\<lambda>(k, res). conditions_ok res) (rn_results (renderZones env records po zones))"
proof -
  have "list_all (\<lambda>(k, res). conditions_ok res) (rn_results (foldl (render_step env records po) rn zones))"
    if "list_all (\<lambda>(k, res). conditions_ok res) (rn_results rn)" for rn
    using that by (induction zones arbitrary: rn) (simp_all add: render_step_conditions)
  note step = this
  show ?thesis unfolding renderZones_def by (rule step) simp
qed

section \<open>Coherent states\<close>

text \<open>
  What a pass relies on of the stored CoreDNS objects: they are safe, the annotation does
  not list the Corefile, the files named outside the managed block are not the operator's
  and are there, and each stanza of the block names at most the zone file of its zone, which
  is recorded as managed.
\<close>

abbreviation corefile_of :: "ConfigMap \<Rightarrow> string" where
  "corefile_of cm \<equiv> get_or_empty (cm_Data cm) corefileKey"

definition block_owned :: "ConfigMap \<Rightarrow> bool" where
  "block_owned cm \<longleftrightarrow>
     (\<forall>(z, raw) \<in> set (ExtractZoneBlocks (corefile_of cm)).
        named_files raw \<subseteq> {ZoneFileKey (z @ ''.'')} \<inter> set (ManagedZoneKeys cm))"

definition coherent :: "string \<Rightarrow> coredns_state \<Rightarrow> bool" where
  "coherent name s \<longleftrightarrow>
     safe (layout_of name s)
     \<and> corefileKey \<notin> set (ManagedZoneKeys (fst s))
     \<and> (\<forall>f \<in> named_files (outside_block (corefile_of (fst s))).
          f \<notin> set (ManagedZoneKeys (fst s)) \<and> visible (layout_of name s) f)
     \<and> block_owned (fst s)"

abbreviation previous_of :: "ConfigMap \<Rightarrow> previous_output" where
  "previous_of cm \<equiv>
     \<lparr>po_Blocks = ExtractZoneBlocks (corefile_of cm), po_ManagedKeys = ManagedZoneKeys cm, po_ConfigMap = cm\<rparr>"

lemma canonical_zone:
  assumes "canonical n"
  shows "trim_suffix n ''.'' @ ''.'' = n" and "trim_suffix n ''.'' \<noteq> []" and "\<not> list_ex header_space (trim_suffix n ''.'')"
    and "\<forall>c \<in> set n. graphic c"
proof -
  obtain v where v: "n = v @ ''.''" "valid_name v" using assms by (auto simp: canonical_iff)
  then show "trim_suffix n ''.'' @ ''.'' = n" by simp
  show "trim_suffix n ''.'' \<noteq> []" using v valid_name_ends by auto
  show g: "\<forall>c \<in> set n. graphic c" using canonical_graphic [OF assms] by blast
  have "\<not> header_space c" if "graphic c" for c using that by (auto simp: header_space_def graphic_def)
  then show "\<not> list_ex header_space (trim_suffix n ''.'')" using g v(1) by (auto simp: list_ex_iff)
qed

text \<open>The files of a directive are the operator's and are among the collected files.\<close>

lemma directive_files_covered:
  assumes "coherent name (cm, d)" and "is_order ordR"
    and "rendering_ok (previous_of cm) rn" and "dir \<in> set (rn_directives rn)"
  shows "directive_files ordR dir \<subseteq> {ZoneFileKey (zd_Zone dir)} \<inter> keys_of (rn_zoneFiles rn)"
proof -
  let ?n = "zd_Zone dir"
  have n: "canonical ?n" and "rendered_directive (rn_zoneFiles rn) dir \<or> held_directive (previous_of cm) (rn_zoneFiles rn) dir"
    using assms(3,4) unfolding rendering_ok_def by blast+
  then consider "rendered_directive (rn_zoneFiles rn) dir" | "held_directive (previous_of cm) (rn_zoneFiles rn) dir" by blast
  then show ?thesis
  proof cases
    case 1
    note z = canonical_zone [OF n]
    show ?thesis
    proof (cases "zd_Policy dir = UnresolvedRecordPolicyForward")
      case True
      have "directive_ok ordR dir (trim_suffix ?n ''.'')"
        using 1 True z by (simp add: directive_ok_def rendered_directive_def)
      then show ?thesis
        using directive_files_template [OF _ assms(2) _ True z(4)] 1 by (simp add: rendered_directive_def)
    next
      case False
      then have key: "zd_DBFile dir = ZoneFileKey ?n" "zd_DBFile dir \<in> keys_of (rn_zoneFiles rn)" "zd_Raw dir = []"
        using 1 unfolding rendered_directive_def by (metis (mono_tags))+
      have "word (zd_DBFile dir)" unfolding key(1) by (rule ZoneFileKey_word [OF n])
      from directive_files_file [OF key(3) False this z(4)] show ?thesis using key(1,2) by simp
    qed
  next
    case 2
    then have raw: "map_of (ExtractZoneBlocks (corefile_of cm)) (trim_suffix ?n ''.'') = Some (zd_Raw dir)"
      and keep: "ZoneFileKey ?n \<in> set (ManagedZoneKeys cm) \<and> has_key (cm_Data cm) (ZoneFileKey ?n)
        \<longrightarrow> ZoneFileKey ?n \<in> keys_of (rn_zoneFiles rn)"
      unfolding held_directive_def by simp_all
    have "named_files (zd_Raw dir) \<subseteq> {ZoneFileKey (trim_suffix ?n ''.'' @ ''.'')} \<inter> set (ManagedZoneKeys cm)"
      using assms(1) map_of_SomeD [OF raw] unfolding coherent_def block_owned_def by auto
    then have files: "directive_files ordR dir \<subseteq> {ZoneFileKey ?n} \<inter> set (ManagedZoneKeys cm)"
      using directive_files_raw [OF ExtractZoneBlocks_nonempty [OF raw]] canonical_zone(1) [OF n] by simp
    moreover have "set (ManagedZoneKeys cm) \<subseteq> dom (map_of (cm_Data cm))"
      using assms(1) by (simp add: coherent_def safe_def layout_of_def)
    ultimately show ?thesis using keep by blast
  qed
qed

text \<open>A pass over a coherent state satisfies what the commit protocol asks for.\<close>

lemma pass_commit_ready:
  assumes "coherent name (cm, d)" and "is_order (env_Directives env)" and "is_order (env_Answers env)"
    and "rendering_ok (previous_of cm) rn"
    and "PatchCorefile (env_Directives env) (env_Answers env) (corefile_of cm) (rn_directives rn) = Inr patched"
  shows "commit_ready name cm d patched (rn_zoneFiles rn) (ManagedZoneKeys cm)"
proof -
  have nonempty: "patched \<noteq> []" using assms(5) by (auto simp: PatchCorefile_def Let_def split: sum.splits)
  have keys: "listable_key k \<and> k \<noteq> corefileKey" if "k \<in> keys_of (rn_zoneFiles rn)" for k
  proof -
    have "\<forall>k \<in> keys_of (rn_zoneFiles rn). \<exists>n. canonical n \<and> k = ZoneFileKey n"
      using assms(4) unfolding rendering_ok_def by (elim conjE)
    with that obtain n where "canonical n" "k = ZoneFileKey n" by blast
    then show ?thesis using ZoneFileKey_listable ZoneFileKey_not_corefile by simp
  qed
  have outside: "f \<notin> set (ManagedZoneKeys cm) \<and> visible (layout_of name (cm, d)) f"
    if "f \<in> named_files (outside_block (corefile_of cm))" for f
    using assms(1) that by (simp add: coherent_def)
  have named: "f \<in> keys_of (rn_zoneFiles rn) \<or> (f \<notin> set (ManagedZoneKeys cm) \<and> visible (layout_of name (cm, d)) f)"
    if "f \<in> named_files patched" for f
    using that unfolding PatchCorefile_files [OF assms(5,2)]
  proof (elim UnE UN_E)
    fix dir assume "dir \<in> set (rn_directives rn)" "f \<in> directive_files (env_Answers env) dir"
    then show ?thesis using directive_files_covered [OF assms(1,3,4)] by blast
  qed (use outside in blast)
  have distinct: "distinct (map fst (rn_zoneFiles rn))" using assms(4) unfolding rendering_ok_def by blast
  have "corefileKey \<notin> set (ManagedZoneKeys cm)" using assms(1) by (simp add: coherent_def)
  then show ?thesis
    unfolding commit_ready_def using nonempty keys named distinct by blast
qed

section \<open>Every state a pass stores is safe\<close>

text \<open>The calls outside the commit leave the CoreDNS objects alone.\<close>

lemma claimZones_carries:
  "carries_status Q states (Client r) \<Longrightarrow> claimZones r zones w = (res, w') \<Longrightarrow> Q (states w) (states w')"
proof (induction zones arbitrary: w res w')
  case (Cons z zs)
  note C = carries_statusD [OF Cons.prems(1)]
  show ?case
    using Cons.prems(2) Cons.IH [OF Cons.prems(1)] C(2) [OF C(3)] C(3)
    by (auto split: if_splits prod.splits sum.splits)
qed (simp add: carries_statusD)

lemma releaseDeletedZones_carries:
  "carries_status Q states (Client r) \<Longrightarrow> releaseDeletedZones r zones w = (res, w') \<Longrightarrow> Q (states w) (states w')"
proof (induction zones arbitrary: w res w')
  case (Cons z zs)
  note C = carries_statusD [OF Cons.prems(1)]
  show ?case
    using Cons.prems(2) Cons.IH [OF Cons.prems(1)] C(2) [OF C(3)] C(3)
    by (auto simp: Let_def split: if_splits prod.splits sum.splits)
qed (simp add: carries_statusD)

lemma writeZoneStatuses_carries:
  "carries_status Q states (Client r) \<Longrightarrow> writeZoneStatuses r lib zones results reloadable w = (res, w') \<Longrightarrow> Q (states w) (states w')"
proof (induction zones arbitrary: w res w')
  case (Cons z zs)
  note C = carries_statusD [OF Cons.prems(1)]
  show ?case
    using Cons.prems(2) Cons.IH [OF Cons.prems(1)] C(2) [OF C(4)] C(4)
    by (auto simp: Let_def split: if_splits prod.splits sum.splits option.splits)
qed (simp add: carries_statusD)

lemma writeRecordStatuses_carries:
  "carries_status Q states (Client r) \<Longrightarrow> writeRecordStatuses r lib recs outcomes w = (res, w') \<Longrightarrow> Q (states w) (states w')"
proof (induction recs arbitrary: w res w')
  case (Cons z zs)
  note C = carries_statusD [OF Cons.prems(1)]
  show ?case
    using Cons.prems(2) Cons.IH [OF Cons.prems(1)] C(2) [OF C(5)] C(5)
    by (auto simp: Let_def split: if_splits prod.splits sum.splits option.splits)
qed (simp add: carries_statusD)

lemma reportCoreDNSUnavailable_carries:
  assumes "carries_status Q states (Client r)"
    and "reportCoreDNSUnavailable r lib zones records message release w = (res, w')"
  shows "Q (states w) (states w')"
proof -
  note T = carries_statusD(2) [OF assms(1)]
  note C = releaseDeletedZones_carries [OF assms(1)] writeZoneStatuses_carries [OF assms(1)] writeRecordStatuses_carries [OF assms(1)]
  note CT = C(1) C(1) [THEN T] C(2) [THEN T] C(3) [THEN T] C(2) C(3)
  show ?thesis
    using assms(2) CT
    by (auto simp: reportCoreDNSUnavailable_def split: if_splits prod.splits sum.splits option.splits)
qed

lemmas claimZones_quiet = claimZones_carries [OF lawful_carries]
  and releaseDeletedZones_quiet = releaseDeletedZones_carries [OF lawful_carries]
  and writeZoneStatuses_quiet = writeZoneStatuses_carries [OF lawful_carries]
  and writeRecordStatuses_quiet = writeRecordStatuses_carries [OF lawful_carries]
  and reportCoreDNSUnavailable_quiet = reportCoreDNSUnavailable_carries [OF lawful_carries]

text \<open>What \<^verbatim>\<open>publish\<close> does to the CoreDNS objects is what its commit does.\<close>

lemma reportCoreDNSUnavailable_error:
  "reportCoreDNSUnavailable r lib zones records message release w = (res, w') \<Longrightarrow> res \<noteq> None"
  by (auto simp: reportCoreDNSUnavailable_def split: if_splits prod.splits sum.splits option.splits)

lemma publish_carries:
  assumes "carries_status Q states (Client r)"
    and "publish r env zones records cm corefile w = (res, w')"
  obtains "Q (states w) (states w')" "res \<noteq> None"
  | zones' w1 patched res2 w2 where
      "claimZones r zones w = (Inr zones', w1)" "Q (states w) (states w1)"
      "PatchCorefile (env_Directives env) (env_Answers env) corefile
         (rn_directives (renderZones env records \<lparr>po_Blocks = ExtractZoneBlocks corefile,
            po_ManagedKeys = ManagedZoneKeys cm, po_ConfigMap = cm\<rparr> zones')) = Inr patched"
      "commitCoreDNS r (env_Items env) cm patched
         (rn_zoneFiles (renderZones env records \<lparr>po_Blocks = ExtractZoneBlocks corefile,
            po_ManagedKeys = ManagedZoneKeys cm, po_ConfigMap = cm\<rparr> zones')) (ManagedZoneKeys cm)
         (HasReloadPlugin patched)
         (combinedHash (rn_results (renderZones env records \<lparr>po_Blocks = ExtractZoneBlocks corefile,
            po_ManagedKeys = ManagedZoneKeys cm, po_ConfigMap = cm\<rparr> zones'))) w1 = (res2, w2)"
      "Q (states w2) (states w')" "res2 \<noteq> None \<Longrightarrow> res = res2 \<and> w' = w2"
proof -
  let ?po = "\<lparr>po_Blocks = ExtractZoneBlocks corefile, po_ManagedKeys = ManagedZoneKeys cm, po_ConfigMap = cm\<rparr>"
  obtain c w1 where c: "claimZones r zones w = (c, w1)" by force
  note s1 = claimZones_carries [OF assms(1) c]
  show ?thesis
  proof (cases c)
    case (Inl err)
    then show ?thesis using that(1) assms(2) c s1 by (auto simp: publish_def)
  next
    case (Inr zones')
    let ?rn = "renderZones env records ?po zones'"
    show ?thesis
    proof (cases "PatchCorefile (env_Directives env) (env_Answers env) corefile (rn_directives ?rn)")
      case (Inl err)
      then show ?thesis using that(1) assms(2) c s1 Inr by (auto simp: publish_def Let_def)
    next
      case patched: (Inr patched)
      obtain res2 w2 where k: "commitCoreDNS r (env_Items env) cm patched (rn_zoneFiles ?rn) (ManagedZoneKeys cm)
          (HasReloadPlugin patched) (combinedHash (rn_results ?rn)) w1 = (res2, w2)" by force
      note run = assms(2) [unfolded publish_def Let_def, simplified c Inr patched k sum.case prod.case]
      note C = releaseDeletedZones_carries [OF assms(1)] writeZoneStatuses_carries [OF assms(1)]
          writeRecordStatuses_carries [OF assms(1)]
      note T = carries_statusD(2) [OF assms(1)]
      have "Q (states w2) (states w') \<and> (res2 \<noteq> None \<longrightarrow> res = res2 \<and> w' = w2)"
        using run C(1) C(1) [THEN T] C(2) [THEN T] C(2,3) carries_statusD(1) [OF assms(1)]
        by (cases res2) (auto split: prod.splits sum.splits option.splits)
      then show ?thesis using that(2) c s1 Inr patched k by blast
    qed
  qed
qed

lemmas publish_states = publish_carries [OF lawful_carries]

lemma Reconcile_cases:
  assumes "lawful_store (Client r) states" and "Reconcile r env w = (res, w')"
  obtains "states w' = states w" "res \<noteq> None"
  | zones records cm d w1 w2 w3 where "list_zones (Client r) w = (Inr zones, w1)"
      "list_records (Client r) w1 = (Inr records, w2)"
      "get_configmap (Client r) (CoreDNSNamespace r) (CoreDNSConfigMap r) w2 = (Inr cm, w3)"
      "states w3 = states w" "hd (states w) = (cm, d)" "corefile_of cm \<noteq> []"
      "publish r env zones records cm (corefile_of cm) w3 = (res, w')"
proof -
  obtain lz w1 where lz: "list_zones (Client r) w = (lz, w1)" by force
  note s1 = quietD [OF lawful_storeD(8) [OF assms(1)] lz]
  obtain lr w2 where lr: "list_records (Client r) w1 = (lr, w2)" by force
  note s2 = quietD [OF lawful_storeD(9) [OF assms(1)] lr]
  obtain gc w3 where gc: "get_configmap (Client r) (CoreDNSNamespace r) (CoreDNSConfigMap r) w2 = (gc, w3)" by force
  note s3 = quietD [OF lawful_storeD(6) [OF assms(1)] gc]
  note run = assms(2) [unfolded Reconcile_def Let_def, simplified lz lr gc prod.case]
  have report: "states w' = states w \<and> res \<noteq> None"
    if "reportCoreDNSUnavailable r lib zones records message release w3 = (res, w')" for lib zones records message release
    using reportCoreDNSUnavailable_quiet [OF assms(1) that] reportCoreDNSUnavailable_error [OF that] s1 s2 s3 by simp
  show ?thesis
  proof (cases lz)
    case (Inl e)
    then show ?thesis using that(1) run s1 by auto
  next
    case zones: (Inr zones)
    show ?thesis
    proof (cases lr)
      case (Inl e)
      then show ?thesis using that(1) run zones s1 s2 by auto
    next
      case records: (Inr records)
      show ?thesis
      proof (cases gc)
        case (Inl e)
        then show ?thesis using that(1) run zones records report by (auto split: if_splits)
      next
        case (Inr cm)
        have cm: "cm = fst (hd (states w2))"
          using readsD [OF lawful_storeD(2) [OF assms(1)]] gc Inr by blast
        show ?thesis
        proof (cases "corefile_of cm = []")
          case True
          then show ?thesis using that(1) run zones records Inr report by auto
        next
          case False
          then have "publish r env zones records cm (corefile_of cm) w3 = (res, w')"
            using run zones records Inr by simp
          then show ?thesis
            using that(2) [of zones w1 records w2 cm w3 "snd (hd (states w))"] False cm s1 s2 s3 lz lr gc zones records Inr
            by simp
        qed
      qed
    qed
  qed
qed

text \<open>The safety of a pass.\<close>

lemma Reconcile_states_safe:
  assumes "lawful_store (Client r) states"
    and "is_order (env_Directives env)" and "is_order (env_Answers env)" and "is_order (env_Items env)"
    and "coherent (CoreDNSConfigMap r) (hd (states w))"
    and "Reconcile r env w = (res, w')"
  shows "\<exists>hs. states w' = hs @ states w \<and> (\<forall>s \<in> set hs. safe (layout_of (CoreDNSConfigMap r) s))"
proof (rule Reconcile_cases [OF assms(1,6)])
  fix zones records cm d wa wb w1
  assume s1: "states w1 = states w" and h: "hd (states w) = (cm, d)"
    and p: "publish r env zones records cm (corefile_of cm) w1 = (res, w')"
  have coh: "coherent (CoreDNSConfigMap r) (cm, d)" using assms(5) h by simp
  show ?thesis
  proof (rule publish_states [OF assms(1) p])
    fix zones' w2 patched res2 w3
    let ?rn = "renderZones env records (previous_of cm) zones'"
    assume s2: "states w2 = states w1"
      and patched: "PatchCorefile (env_Directives env) (env_Answers env) (corefile_of cm) (rn_directives ?rn) = Inr patched"
      and commit: "commitCoreDNS r (env_Items env) cm patched (rn_zoneFiles ?rn) (ManagedZoneKeys cm)
          (HasReloadPlugin patched) (combinedHash (rn_results ?rn)) w2 = (res2, w3)"
      and s3: "states w' = states w3"
    have ready: "commit_ready (CoreDNSConfigMap r) cm d patched (rn_zoneFiles ?rn) (ManagedZoneKeys cm)"
      by (rule pass_commit_ready [OF coh assms(2,3) renderZones_ok patched])
    have "hd (states w2) = (cm, d)" using h s1 s2 by simp
    from commitCoreDNS_all_safe [OF assms(1,4) commit this refl ready] coh s1 s2 s3
    show ?thesis by (auto simp: coherent_def)
  qed (use s1 in \<open>auto intro: exI [of _ "[]"]\<close>)
qed (auto intro: exI [of _ "[]"])

end
