(* ===== verification/Records_Properties.thy ===== *)
theory Records_Properties
  imports Controller_Pass Controller_Properties Dns_Properties
begin

text \<open>
  The properties of how the controller compiles the records of a zone, decides about each
  record and reports conditions, each followed by an application at a concrete input where
  it has hypotheses.
\<close>

section \<open>Concrete inputs\<close>

definition sample_spec :: "string \<Rightarrow> string \<Rightarrow> string \<Rightarrow> string \<Rightarrow> PrivateDNSRecord" where
  "sample_spec ns name owner v =
     \<lparr>rec_Meta = \<lparr>om_Name = name, om_Namespace = ns, om_Generation = 1, om_DeletionTimestamp = None, om_Finalizers = []\<rparr>,
      rec_Spec = \<lparr>rs_ZoneRef = \<lparr>zr_Name = ''example''\<rparr>, rs_Name = owner, rs_Type = ''A'', rs_TTL = None, rs_Values = [v]\<rparr>,
      rec_Status = \<lparr>rst_ObservedGeneration = 0, rst_Conditions = [], rst_FQDN = []\<rparr>\<rparr>"

definition sample_closed_zone :: PrivateDNSZone where
  "sample_closed_zone =
     sample_zone\<lparr>z_Spec := (z_Spec sample_zone)\<lparr>zs_AllowedNamespaces := \<lparr>MatchNames = [''team-a'']\<rparr>\<rparr>\<rparr>"

definition sample_env :: environment where
  "sample_env =
     \<lparr>env_Now = (\<lambda>name. sample_date), env_Records = rev, env_Directives = rev, env_Answers = rev, env_Items = rev,
      env_Conditions = clock_lib 7\<rparr>"

definition sample_previous :: previous_output where
  "sample_previous = \<lparr>po_Blocks = [], po_ManagedKeys = [], po_ConfigMap = sample_configmap\<rparr>"

section \<open>Conditions\<close>

text \<open>C20. After applyConditions, a reader finds each desired condition with its new status, reason,
  message and generation, and with the transition time it had when its status did not
  change; no condition the operator owns beyond the desired ones; and every condition it
  does not own exactly as it was.\<close>
theorem applyConditions_exact:
  assumes "lawful_conditions lib" and "one_each existing" and "one_each desired"
  shows "one_each (applyConditions lib existing desired owned)
    \<and> cond_of (applyConditions lib existing desired owned) t =
      (case cond_of desired t of
         Some d \<Rightarrow> Some (d\<lparr>c_LastTransitionTime :=
            c_LastTransitionTime (the (cond_of (applyConditions lib existing desired owned) t))\<rparr>)
       | None \<Rightarrow> if t \<in> set owned then None else cond_of existing t)
    \<and> (case (cond_of existing t, cond_of desired t) of
         (Some e, Some d) \<Rightarrow> c_Status e = c_Status d \<longrightarrow>
            c_LastTransitionTime (the (cond_of (applyConditions lib existing desired owned) t)) = c_LastTransitionTime e
       | _ \<Rightarrow> True)"
proof (cases "cond_of desired t")
  case None
  then have "t \<notin> c_Type ` set desired" by (simp add: cond_of_None)
  with None applyConditions_lookup(2,3) [OF assms] applyConditions_one_each [OF assms(1,2)] show ?thesis
    by (auto split: option.split)
next
  case (Some d)
  then have "d \<in> set desired" "c_Type d = t" using cond_of_Some by blast+
  with applyConditions_lookup(1) [OF assms, of d owned] obtain c now where
    "cond_of (applyConditions lib existing desired owned) t = Some (d\<lparr>c_LastTransitionTime := now\<rparr>)"
    "\<forall>e. cond_of existing t = Some e \<and> c_Status e = c_Status d \<longrightarrow> now = c_LastTransitionTime e"
    by (auto simp: updates_def)
  with Some applyConditions_one_each [OF assms(1,2)] show ?thesis by (auto split: option.split)
qed

theorem applyConditions_exact_witness:
  "cond_of (applyConditions (clock_lib 9)
      [\<lparr>c_Type = ''Ready'', c_Status = ''True'', c_ObservedGeneration = 1, c_LastTransitionTime = 5, c_Reason = ''Ready'', c_Message = []\<rparr>,
       \<lparr>c_Type = ''Foreign'', c_Status = ''True'', c_ObservedGeneration = 1, c_LastTransitionTime = 4, c_Reason = [], c_Message = []\<rparr>,
       \<lparr>c_Type = ''LastKnownGoodApplied'', c_Status = ''True'', c_ObservedGeneration = 1, c_LastTransitionTime = 3, c_Reason = [], c_Message = []\<rparr>]
      [condition ''Ready'' ''True'' ''Ready'' ''m'' 2] zoneConditionTypes) ''LastKnownGoodApplied'' = None"
  using applyConditions_exact [OF lawful_clock [of 9],
    of "[\<lparr>c_Type = ''Ready'', c_Status = ''True'', c_ObservedGeneration = 1, c_LastTransitionTime = 5, c_Reason = ''Ready'', c_Message = []\<rparr>,
       \<lparr>c_Type = ''Foreign'', c_Status = ''True'', c_ObservedGeneration = 1, c_LastTransitionTime = 4, c_Reason = [], c_Message = []\<rparr>,
       \<lparr>c_Type = ''LastKnownGoodApplied'', c_Status = ''True'', c_ObservedGeneration = 1, c_LastTransitionTime = 3, c_Reason = [], c_Message = []\<rparr>]"
       "[condition ''Ready'' ''True'' ''Ready'' ''m'' 2]" zoneConditionTypes "''LastKnownGoodApplied''"]
  by (simp add: zoneConditionTypes_def)

text \<open>C21. Statuses settle: once the statuses of a pass are stored, reporting the same results again
  makes no call with the API at all, whatever the clock, so a status write does not cause
  another one.\<close>
theorem statuses_settle:
  assumes "lawful_conditions lib" and "lawful_conditions lib'"
    and "list_all (\<lambda>z. one_each (zst_Conditions (z_Status z))) zones"
    and "list_all (\<lambda>r. one_each (rst_Conditions (rec_Status r))) records"
    and "results = rn_results (renderZones env records po zones0)"
  shows "writeZoneStatuses r lib' (map (reported_zone lib results reloadable) zones) results reloadable w = (None, w)
    \<and> writeRecordStatuses r lib' (map (reported_record lib outcomes) records) outcomes w = (None, w)"
proof -
  have "list_all (\<lambda>(k, res). conditions_ok res) results"
    unfolding assms(5) by (rule renderZones_conditions)
  note results = this
  show ?thesis
    by (intro conjI writeZoneStatuses_reported [OF assms(1-3) results] writeRecordStatuses_reported [OF assms(1,2,4)])
qed

theorem statuses_settle_witness:
  "writeZoneStatuses sample_reconciler (clock_lib 8)
     (map (reported_zone (clock_lib 7) (rn_results (renderZones sample_env [] sample_previous [sample_zone])) True) [sample_zone])
     (rn_results (renderZones sample_env [] sample_previous [sample_zone])) True (sample_sim [Refused])
   = (None, sample_sim [Refused])"
  using statuses_settle [OF lawful_clock [of 7] lawful_clock [of 8], of "[sample_zone]" "[]"
      "rn_results (renderZones sample_env [] sample_previous [sample_zone])" sample_env sample_previous "[sample_zone]"]
  by (simp add: sample_zone_def)

section \<open>The records of a zone\<close>

text \<open>C16. Whatever a zone and the records that name it hold, the records compiled for it are valid as a
  set, lie in the zone and carry its name; so when nothing blocks the zone, rendering it
  fails only on a TTL that is not positive.\<close>
theorem recordsForZone_renderable:
  assumes "recordsForZone zone n external outcomes = ((compiled, excluded, blocking), outcomes')"
    and "NormalizeZone (zs_Zone (z_Spec zone)) = Inr n" and "is_order ord"
  shows "ValidateRecords compiled = []
    \<and> set compiled \<subseteq> {r. canonical (r_FQDN r) \<and> in_zone n (r_FQDN r) \<and> r_Zone r = n}
    \<and> ((\<exists>zf. RenderZone ord zone compiled now previous = Inr zf) \<longleftrightarrow> 0 < sint (zone_ttl zone))"
proof -
  note valid = compiled_valid [OF assms(1)]
  have n: "canonical n" by (rule NormalizeZone_canonical [OF assms(2)])
  then have "set compiled \<subseteq> {r. canonical (r_FQDN r) \<and> in_zone n (r_FQDN r) \<and> r_Zone r = n}"
    using valid(2) admitted_valid [of _ zone n external] by auto
  moreover have "ValidateRecords (DeduplicateAndSort ord compiled) = []"
    by (rule ValidateRecords_DeduplicateAndSort [OF assms(3) valid(1)])
  ultimately show ?thesis using valid(1) assms(2) by (simp add: RenderZone_Inr_iff)
qed

theorem recordsForZone_renderable_witness:
  "\<exists>compiled excluded blocking outcomes' zf.
     recordsForZone sample_zone ''example.com.'' [sample_spec ''team-a'' ''web'' ''www'' ''10.0.0.1''] []
       = ((compiled, excluded, blocking), outcomes')
     \<and> RenderZone rev sample_zone compiled sample_date \<lparr>pr_Serial = [], pr_Hash = []\<rparr> = Inr zf"
proof -
  obtain compiled excluded blocking outcomes' where r: "recordsForZone sample_zone ''example.com.''
      [sample_spec ''team-a'' ''web'' ''www'' ''10.0.0.1''] [] = ((compiled, excluded, blocking), outcomes')"
    by (metis prod.exhaust)
  have "NormalizeZone (zs_Zone (z_Spec sample_zone)) = Inr ''example.com.''"
    using sample_normalize by (simp add: sample_zone_def)
  from recordsForZone_renderable [OF r this is_order_rev, of sample_date "\<lparr>pr_Serial = [], pr_Hash = []\<rparr>"] r
  show ?thesis by (auto simp: zone_ttl_def sample_zone_def DefaultTTL_def)
qed

text \<open>C14. A record that is not admitted to a zone has no influence on it: leaving out any records of
  which each names another zone, comes from a namespace the zone does not allow, or does not
  compile, changes neither what is published nor what is withheld nor what blocks the zone.\<close>
theorem recordsForZone_isolation:
  assumes "\<forall>e \<in> set external. \<not> keep e \<longrightarrow>
      zone_of e \<noteq> z_Name zone
      \<or> \<not> namespaceAllowed (zs_AllowedNamespaces (z_Spec zone)) (rec_Namespace e)
      \<or> isl (compileExternal zone n (zone_ttl zone) e)"
  shows "fst (recordsForZone zone n (filter keep external) outcomes) = fst (recordsForZone zone n external outcomes')"
proof (rule recordsForZone_admitted_only, rule external_records_filter, intro ballI impI)
  fix e assume e: "e \<in> set external" "\<not> keep e"
  have "isl (compileExternal zone n (zone_ttl zone) e)"
    if "\<not> namespaceAllowed (zs_AllowedNamespaces (z_Spec zone)) (rec_Namespace e)"
    using that by (simp add: compileExternal_def)
  then show "zone_of e \<noteq> z_Name zone \<or> isl (compileExternal zone n (zone_ttl zone) e)"
    using assms e by blast
qed

theorem recordsForZone_isolation_witness:
  "fst (recordsForZone sample_closed_zone ''example.com.'' [sample_spec ''team-a'' ''web'' ''www'' ''10.0.0.1''] [])
   = fst (recordsForZone sample_closed_zone ''example.com.''
       [sample_spec ''team-a'' ''web'' ''www'' ''10.0.0.1'', sample_spec ''team-b'' ''web'' ''www'' ''10.0.0.2''] [])"
  using recordsForZone_isolation [where zone = sample_closed_zone and keep = "\<lambda>e. rec_Namespace e = ''team-a''"
      and external = "[sample_spec ''team-a'' ''web'' ''www'' ''10.0.0.1'', sample_spec ''team-b'' ''web'' ''www'' ''10.0.0.2'']"
      and n = "''example.com.''" and outcomes = "[]" and outcomes' = "[]"]
  by (simp add: sample_spec_def sample_closed_zone_def sample_zone_def namespaceAllowed_def)

text \<open>C15. The zone is blocked exactly by its own spec: by an inline record that does not compile, or by
  one at a name whose admitted records conflict. Published is every admitted record at a
  name without conflict, and the withheld names are those with one. So a conflict among delegated
  records alone withholds its name and blocks nothing, as the comment in the body of
  \<^verbatim>\<open>recordsForZone\<close> says; the comment above the function says that any inconsistency between
  admitted records blocks the zone, which the code does not do.\<close>
theorem recordsForZone_blocking:
  assumes "recordsForZone zone n external outcomes = ((compiled, excluded, blocking), outcomes')"
  defines "admitted \<equiv> admitted_records zone n external"
  shows "(blocking = [] \<longleftrightarrow> inline_errors zone n = []
      \<and> (\<forall>r \<in> set (inline_records zone n). \<not> cname_conflict admitted (r_FQDN r)))
    \<and> compiled = filter (\<lambda>r. \<not> cname_conflict admitted (r_FQDN r)) admitted
    \<and> sorted excluded \<and> distinct excluded
    \<and> set excluded = (\<lambda>r. trim_suffix (r_FQDN r) ''.'') ` {r \<in> set admitted. cname_conflict admitted (r_FQDN r)}"
proof -
  note R = recordsForZone_result [OF assms(1), folded admitted_def]
  have "filter (\<lambda>r. cname_conflict admitted (r_FQDN r) \<and> from_spec r) admitted = []
      \<longleftrightarrow> (\<forall>r \<in> set (inline_records zone n). \<not> cname_conflict admitted (r_FQDN r))"
    using from_spec_admitted [of _ zone n external]
    by (auto simp: filter_empty_conv admitted_def admitted_records_def)
  then have "blocking = [] \<longleftrightarrow> inline_errors zone n = []
      \<and> (\<forall>r \<in> set (inline_records zone n). \<not> cname_conflict admitted (r_FQDN r))"
    unfolding R(3) by simp
  with R(1,2) show ?thesis by simp
qed

theorem recordsForZone_blocking_witness:
  "\<exists>compiled excluded blocking outcomes'.
     recordsForZone sample_zone ''example.com.'' [sample_spec ''team-a'' ''web'' ''www'' ''10.0.0.1''] []
       = ((compiled, excluded, blocking), outcomes')
     \<and> blocking = []"
proof -
  obtain compiled excluded blocking outcomes' where r: "recordsForZone sample_zone ''example.com.''
      [sample_spec ''team-a'' ''web'' ''www'' ''10.0.0.1''] [] = ((compiled, excluded, blocking), outcomes')"
    by (metis prod.exhaust)
  have "inline_errors sample_zone ''example.com.'' = []" "inline_records sample_zone ''example.com.'' = []"
    by (simp_all add: inline_errors_def inline_records_def sample_zone_def)
  with recordsForZone_blocking [OF r] r show ?thesis by auto
qed

text \<open>C17. Every record that names the zone is told its verdict and the outcomes of the others are left
  alone; and a record is told it is accepted exactly when it is among the published ones.\<close>
theorem recordsForZone_verdicts:
  assumes "recordsForZone zone n external outcomes = ((compiled, excluded, blocking), outcomes')"
    and "distinct (map key_of (candidates zone external))"
  shows "map_of outcomes' k =
      (case find (\<lambda>e. key_of e = k) (candidates zone external) of
         None \<Rightarrow> map_of outcomes k
       | Some e \<Rightarrow> Some (verdict zone n external e))
    \<and> (e \<in> set (candidates zone external) \<longrightarrow>
        (ro_accepted (the (map_of outcomes' (key_of e))) \<longleftrightarrow>
          (\<exists>r \<in> set compiled. compileExternal zone n (zone_ttl zone) e = Inr r)))"
proof -
  note V = recordsForZone_outcomes [OF assms]
  have "map_of outcomes' (key_of e) = Some (verdict zone n external e)" if "e \<in> set (candidates zone external)"
    using V [of "key_of e"] find_unique(1) [OF assms(2) that] by simp
  with V [of k] verdict_accepted [OF assms(1)] show ?thesis by simp
qed

theorem recordsForZone_verdicts_witness:
  "\<exists>compiled excluded blocking outcomes'.
     recordsForZone sample_closed_zone ''example.com.'' [sample_spec ''team-b'' ''web'' ''www'' ''10.0.0.1''] []
       = ((compiled, excluded, blocking), outcomes')
     \<and> map_option ro_reason (map_of outcomes' ''team-b/web'') = Some ''NamespaceNotAllowed''"
proof -
  let ?e = "sample_spec ''team-b'' ''web'' ''www'' ''10.0.0.1''"
  obtain compiled excluded blocking outcomes' where r: "recordsForZone sample_closed_zone ''example.com.'' [?e] []
      = ((compiled, excluded, blocking), outcomes')"
    by (metis prod.exhaust)
  have cand: "candidates sample_closed_zone [?e] = [?e]"
    by (simp add: candidates_def sample_closed_zone_def sample_zone_def sample_spec_def)
  have key: "key_of ?e = ''team-b/web''" by (simp add: recordKey_def sample_spec_def)
  have "ro_reason (verdict sample_closed_zone ''example.com.'' [?e] ?e) = ''NamespaceNotAllowed''"
    by (simp add: verdict_def compileExternal_def sample_closed_zone_def sample_zone_def sample_spec_def
        namespaceAllowed_def rejected_def)
  with recordsForZone_verdicts [OF r, of "''team-b/web''" ?e] r key show ?thesis by (simp add: cand)
qed

end
