(* ===== verification/Controller_Run.thy ===== *)
theory Controller_Run
  imports Controller_Pass
begin

text \<open>
  Whole passes: the rendering loop as a function of each zone alone, what a successful pass
  leaves behind, the calls of a pass as a log, and passes over an API server that answers.
\<close>

section \<open>The rendering loop, zone by zone\<close>

text \<open>What one zone contributes: its result, at most one stanza and at most one zone file.\<close>

type_synonym contribution = "zoneResult \<times> ZoneDirective list \<times> (string \<times> string) list"

definition held_contribution :: "previous_output \<Rightarrow> PrivateDNSZone \<Rightarrow> string \<Rightarrow> string \<Rightarrow> go_error \<Rightarrow> contribution" where
  "held_contribution po zone n reason err =
     holdLastKnownGood zone n po (failedResult zone reason (error_text err)) [] []"

definition contribution_of ::
    "environment \<Rightarrow> PrivateDNSRecord list \<Rightarrow> previous_output \<Rightarrow> PrivateDNSZone \<Rightarrow> contribution" where
  "contribution_of env records po zone =
     (case NormalizeZone (zs_Zone (z_Spec zone)) of
        Inl err \<Rightarrow> (failedResult zone reasonInvalidZone (error_text err), [], [])
      | Inr n \<Rightarrow>
          (let (compiled, excluded, errs) = fst (recordsForZone zone n records []) in
           if errs \<noteq> [] then held_contribution po zone n reasonInvalidRecordSet (hd errs)
           else
             case RenderZone (env_Records env) zone compiled (env_Now env (z_Name zone))
                 \<lparr>pr_Serial = zst_Serial (z_Status zone), pr_Hash = zst_LastAppliedHash (z_Status zone)\<rparr> of
               Inl err \<Rightarrow> held_contribution po zone n reasonZoneRenderFailed err
             | Inr zf \<Rightarrow>
                 (let policy = effectivePolicy (zs_UnresolvedRecordPolicy (z_Spec zone)) in
                  (renderedResult zone policy compiled excluded zf,
                   [\<lparr>zd_Zone = n, zd_DBFile = zf_Key zf, zd_Policy = policy, zd_Records = compiled, zd_Raw = []\<rparr>],
                   if policy = UnresolvedRecordPolicyForward then [] else [(zf_Key zf, zf_Content zf)]))))"

abbreviation add_files :: "(string, string) gomap \<Rightarrow> (string \<times> string) list \<Rightarrow> (string, string) gomap" where
  "add_files m fs \<equiv> foldl (\<lambda>m p. AList.update (fst p) (snd p) m) m fs"

lemma holdLastKnownGood_frame:
  "holdLastKnownGood zone n po result ds files =
     (let (result', ds', fs) = holdLastKnownGood zone n po result [] [] in (result', ds @ ds', add_files files fs))"
  by (simp add: holdLastKnownGood_def Let_def split: option.split)

lemma failAndHold_contribution:
  assumes "held_contribution po zone n reason err = (result, ds, fs)"
  shows "rn_results (failAndHold records po zone n reason err outs rn) = AList.update (z_Name zone) result (rn_results rn)"
    and "rn_directives (failAndHold records po zone n reason err outs rn) = rn_directives rn @ ds"
    and "rn_zoneFiles (failAndHold records po zone n reason err outs rn) = add_files (rn_zoneFiles rn) fs"
  using assms
  by (simp_all add: failAndHold_def held_contribution_def
      holdLastKnownGood_frame [where ds = "rn_directives rn" and files = "rn_zoneFiles rn"])

lemma render_step_contribution:
  assumes "\<not> z_deleting zone" and "contribution_of env records po zone = (result, ds, fs)"
  shows "rn_results (render_step env records po rn zone) = AList.update (z_Name zone) result (rn_results rn)
    \<and> rn_directives (render_step env records po rn zone) = rn_directives rn @ ds
    \<and> rn_zoneFiles (render_step env records po rn zone) = add_files (rn_zoneFiles rn) fs"
proof (cases "NormalizeZone (zs_Zone (z_Spec zone))")
  case (Inl err)
  then show ?thesis using assms by (auto simp: render_step_def contribution_of_def)
next
  case (Inr n)
  obtain compiled excluded errs outs where r: "recordsForZone zone n records (rn_outcomes rn) = ((compiled, excluded, errs), outs)"
    by (metis prod.exhaust)
  have r0: "fst (recordsForZone zone n records []) = (compiled, excluded, errs)"
    using recordsForZone_admitted_only [OF refl, of zone n records "[]" "rn_outcomes rn"] r by simp
  show ?thesis
  proof (cases "errs = []")
    case False
    then have "held_contribution po zone n reasonInvalidRecordSet (hd errs) = (result, ds, fs)"
      using assms(2) Inr r0 by (simp add: contribution_of_def)
    from failAndHold_contribution [OF this] show ?thesis using assms(1) Inr r False by (simp add: render_step_def)
  next
    case True
    show ?thesis
    proof (cases "RenderZone (env_Records env) zone compiled (env_Now env (z_Name zone))
        \<lparr>pr_Serial = zst_Serial (z_Status zone), pr_Hash = zst_LastAppliedHash (z_Status zone)\<rparr>")
      case (Inl err)
      then have "held_contribution po zone n reasonZoneRenderFailed err = (result, ds, fs)"
        using assms(2) Inr r0 True by (simp add: contribution_of_def)
      from failAndHold_contribution [OF this] show ?thesis using assms(1) Inr r True Inl by (simp add: render_step_def)
    next
      case zf: (Inr zf)
      then show ?thesis using assms Inr r r0 True by (auto simp: render_step_def contribution_of_def Let_def)
    qed
  qed
qed

abbreviation live :: "PrivateDNSZone list \<Rightarrow> PrivateDNSZone list" where
  "live zones \<equiv> filter (\<lambda>z. \<not> z_deleting z) zones"

lemma render_loop:
  fixes env records po
  defines "cb \<equiv> contribution_of env records po"
  shows "rn_results (foldl (render_step env records po) rn zones)
      = foldl (\<lambda>m z. AList.update (z_Name z) (fst (cb z)) m) (rn_results rn) (live zones)"
    and "rn_directives (foldl (render_step env records po) rn zones)
      = rn_directives rn @ concat (map (\<lambda>z. fst (snd (cb z))) (live zones))"
    and "rn_zoneFiles (foldl (render_step env records po) rn zones)
      = add_files (rn_zoneFiles rn) (concat (map (\<lambda>z. snd (snd (cb z))) (live zones)))"
proof (induction zones arbitrary: rn)
  case (Cons z zs)
  obtain res ds fs where cb: "cb z = (res, ds, fs)" by (metis prod.exhaust)
  have step: "rn_results (render_step env records po rn z) =
        (if z_deleting z then rn_results rn else AList.update (z_Name z) res (rn_results rn))"
      "rn_directives (render_step env records po rn z) = (if z_deleting z then rn_directives rn else rn_directives rn @ ds)"
      "rn_zoneFiles (render_step env records po rn z) =
        (if z_deleting z then rn_zoneFiles rn else add_files (rn_zoneFiles rn) fs)" for rn
    using render_step_contribution [OF _ cb [unfolded cb_def], of rn] by (auto simp: render_step_def)
  {
    case 1 show ?case by (simp add: Cons.IH(1) step(1) cb)
  next
    case 2 show ?case by (simp add: Cons.IH(2) step(2) cb)
  next
    case 3 show ?case by (simp add: Cons.IH(3) step(3) cb)
  }
qed simp_all

lemma renderZones_contributions:
  shows "rn_directives (renderZones env records po zones)
      = concat (map (\<lambda>z. fst (snd (contribution_of env records po z))) (live zones))"
    and "rn_zoneFiles (renderZones env records po zones)
      = add_files [] (concat (map (\<lambda>z. snd (snd (contribution_of env records po z))) (live zones)))"
    and "distinct (map z_Name (live zones)) \<Longrightarrow>
      map_of (rn_results (renderZones env records po zones)) k
      = map_option (\<lambda>z. fst (contribution_of env records po z)) (find (\<lambda>z. z_Name z = k) (live zones))"
proof -
  show "rn_directives (renderZones env records po zones)
      = concat (map (\<lambda>z. fst (snd (contribution_of env records po z))) (live zones))"
    "rn_zoneFiles (renderZones env records po zones)
      = add_files [] (concat (map (\<lambda>z. snd (snd (contribution_of env records po z))) (live zones)))"
    by (simp_all add: renderZones_def render_loop)
  assume d: "distinct (map z_Name (live zones))"
  have "find (\<lambda>z. z_Name z = k) (rev (live zones)) = find (\<lambda>z. z_Name z = k) (live zones)"
  proof (cases "find (\<lambda>z. z_Name z = k) (live zones)")
    case None
    then have "find (\<lambda>z. z_Name z = k) (rev (live zones)) = None" by (simp only: find_None_iff set_rev not_False_eq_True)
    then show ?thesis using None by simp
  next
    case (Some z)
    then have "z \<in> set (live zones)" "z_Name z = k" using find_SomeD by fastforce+
    then show ?thesis using find_unique [OF d, of z] by simp
  qed
  then show "map_of (rn_results (renderZones env records po zones)) k
      = map_option (\<lambda>z. fst (contribution_of env records po z)) (find (\<lambda>z. z_Name z = k) (live zones))"
    by (simp add: renderZones_def render_loop map_of_fold_update split: option.split)
qed

text \<open>A zone that fails after its name was normalised keeps its published stanza, zone file, serial
  and hash.\<close>

lemma held_contribution_spec:
  assumes "held_contribution po zone n reason err = (result, ds, fs)"
  shows "res_serial result = zst_Serial (z_Status zone) \<and> res_lastAppliedHash result = zst_LastAppliedHash (z_Status zone)
    \<and> \<not> res_rendered result
    \<and> map (\<lambda>d. (zd_Zone d, zd_Raw d)) ds
        = (case map_of (po_Blocks po) (trim_suffix n ''.'') of None \<Rightarrow> [] | Some raw \<Rightarrow> [(n, raw)])
    \<and> fs = (if ds \<noteq> [] \<and> ZoneFileKey n \<in> set (po_ManagedKeys po)
        then (case map_of (cm_Data (po_ConfigMap po)) (ZoneFileKey n) of None \<Rightarrow> [] | Some c \<Rightarrow> [(ZoneFileKey n, c)])
        else [])"
  using assms
  by (auto simp: held_contribution_def holdLastKnownGood_def Let_def failedResult_def split: option.splits if_splits)

lemma contribution_files:
  assumes "contribution_of env records po zone = (result, ds, fs)" and "f \<in> set fs"
  shows "\<exists>n. NormalizeZone (zs_Zone (z_Spec zone)) = Inr n \<and> fst f = ZoneFileKey n"
proof (cases "NormalizeZone (zs_Zone (z_Spec zone))")
  case (Inl err)
  then show ?thesis using assms by (auto simp: contribution_of_def)
next
  case (Inr n)
  have held: "fst f = ZoneFileKey n" if "held_contribution po zone n reason err = (result, ds, fs)" for reason err
  proof -
    have "fs = [] \<or> (\<exists>c. fs = [(ZoneFileKey n, c)])"
      using held_contribution_spec [OF that] by (auto split: option.split)
    then show ?thesis using assms(2) by auto
  qed
  obtain compiled excluded errs where r: "fst (recordsForZone zone n records []) = (compiled, excluded, errs)"
    by (metis prod.exhaust)
  note cb = assms(1) [unfolded contribution_of_def Inr r sum.case Let_def prod.case]
  show ?thesis
  proof (cases "RenderZone (env_Records env) zone compiled (env_Now env (z_Name zone))
      \<lparr>pr_Serial = zst_Serial (z_Status zone), pr_Hash = zst_LastAppliedHash (z_Status zone)\<rparr>")
    case (Inl err)
    then show ?thesis using cb held Inr by (auto split: if_splits)
  next
    case zf: (Inr zf)
    then have "zf_Key zf = ZoneFileKey n" using Inr by (auto simp: RenderZone_Inr_iff)
    then show ?thesis using cb held Inr zf assms(2) by (auto split: if_splits)
  qed
qed

text \<open>When no other live zone has the file key of a zone, the collected files hold exactly what the
  zone contributes under that key.\<close>

definition own_key :: "PrivateDNSZone list \<Rightarrow> PrivateDNSZone \<Rightarrow> string \<Rightarrow> bool" where
  "own_key zones zone n \<longleftrightarrow>
     list_all (\<lambda>y. y = zone \<or> (case NormalizeZone (zs_Zone (z_Spec y)) of Inl _ \<Rightarrow> True | Inr m \<Rightarrow> ZoneFileKey m \<noteq> ZoneFileKey n)) zones"

lemma own_file:
  assumes "own_key (live zones) zone n" and "zone \<in> set (live zones)"
    and "contribution_of env records po zone = (result, ds, [(ZoneFileKey n, c)])"
  shows "map_of (rn_zoneFiles (renderZones env records po zones)) (ZoneFileKey n) = Some c"
proof -
  let ?fs = "concat (map (\<lambda>z. snd (snd (contribution_of env records po z))) (live zones))"
  have only: "f = (ZoneFileKey n, c)" if f: "f \<in> set ?fs" "fst f = ZoneFileKey n" for f
  proof -
    obtain y where y: "y \<in> set (live zones)" "f \<in> set (snd (snd (contribution_of env records po y)))"
      using f(1) unfolding set_concat set_map by blast
    obtain res ds' fs where cb: "contribution_of env records po y = (res, ds', fs)" by (metis prod.exhaust)
    then have "f \<in> set fs" using y(2) by simp
    from contribution_files [OF cb this] obtain m
      where "NormalizeZone (zs_Zone (z_Spec y)) = Inr m" "fst f = ZoneFileKey m" by blast
    then have "y = zone" using assms(1) y(1) f(2) by (auto simp: own_key_def list_all_iff)
    then show ?thesis using y(2) assms(3) by simp
  qed
  have "(ZoneFileKey n, c) \<in> set ?fs" using assms(2,3) by (auto intro!: bexI [of _ zone])
  then have "find (\<lambda>f. fst f = ZoneFileKey n) (rev ?fs) \<noteq> None"
    unfolding find_None_iff by auto
  then obtain f where f: "find (\<lambda>f. fst f = ZoneFileKey n) (rev ?fs) = Some f" by blast
  then have "f = (ZoneFileKey n, c)" using only [of f] find_SomeD [OF f] by auto
  then show ?thesis using f unfolding renderZones_contributions(2) map_of_fold_update by simp
qed

text \<open>What the loop keeps of a zone it cannot render.\<close>

lemma held_zone:
  assumes "distinct (map z_Name (live zones))" and "zone \<in> set (live zones)"
    and "contribution_of env records po zone = held_contribution po zone n reason err"
  shows "\<exists>result. map_of (rn_results (renderZones env records po zones)) (z_Name zone) = Some result
      \<and> res_serial result = zst_Serial (z_Status zone) \<and> res_lastAppliedHash result = zst_LastAppliedHash (z_Status zone)
      \<and> \<not> res_rendered result"
    and "map_of (po_Blocks po) (trim_suffix n ''.'') = Some raw \<Longrightarrow>
      \<exists>d \<in> set (rn_directives (renderZones env records po zones)). zd_Zone d = n \<and> zd_Raw d = raw"
    and "own_key (live zones) zone n \<Longrightarrow> map_of (po_Blocks po) (trim_suffix n ''.'') = Some raw
      \<Longrightarrow> ZoneFileKey n \<in> set (po_ManagedKeys po) \<Longrightarrow> map_of (cm_Data (po_ConfigMap po)) (ZoneFileKey n) = Some content
      \<Longrightarrow> map_of (rn_zoneFiles (renderZones env records po zones)) (ZoneFileKey n) = Some content"
proof -
  obtain result ds fs where h: "held_contribution po zone n reason err = (result, ds, fs)" by (metis prod.exhaust)
  note spec = held_contribution_spec [OF h]
  have "find (\<lambda>z. z_Name z = z_Name zone) (live zones) = Some zone" using find_unique(1) [OF assms(1,2)] .
  then show "\<exists>result. map_of (rn_results (renderZones env records po zones)) (z_Name zone) = Some result
      \<and> res_serial result = zst_Serial (z_Status zone) \<and> res_lastAppliedHash result = zst_LastAppliedHash (z_Status zone)
      \<and> \<not> res_rendered result"
    using spec by (simp add: renderZones_contributions(3) [OF assms(1)] assms(3) h)
  have sub: "set ds \<subseteq> set (rn_directives (renderZones env records po zones))"
    unfolding renderZones_contributions(1) using assms(2,3) h by fastforce
  show "\<exists>d \<in> set (rn_directives (renderZones env records po zones)). zd_Zone d = n \<and> zd_Raw d = raw"
    if "map_of (po_Blocks po) (trim_suffix n ''.'') = Some raw"
    using spec that sub by auto
  show "map_of (rn_zoneFiles (renderZones env records po zones)) (ZoneFileKey n) = Some content"
    if "own_key (live zones) zone n" "map_of (po_Blocks po) (trim_suffix n ''.'') = Some raw"
      "ZoneFileKey n \<in> set (po_ManagedKeys po)" "map_of (cm_Data (po_ConfigMap po)) (ZoneFileKey n) = Some content"
  proof -
    have "ds \<noteq> []" using spec that(2) by auto
    then have "fs = [(ZoneFileKey n, content)]" using spec that(3,4) by simp
    then show ?thesis using own_file [OF that(1) assms(2)] assms(3) h by simp
  qed
qed

lemma contribution_failed:
  assumes "NormalizeZone (zs_Zone (z_Spec zone)) = Inr n"
    and "fst (recordsForZone zone n records []) = (compiled, excluded, errs)"
    and "errs \<noteq> [] \<or> isl (RenderZone (env_Records env) zone compiled (env_Now env (z_Name zone))
        \<lparr>pr_Serial = zst_Serial (z_Status zone), pr_Hash = zst_LastAppliedHash (z_Status zone)\<rparr>)"
  obtains reason err where "contribution_of env records po zone = held_contribution po zone n reason err"
  using assms that by (cases "errs = []") (auto simp: contribution_of_def isl_def)

section \<open>A successful pass\<close>

lemma Reconcile_ok:
  assumes "lawful_store (Client r) states"
    and "is_order (env_Directives env)" and "is_order (env_Answers env)" and "is_order (env_Items env)"
    and "coherent (CoreDNSConfigMap r) (hd (states w))"
    and "Reconcile r env w = (None, w')"
  shows "\<exists>zones records cm w1 w2 w3 zones' w4 patched.
      list_zones (Client r) w = (Inr zones, w1) \<and> list_records (Client r) w1 = (Inr records, w2)
    \<and> get_configmap (Client r) (CoreDNSNamespace r) (CoreDNSConfigMap r) w2 = (Inr cm, w3)
    \<and> cm = fst (hd (states w)) \<and> claimZones r zones w3 = (Inr zones', w4)
    \<and> PatchCorefile (env_Directives env) (env_Answers env) (corefile_of cm)
        (rn_directives (renderZones env records (previous_of cm) zones')) = Inr patched
    \<and> settled (CoreDNSConfigMap r) (hd (states w')) patched (rn_zoneFiles (renderZones env records (previous_of cm) zones'))"
proof (rule Reconcile_cases [OF assms(1,6)])
  fix zones records cm d w1 w2 w3
  assume l: "list_zones (Client r) w = (Inr zones, w1)" "list_records (Client r) w1 = (Inr records, w2)"
      "get_configmap (Client r) (CoreDNSNamespace r) (CoreDNSConfigMap r) w2 = (Inr cm, w3)"
    and s1: "states w3 = states w" and h: "hd (states w) = (cm, d)"
    and p: "publish r env zones records cm (corefile_of cm) w3 = (None, w')"
  have coh: "coherent (CoreDNSConfigMap r) (cm, d)" using assms(5) h by simp
  show ?thesis
  proof (rule publish_states [OF assms(1) p])
    fix zones' w4 patched res2 w5
    let ?rn = "renderZones env records (previous_of cm) zones'"
    assume c: "claimZones r zones w3 = (Inr zones', w4)" and s2: "states w4 = states w3"
      and patched: "PatchCorefile (env_Directives env) (env_Answers env) (corefile_of cm) (rn_directives ?rn) = Inr patched"
      and commit: "commitCoreDNS r (env_Items env) cm patched (rn_zoneFiles ?rn) (ManagedZoneKeys cm)
          (HasReloadPlugin patched) (combinedHash (rn_results ?rn)) w4 = (res2, w5)"
      and s3: "states w' = states w5" and ok: "res2 \<noteq> None \<Longrightarrow> None = res2 \<and> w' = w5"
    have none: "res2 = None" using ok by blast
    have ready: "commit_ready (CoreDNSConfigMap r) cm d patched (rn_zoneFiles ?rn) (ManagedZoneKeys cm)"
      by (rule pass_commit_ready [OF coh assms(2,3) renderZones_ok patched])
    have hd4: "hd (states w4) = (cm, d)" using h s1 s2 by simp
    have "safe (layout_of (CoreDNSConfigMap r) (cm, d))" using coh by (simp add: coherent_def)
    from commitCoreDNS_settles [OF assms(1,4) commit [unfolded none] hd4 ready this]
    have "settled (CoreDNSConfigMap r) (hd (states w')) patched (rn_zoneFiles ?rn)" using s3 by simp
    moreover have "cm = fst (hd (states w))" using h by simp
    ultimately show ?thesis using l c patched by blast
  qed simp
qed simp

end
