(* ===== verification/Controller_Trace.thy ===== *)
theory Controller_Trace
  imports Controller_Run
begin

text \<open>
  The calls of a pass. Any client can be made to log its calls (\<open>traced\<close>); what a pass calls,
  and in which order, is then a statement about the log. The last section shows that logging
  changes nothing else.
\<close>

section \<open>A client that logs\<close>

datatype call =
    ZonesListed bool | RecordsListed bool
  | ConfigMapRead "api_error + ConfigMap" | DeploymentRead bool
  | ZoneUpdated PrivateDNSZone bool | ConfigMapUpdated ConfigMap bool | DeploymentUpdated Deployment bool
  | ZoneStatusPatched PrivateDNSZone bool | RecordStatusPatched PrivateDNSRecord bool

definition logged :: "('r \<Rightarrow> call) \<Rightarrow> ('w \<Rightarrow> 'r \<times> 'w) \<Rightarrow> 'w \<times> call list \<Rightarrow> 'r \<times> ('w \<times> call list)" where
  "logged mk f s = (let (res, w) = f (fst s) in (res, (w, snd s @ [mk res])))"

definition traced :: "'w client \<Rightarrow> ('w \<times> call list) client" where
  "traced c =
     \<lparr>list_zones = logged (\<lambda>res. ZonesListed (\<not> isl res)) (list_zones c),
      list_records = logged (\<lambda>res. RecordsListed (\<not> isl res)) (list_records c),
      get_configmap = (\<lambda>ns n. logged ConfigMapRead (get_configmap c ns n)),
      get_deployment = (\<lambda>ns n. logged (\<lambda>res. DeploymentRead (\<not> isl res)) (get_deployment c ns n)),
      update_zone = (\<lambda>z. logged (\<lambda>res. ZoneUpdated z (\<not> isl res)) (update_zone c z)),
      update_configmap = (\<lambda>cm. logged (\<lambda>res. ConfigMapUpdated cm (\<not> isl res)) (update_configmap c cm)),
      update_deployment = (\<lambda>d. logged (\<lambda>res. DeploymentUpdated d (\<not> isl res)) (update_deployment c d)),
      patch_zone_status = (\<lambda>z. logged (\<lambda>res. ZoneStatusPatched z (\<not> isl res)) (patch_zone_status c z)),
      patch_record_status = (\<lambda>r. logged (\<lambda>res. RecordStatusPatched r (\<not> isl res)) (patch_record_status c r))\<rparr>"

abbreviation traced_reconciler :: "'w PrivateDNSZoneReconciler \<Rightarrow> ('w \<times> call list) PrivateDNSZoneReconciler" where
  "traced_reconciler r \<equiv>
     \<lparr>Client = traced (Client r), CoreDNSNamespace = CoreDNSNamespace r, CoreDNSConfigMap = CoreDNSConfigMap r,
      CoreDNSDeployment = CoreDNSDeployment r\<rparr>"

lemma logged_eq: "logged mk f s = (res, s') \<longleftrightarrow> f (fst s) = (res, fst s') \<and> snd s' = snd s @ [mk res]"
  by (cases s') (auto simp: logged_def split: prod.splits)

lemma traced_sel [simp]:
  "list_zones (traced c) = logged (\<lambda>res. ZonesListed (\<not> isl res)) (list_zones c)"
  "list_records (traced c) = logged (\<lambda>res. RecordsListed (\<not> isl res)) (list_records c)"
  "get_configmap (traced c) ns n = logged ConfigMapRead (get_configmap c ns n)"
  "get_deployment (traced c) ns n = logged (\<lambda>res. DeploymentRead (\<not> isl res)) (get_deployment c ns n)"
  "update_zone (traced c) z = logged (\<lambda>res. ZoneUpdated z (\<not> isl res)) (update_zone c z)"
  "update_configmap (traced c) cm = logged (\<lambda>res. ConfigMapUpdated cm (\<not> isl res)) (update_configmap c cm)"
  "update_deployment (traced c) d = logged (\<lambda>res. DeploymentUpdated d (\<not> isl res)) (update_deployment c d)"
  "patch_zone_status (traced c) z = logged (\<lambda>res. ZoneStatusPatched z (\<not> isl res)) (patch_zone_status c z)"
  "patch_record_status (traced c) q = logged (\<lambda>res. RecordStatusPatched q (\<not> isl res)) (patch_record_status c q)"
  by (simp_all add: traced_def)

section \<open>Kinds of calls\<close>

text \<open>The release of a terminating zone, a write of a CoreDNS object, and success.\<close>

fun is_release :: "call \<Rightarrow> bool" where
  "is_release (ZoneUpdated z ok) = z_deleting z"
| "is_release _ = False"

fun coredns_write :: "call \<Rightarrow> bool" where
  "coredns_write (ConfigMapUpdated cm ok) = True"
| "coredns_write (DeploymentUpdated d ok) = True"
| "coredns_write _ = False"

fun call_ok :: "call \<Rightarrow> bool" where
  "call_ok (ConfigMapRead res) = (\<not> isl res)"
| "call_ok (DeploymentRead ok) = ok"
| "call_ok (ConfigMapUpdated cm ok) = ok"
| "call_ok (DeploymentUpdated d ok) = ok"
| "call_ok _ = True"

text \<open>Whether a call succeeded, and whether one in a log failed.\<close>

fun succeeded :: "call \<Rightarrow> bool" where
  "succeeded (ZonesListed ok) = ok"
| "succeeded (RecordsListed ok) = ok"
| "succeeded (ConfigMapRead res) = (\<not> isl res)"
| "succeeded (DeploymentRead ok) = ok"
| "succeeded (ZoneUpdated z ok) = ok"
| "succeeded (ConfigMapUpdated cm ok) = ok"
| "succeeded (DeploymentUpdated d ok) = ok"
| "succeeded (ZoneStatusPatched z ok) = ok"
| "succeeded (RecordStatusPatched e ok) = ok"

definition a_call_failed :: "call list \<Rightarrow> bool" where
  "a_call_failed log \<longleftrightarrow> (\<exists>k \<in> set log. \<not> succeeded k)"

lemma a_call_failed_simps [simp]:
  "\<not> a_call_failed []" "a_call_failed (log @ [k]) \<longleftrightarrow> a_call_failed log \<or> \<not> succeeded k"
  by (auto simp: a_call_failed_def)

definition adds :: "(call \<Rightarrow> bool) \<Rightarrow> 'w \<times> call list \<Rightarrow> 'w \<times> call list \<Rightarrow> bool" where
  "adds P s s' \<longleftrightarrow> (\<exists>cs. snd s' = snd s @ cs \<and> list_all P cs)"

lemma adds_refl [simp, intro]: "adds P s s"
  by (simp add: adds_def)

lemma adds_trans: "adds P s s' \<Longrightarrow> adds P s' s'' \<Longrightarrow> adds P s s''"
  by (auto simp: adds_def)

lemma adds_mono: "adds P s s' \<Longrightarrow> (\<And>c. P c \<Longrightarrow> Q c) \<Longrightarrow> adds Q s s'"
  by (auto simp: adds_def elim!: list.pred_mono_strong)

lemma adds_one: "snd s' = snd s @ [c] \<Longrightarrow> P c \<Longrightarrow> adds P s s'"
  by (auto simp: adds_def)

section \<open>The calls of each part\<close>

lemma claimZones_calls:
  "Client r = traced c \<Longrightarrow> claimZones r zones s = (res, s')
   \<Longrightarrow> adds (\<lambda>k. \<not> is_release k \<and> \<not> coredns_write k \<and> call_ok k) s s'"
proof (induction zones arbitrary: s res s')
  case (Cons z zs)
  show ?case
  proof (cases "z_deleting z \<or> containsString (om_Finalizers (z_Meta z)) privateDNSZoneFinalizer")
    case True
    then show ?thesis using Cons by (auto split: prod.splits sum.splits)
  next
    case False
    let ?z = "z\<lparr>z_Meta := (z_Meta z)\<lparr>om_Finalizers := om_Finalizers (z_Meta z) @ [privateDNSZoneFinalizer]\<rparr>\<rparr>"
    obtain u s1 where u: "update_zone (traced c) ?z s = (u, s1)" by (rule prod.exhaust)
    then have one: "adds (\<lambda>k. \<not> is_release k \<and> \<not> coredns_write k \<and> call_ok k) s s1"
      using False by (intro adds_one) (auto simp: logged_eq)
    show ?thesis
    proof (cases u)
      case (Inl e)
      then show ?thesis using Cons.prems False u one by (simp del: traced_sel)
    next
      case (Inr z')
      obtain res2 s2 where k: "claimZones r zs s1 = (res2, s2)" by (rule prod.exhaust)
      then have "s' = s2" using Cons.prems False u Inr by (auto simp del: traced_sel split: sum.splits)
      then show ?thesis using Cons.IH [OF Cons.prems(1) k] one adds_trans by blast
    qed
  qed
qed simp

lemma releaseDeletedZones_calls:
  "Client r = traced c \<Longrightarrow> releaseDeletedZones r zones s = (res, s') \<Longrightarrow> adds is_release s s'"
proof (induction zones arbitrary: s res s')
  case (Cons z zs)
  show ?case
  proof (cases "\<not> z_deleting z \<or> \<not> containsString (om_Finalizers (z_Meta z)) privateDNSZoneFinalizer")
    case True
    then show ?thesis using Cons by (auto split: prod.splits sum.splits)
  next
    case False
    let ?z = "z\<lparr>z_Meta := (z_Meta z)\<lparr>om_Finalizers := removeString (om_Finalizers (z_Meta z)) privateDNSZoneFinalizer\<rparr>\<rparr>"
    obtain u s1 where u: "update_zone (traced c) ?z s = (u, s1)" by (rule prod.exhaust)
    then have one: "adds is_release s s1"
      using False by (intro adds_one) (auto simp: logged_eq)
    obtain res2 s2 where k: "releaseDeletedZones r zs s1 = (res2, s2)" by (rule prod.exhaust)
    have "s' = s1 \<or> s' = s2"
      using Cons.prems False u k by (cases u) (auto simp del: traced_sel simp: Let_def split: sum.splits if_splits)
    then show ?thesis using Cons.IH [OF Cons.prems(1) k] one adds_trans by blast
  qed
qed simp

abbreviation status_call :: "call \<Rightarrow> bool" where
  "status_call k \<equiv> \<not> is_release k \<and> \<not> coredns_write k"

lemma writeZoneStatuses_calls:
  "Client r = traced c \<Longrightarrow> writeZoneStatuses r lib zones results reloadable s = (res, s') \<Longrightarrow> adds status_call s s'"
proof (induction zones arbitrary: s res s')
  case (Cons z zs)
  show ?case
  proof (cases "map_of results (z_Name z)")
    case None
    then show ?thesis using Cons by simp
  next
    case (Some result)
    let ?st = "zone_status lib z result reloadable"
    show ?thesis
    proof (cases "z_deleting z \<or> z_Status z = ?st")
      case True
      then have "writeZoneStatuses r lib zs results reloadable s = (res, s')"
        using Cons.prems(2) Some by (simp add: Let_def split: if_splits)
      then show ?thesis by (rule Cons.IH [OF Cons.prems(1)])
    next
      case False
      obtain u s1 where u: "patch_zone_status (traced c) (z\<lparr>z_Status := ?st\<rparr>) s = (u, s1)" by (rule prod.exhaust)
      then have one: "adds status_call s s1" by (intro adds_one) (auto simp: logged_eq)
      obtain res2 s2 where k: "writeZoneStatuses r lib zs results reloadable s1 = (res2, s2)" by (rule prod.exhaust)
      have "s' = s1 \<or> s' = s2"
        using Cons.prems False Some u k by (cases u) (auto simp del: traced_sel simp: Let_def split: if_splits)
      then show ?thesis using Cons.IH [OF Cons.prems(1) k] one adds_trans by blast
    qed
  qed
qed simp

lemma writeRecordStatuses_calls:
  "Client r = traced c \<Longrightarrow> writeRecordStatuses r lib recs outcomes s = (res, s') \<Longrightarrow> adds status_call s s'"
proof (induction recs arbitrary: s res s')
  case (Cons q qs)
  show ?case
  proof (cases "map_of outcomes (key_of q)")
    case None
    then show ?thesis using Cons by (auto split: if_splits)
  next
    case (Some outcome)
    let ?st = "record_status lib q outcome"
    show ?thesis
    proof (cases "om_DeletionTimestamp (rec_Meta q) \<noteq> None \<or> rec_Status q = ?st")
      case True
      then have "writeRecordStatuses r lib qs outcomes s = (res, s')"
        using Cons.prems(2) Some by (simp add: Let_def split: if_splits)
      then show ?thesis by (rule Cons.IH [OF Cons.prems(1)])
    next
      case False
      obtain u s1 where u: "patch_record_status (traced c) (q\<lparr>rec_Status := ?st\<rparr>) s = (u, s1)" by (rule prod.exhaust)
      then have one: "adds status_call s s1" by (intro adds_one) (auto simp: logged_eq)
      obtain res2 s2 where k: "writeRecordStatuses r lib qs outcomes s1 = (res2, s2)" by (rule prod.exhaust)
      have "s' = s1 \<or> s' = s2"
        using Cons.prems False Some u k by (cases u) (auto simp del: traced_sel simp: Let_def split: if_splits)
      then show ?thesis using Cons.IH [OF Cons.prems(1) k] one adds_trans by blast
    qed
  qed
qed simp

text \<open>The commit releases nothing, and when it returns no error all its calls succeeded.\<close>

abbreviation commit_call :: "bool \<Rightarrow> call \<Rightarrow> bool" where
  "commit_call ok k \<equiv> \<not> is_release k \<and> (ok \<longrightarrow> call_ok k)"

lemma updateIfChanged_calls:
  assumes "Client r = traced c" and "updateIfChanged r ch cm s = (res, s')"
  shows "adds (commit_call (\<not> isl res)) s s'"
proof (cases ch)
  case False
  then show ?thesis using assms by (simp add: updateIfChanged_def)
next
  case True
  obtain u s1 where u: "update_configmap (traced c) cm s = (u, s1)" by (rule prod.exhaust)
  then have "snd s1 = snd s @ [ConfigMapUpdated cm (\<not> isl u)]" by (simp add: logged_eq)
  moreover have "s' = s1" "isl res = isl u"
    using assms True u by (auto simp del: traced_sel simp: updateIfChanged_def split: sum.splits)
  ultimately show ?thesis by (intro adds_one) auto
qed

lemma setVolumeItems_calls:
  assumes "Client r = traced c" and "setVolumeItems r ordK M P restart h s = (res, s')"
  shows "adds (commit_call (\<not> isl res)) s s'"
proof -
  obtain g s1 where g: "get_deployment (traced c) (CoreDNSNamespace r) (CoreDNSDeployment r) s = (g, s1)" by (rule prod.exhaust)
  then have read: "adds (commit_call (\<not> isl g)) s s1" by (intro adds_one) (auto simp: logged_eq)
  show ?thesis
  proof (cases g)
    case (Inl e)
    then show ?thesis using assms g read by (auto simp del: traced_sel simp: setVolumeItems_def)
  next
    case (Inr d)
    show ?thesis
    proof (cases "EnsureZoneVolumeItems ordK d (CoreDNSConfigMap r) M P")
      case (Inl e)
      then show ?thesis using assms g read Inr
        by (auto simp del: traced_sel simp: setVolumeItems_def elim: adds_mono)
    next
      case E: (Inr p)
      obtain ch d1 where p: "p = (ch, d1)" by (rule prod.exhaust)
      define d2 where "d2 = (if restart then MarkRolloutRestart d1 ''private-dns-zone-change'' h else d1)"
      show ?thesis
      proof (cases "restart \<or> ch")
        case False
        then have "s' = s1" using assms g Inr E p by (auto simp del: traced_sel simp: setVolumeItems_def)
        then show ?thesis using read Inr by (auto elim: adds_mono)
      next
        case True
        obtain u s2 where u: "update_deployment (traced c) d2 s1 = (u, s2)" by (rule prod.exhaust)
        then have wr: "adds (commit_call (\<not> isl u)) s1 s2" by (intro adds_one) (auto simp: logged_eq)
        have "s' = s2" "isl res = isl u"
          using assms g Inr E p True u
          by (auto simp del: traced_sel simp: setVolumeItems_def d2_def Let_def split: sum.splits if_splits)
        moreover have "adds (commit_call (\<not> isl u)) s s1" using read Inr by (auto elim: adds_mono)
        ultimately show ?thesis using adds_trans [OF _ wr] by simp
      qed
    qed
  qed
qed

lemma commit_calls_weaken: "adds (commit_call ok) s s' \<Longrightarrow> (ok' \<Longrightarrow> ok) \<Longrightarrow> adds (commit_call ok') s s'"
  by (erule adds_mono) blast

lemma commitCoreDNS_calls:
  assumes "Client r = traced c"
    and "commitCoreDNS r ordK cm corefile zoneFiles prev reloadable h s = (res, s')"
  shows "adds (commit_call (res = None)) s s'"
proof -
  note U = updateIfChanged_calls [OF assms(1)] and V = setVolumeItems_calls [OF assms(1)]
  note run = assms(2) [unfolded commitCoreDNS_def Let_def case_prod_beta]
  let ?desired = "mapKeys zoneFiles"
  let ?all = "unionKeys prev ?desired"
  let ?cm1 = "snd (SetManagedZoneKeys (snd (SetZoneFiles cm zoneFiles)) ?all)"
  let ?ch1 = "fst (SetZoneFiles cm zoneFiles) \<or> fst (SetManagedZoneKeys (snd (SetZoneFiles cm zoneFiles)) ?all)"
  obtain u1 s1 where k1: "updateIfChanged r ?ch1 ?cm1 s = (u1, s1)" by (rule prod.exhaust)
  note a1 = U [OF k1]
  show ?thesis
  proof (cases u1)
    case (Inl e)
    then show ?thesis using run k1 a1 by (auto elim: commit_calls_weaken)
  next
    case u1: (Inr cm2)
    obtain u2 s2 where k2: "setVolumeItems r ordK ?all prev False [] s1 = (u2, s2)" by (rule prod.exhaust)
    have a2: "adds (commit_call (\<not> isl u2)) s s2"
      using adds_trans [OF commit_calls_weaken [OF a1] V [OF k2]] u1 by simp
    show ?thesis
    proof (cases u2)
      case (Inl e)
      then show ?thesis using run k1 u1 k2 a2 by (auto elim: commit_calls_weaken)
    next
      case u2: (Inr p)
      let ?cm3 = "snd (SetCorefile cm2 corefile)" and ?ch3 = "fst (SetCorefile cm2 corefile)"
      obtain u3 s3 where k3: "updateIfChanged r ?ch3 ?cm3 s2 = (u3, s3)" by (rule prod.exhaust)
      have a3: "adds (commit_call (\<not> isl u3)) s s3"
        using adds_trans [OF commit_calls_weaken [OF a2] U [OF k3]] u2 by simp
      show ?thesis
      proof (cases u3)
        case (Inl e)
        then show ?thesis using run k1 u1 k2 u2 k3 a3 by (cases p) (auto elim: commit_calls_weaken)
      next
        case u3: (Inr cm4)
        obtain u4 s4 where k4: "setVolumeItems r ordK ?desired prev (?ch3 \<and> \<not> reloadable) h s3 = (u4, s4)"
          by (rule prod.exhaust)
        have a4: "adds (commit_call (\<not> isl u4)) s s4"
          using adds_trans [OF commit_calls_weaken [OF a3] V [OF k4]] u3 by simp
        show ?thesis
        proof (cases u4)
          case (Inl e)
          then show ?thesis using run k1 u1 k2 u2 k3 u3 k4 a4 by (cases p) (auto elim: commit_calls_weaken)
        next
          case u4: (Inr q)
          let ?cm5 = "snd (SetManagedZoneKeys (snd (RemoveZoneFiles cm4 (subtractKeys prev ?desired))) ?desired)"
          let ?ch5 = "fst (RemoveZoneFiles cm4 (subtractKeys prev ?desired))
              \<or> fst (SetManagedZoneKeys (snd (RemoveZoneFiles cm4 (subtractKeys prev ?desired))) ?desired)"
          obtain u5 s5 where k5: "updateIfChanged r ?ch5 ?cm5 s4 = (u5, s5)" by (rule prod.exhaust)
          have a5: "adds (commit_call (\<not> isl u5)) s s5"
            using adds_trans [OF commit_calls_weaken [OF a4] U [OF k5]] u4 by simp
          have "s' = s5" "res = None \<Longrightarrow> \<not> isl u5"
            using run k1 u1 k2 u2 k3 u3 k4 u4 k5 by (cases p; cases q; cases u5; simp)+
          then show ?thesis using a5 by (auto elim: commit_calls_weaken)
        qed
      qed
    qed
  qed
qed

section \<open>The log of a pass\<close>

text \<open>
  A log in which the ConfigMap was read and every release comes after the writes of the
  CoreDNS objects, all of which succeeded; and one of a pass that wrote none because it
  found no Corefile to clean up.
\<close>

definition released_last :: "call list \<Rightarrow> bool" where
  "released_last log \<longleftrightarrow>
     (\<exists>pre post. log = pre @ post \<and> list_all (\<lambda>k. \<not> is_release k \<and> call_ok k) pre
        \<and> list_all (\<lambda>k. \<not> coredns_write k) post \<and> (\<exists>cm. ConfigMapRead (Inr cm) \<in> set pre))"

definition coredns_absent :: "call list \<Rightarrow> bool" where
  "coredns_absent log \<longleftrightarrow>
     list_all (\<lambda>k. \<not> coredns_write k) log
     \<and> (\<exists>res. ConfigMapRead res \<in> set log
          \<and> (case res of Inl e \<Rightarrow> api_IsNotFound e | Inr cm \<Rightarrow> corefile_of cm = []))"

lemma adds_log: "adds P (w, log) (w', log') \<Longrightarrow> \<exists>cs. log' = log @ cs \<and> list_all P cs"
  by (simp add: adds_def)

lemma reportCoreDNSUnavailable_calls:
  assumes "Client r = traced c" and "reportCoreDNSUnavailable r lib zones records message release s = (res, s')"
  shows "adds (\<lambda>k. \<not> coredns_write k \<and> (\<not> release \<longrightarrow> \<not> is_release k)) s s'"
proof -
  have rel: "\<not> coredns_write k" if "is_release k" for k using that by (cases k) auto
  obtain u s1 where k1: "(if release then releaseDeletedZones r zones s else (Inr zones, s)) = (u, s1)" by (rule prod.exhaust)
  then have a1: "adds (\<lambda>k. \<not> coredns_write k \<and> (\<not> release \<longrightarrow> \<not> is_release k)) s s1"
  proof (cases release)
    case True
    then have "adds is_release s s1" using releaseDeletedZones_calls [OF assms(1)] k1 by simp
    then show ?thesis by (rule adds_mono) (use True rel in blast)
  qed simp
  have st: "adds (\<lambda>k. \<not> coredns_write k \<and> (\<not> release \<longrightarrow> \<not> is_release k)) t t'" if "adds status_call t t'" for t t' :: "'a \<times> call list"
    using that by (rule adds_mono) blast
  show ?thesis
  proof (cases u)
    case (Inl e)
    then show ?thesis using assms(2) k1 a1 by (simp add: reportCoreDNSUnavailable_def)
  next
    case (Inr zones')
    obtain results outcomes where f: "foldl (unavailable_step records message) ([], newRecordOutcomes records) zones' = (results, outcomes)"
      by (rule prod.exhaust)
    obtain u2 s2 where k2: "writeZoneStatuses r lib zones' results False s1 = (u2, s2)" by (rule prod.exhaust)
    obtain u3 s3 where k3: "writeRecordStatuses r lib records outcomes s2 = (u3, s3)" by (rule prod.exhaust)
    have "s' = s2 \<or> s' = s3"
      using assms(2) k1 Inr f k2 k3 by (cases u2; cases u3) (auto simp: reportCoreDNSUnavailable_def Let_def)
    moreover note a2 = adds_trans [OF a1 st [OF writeZoneStatuses_calls [OF assms(1) k2]]]
    moreover note adds_trans [OF a2 st [OF writeRecordStatuses_calls [OF assms(1) k3]]]
    ultimately show ?thesis by blast
  qed
qed

lemma traced_step:
  assumes "logged mk f (w, log) = (res, s')"
  obtains w' where "s' = (w', log @ [mk res])"
  using assms by (cases s') (auto simp: logged_eq)

lemma publish_log:
  assumes "Client r = traced c" and "publish r env zones records cm corefile (w, log0) = (res, (w', log))"
    and "list_all (\<lambda>k. \<not> is_release k \<and> call_ok k) log0" and "ConfigMapRead (Inr cm) \<in> set log0"
  shows "list_all (\<lambda>k. \<not> is_release k) log \<or> released_last log"
proof -
  let ?po = "\<lparr>po_Blocks = ExtractZoneBlocks corefile, po_ManagedKeys = ManagedZoneKeys cm, po_ConfigMap = cm\<rparr>"
  note run = assms(2) [unfolded publish_def Let_def]
  have silent: "list_all (\<lambda>k. \<not> is_release k) log0" using assms(3) by (simp add: list_all_iff)
  obtain u1 w1 l1 where k1: "claimZones r zones (w, log0) = (u1, (w1, l1))" by (metis prod.exhaust)
  obtain c1 where l1: "l1 = log0 @ c1" "list_all (\<lambda>k. \<not> is_release k \<and> \<not> coredns_write k \<and> call_ok k) c1"
    using adds_log [OF claimZones_calls [OF assms(1) k1]] by blast
  then have pre1: "list_all (\<lambda>k. \<not> is_release k \<and> call_ok k) l1" using assms(3) by (auto simp: list_all_iff)
  show ?thesis
  proof (cases u1)
    case (Inl e)
    then have "log = l1" using run k1 by simp
    then show ?thesis using pre1 by (simp add: list_all_iff)
  next
    case u1: (Inr zones')
    let ?rn = "renderZones env records ?po zones'"
    show ?thesis
    proof (cases "PatchCorefile (env_Directives env) (env_Answers env) corefile (rn_directives ?rn)")
      case (Inl e)
      then have "log = l1" using run k1 u1 by simp
      then show ?thesis using pre1 by (simp add: list_all_iff)
    next
      case patched: (Inr patched)
      obtain u2 w2 l2 where k2: "commitCoreDNS r (env_Items env) cm patched (rn_zoneFiles ?rn) (ManagedZoneKeys cm)
          (HasReloadPlugin patched) (combinedHash (rn_results ?rn)) (w1, l1) = (u2, (w2, l2))" by (metis prod.exhaust)
      obtain c2 where l2: "l2 = l1 @ c2" "list_all (commit_call (u2 = None)) c2"
        using adds_log [OF commitCoreDNS_calls [OF assms(1) k2]] by blast
      show ?thesis
      proof (cases u2)
        case (Some e)
        then have "log = l2" using run k1 u1 patched k2 by simp
        then show ?thesis using pre1 l2 by (auto simp: list_all_iff)
      next
        case None
        have pre2: "list_all (\<lambda>k. \<not> is_release k \<and> call_ok k) l2" using pre1 l2 None by (auto simp: list_all_iff)
        obtain u3 s3 where k3: "releaseDeletedZones r zones' (w2, l2) = (u3, s3)" by (rule prod.exhaust)
        let ?quiet = "\<lambda>k. \<not> coredns_write k"
        have "\<not> coredns_write k" if "is_release k" for k using that by (cases k) auto
        then have a3: "adds ?quiet (w2, l2) s3" using releaseDeletedZones_calls [OF assms(1) k3] by (auto elim: adds_mono)
        have "adds ?quiet (w2, l2) (w', log)"
        proof (cases u3)
          case (Inl e)
          then have "(w', log) = s3" using run k1 u1 patched k2 None k3 by simp
          then show ?thesis using a3 by simp
        next
          case u3: (Inr zones'')
          obtain u4 s4 where k4: "writeZoneStatuses r (env_Conditions env) zones'' (rn_results ?rn) (HasReloadPlugin patched) s3 = (u4, s4)"
            by (rule prod.exhaust)
          obtain u5 s5 where k5: "writeRecordStatuses r (env_Conditions env) records (rn_outcomes ?rn) s4 = (u5, s5)"
            by (rule prod.exhaust)
          have "(w', log) = s4 \<or> (w', log) = s5"
            using run k1 u1 patched k2 None k3 u3 k4 k5 by (cases u4; cases u5; simp)
          moreover have a4: "adds ?quiet (w2, l2) s4"
            by (rule adds_trans [OF a3 adds_mono [OF writeZoneStatuses_calls [OF assms(1) k4]]]) blast
          moreover have "adds ?quiet (w2, l2) s5"
            by (rule adds_trans [OF a4 adds_mono [OF writeRecordStatuses_calls [OF assms(1) k5]]]) blast
          ultimately show ?thesis by metis
        qed
        from adds_log [OF this] obtain post where "log = l2 @ post" "list_all ?quiet post" by (elim exE conjE)
        moreover have "ConfigMapRead (Inr cm) \<in> set l2" using assms(4) l1(1) l2(1) by simp
        ultimately have "log = l2 @ post \<and> list_all (\<lambda>k. \<not> is_release k \<and> call_ok k) l2 \<and> list_all ?quiet post
            \<and> (\<exists>cm. ConfigMapRead (Inr cm) \<in> set l2)" using pre2 by (intro conjI exI)
        then have "released_last log" unfolding released_last_def by (intro exI)
        then show ?thesis by (rule disjI2)
      qed
    qed
  qed
qed

lemma Reconcile_log:
  assumes "Reconcile (traced_reconciler r) env (w, []) = (res, (w', log))"
  shows "list_all (\<lambda>k. \<not> is_release k) log \<or> released_last log \<or> coredns_absent log"
proof -
  let ?r = "traced_reconciler r"
  have client: "Client ?r = traced (Client r)" by simp
  note run = assms [unfolded Reconcile_def Let_def]
  obtain u1 s1 where k1: "list_zones (Client ?r) (w, []) = (u1, s1)" by (rule prod.exhaust)
  then obtain w1 where s1: "s1 = (w1, [ZonesListed (\<not> isl u1)])" by (auto elim: traced_step)
  show ?thesis
  proof (cases u1)
    case (Inl e)
    then show ?thesis using run k1 s1 by (auto simp del: traced_sel PrivateDNSZoneReconciler.simps)
  next
    case u1: (Inr zones)
    obtain u2 s2 where k2: "list_records (Client ?r) s1 = (u2, s2)" by (rule prod.exhaust)
    then obtain w2 where s2: "s2 = (w2, [ZonesListed (\<not> isl u1), RecordsListed (\<not> isl u2)])" unfolding s1 by (auto elim: traced_step)
    show ?thesis
    proof (cases u2)
      case (Inl e)
      then show ?thesis using run k1 s1 u1 k2 s2 by (auto simp del: traced_sel PrivateDNSZoneReconciler.simps)
    next
      case u2: (Inr records)
      obtain u3 s3 where k3: "get_configmap (Client ?r) (CoreDNSNamespace ?r) (CoreDNSConfigMap ?r) s2 = (u3, s3)"
        by (rule prod.exhaust)
      then obtain w3 where s3: "s3 = (w3, [ZonesListed (\<not> isl u1), RecordsListed (\<not> isl u2), ConfigMapRead u3])"
        unfolding s2 by (auto elim: traced_step)
      have report: "\<exists>cs. log = [ZonesListed (\<not> isl u1), RecordsListed (\<not> isl u2), ConfigMapRead u3] @ cs
          \<and> list_all (\<lambda>k. \<not> coredns_write k \<and> (\<not> release \<longrightarrow> \<not> is_release k)) cs"
        if "reportCoreDNSUnavailable ?r lib zones records message release s3 = (res, (w', log))" for lib message release
        using adds_log [OF reportCoreDNSUnavailable_calls [OF client that, unfolded s3]] .
      note run3 = run [unfolded k1 u1 k2 u2 k3 prod.case sum.case]
      show ?thesis
      proof (cases "case u3 of Inl e \<Rightarrow> api_IsNotFound e | Inr cm \<Rightarrow> corefile_of cm = []")
        case True
        then obtain message where "reportCoreDNSUnavailable ?r (env_Conditions env) zones records message True s3 = (res, (w', log))"
          using run3 by (cases u3) (auto simp del: traced_sel PrivateDNSZoneReconciler.simps)
        from report [OF this] obtain cs where "log = [ZonesListed (\<not> isl u1), RecordsListed (\<not> isl u2), ConfigMapRead u3] @ cs"
          "list_all (\<lambda>k. \<not> coredns_write k) cs" by auto
        then have "coredns_absent log"
          using True unfolding coredns_absent_def by (intro conjI exI [of _ u3]) simp_all
        then show ?thesis by blast
      next
        case False
        show ?thesis
        proof (cases u3)
          case (Inl e)
          then have "reportCoreDNSUnavailable ?r (env_Conditions env) zones records (api_Error e) False s3 = (res, (w', log))"
            using run3 False by (simp del: traced_sel PrivateDNSZoneReconciler.simps)
          from report [OF this] show ?thesis by (auto simp: list_all_iff)
        next
          case (Inr cm)
          then have "publish ?r env zones records cm (corefile_of cm) (w3, [ZonesListed (\<not> isl u1), RecordsListed (\<not> isl u2), ConfigMapRead (Inr cm)]) = (res, (w', log))"
            using run3 False s3 by (simp del: traced_sel PrivateDNSZoneReconciler.simps)
          from publish_log [OF client this] show ?thesis by auto
        qed
      qed
    qed
  qed
qed

section \<open>Logging changes nothing\<close>

text \<open>A pass with a logging client does what the pass does, on the state below the log.\<close>

definition erases :: "('w \<times> call list \<Rightarrow> 'r \<times> ('w \<times> call list)) \<Rightarrow> ('w \<Rightarrow> 'r \<times> 'w) \<Rightarrow> bool" where
  "erases f g \<longleftrightarrow> (\<forall>s. fst (f s) = fst (g (fst s)) \<and> fst (snd (f s)) = snd (g (fst s)))"

lemma erasesD: "erases f g \<Longrightarrow> fst (f s) = fst (g (fst s))" "erases f g \<Longrightarrow> fst (snd (f s)) = snd (g (fst s))"
  unfolding erases_def by blast+

lemma erases_logged: "erases (logged mk f) f"
  by (simp add: erases_def logged_def split: prod.split)

lemmas logged_below [simp] = erasesD [OF erases_logged]

lemma erases_claimZones: "erases (claimZones (traced_reconciler r) zones) (claimZones r zones)"
proof (induction zones)
  case (Cons z zs)
  note [simp] = erasesD [OF Cons]
  show ?case by (simp add: erases_def case_prod_beta split: sum.split)
qed (simp add: erases_def)

lemma erases_releaseDeletedZones: "erases (releaseDeletedZones (traced_reconciler r) zones) (releaseDeletedZones r zones)"
proof (induction zones)
  case (Cons z zs)
  note [simp] = erasesD [OF Cons]
  show ?case by (simp add: erases_def case_prod_beta Let_def split: sum.split)
qed (simp add: erases_def)

lemma erases_writeZoneStatuses:
  "erases (writeZoneStatuses (traced_reconciler r) lib zones results reloadable) (writeZoneStatuses r lib zones results reloadable)"
proof (induction zones)
  case (Cons z zs)
  note [simp] = erasesD [OF Cons]
  show ?case by (simp add: erases_def case_prod_beta Let_def split: sum.split option.split)
qed (simp add: erases_def)

lemma erases_writeRecordStatuses:
  "erases (writeRecordStatuses (traced_reconciler r) lib recs outcomes) (writeRecordStatuses r lib recs outcomes)"
proof (induction recs)
  case (Cons q qs)
  note [simp] = erasesD [OF Cons]
  show ?case by (simp add: erases_def case_prod_beta Let_def split: sum.split option.split)
qed (simp add: erases_def)

lemma erases_reportCoreDNSUnavailable:
  "erases (reportCoreDNSUnavailable (traced_reconciler r) lib zones records message release)
     (reportCoreDNSUnavailable r lib zones records message release)"
proof -
  note [simp] = erasesD [OF erases_releaseDeletedZones] erasesD [OF erases_writeZoneStatuses] erasesD [OF erases_writeRecordStatuses]
  show ?thesis
    by (simp add: erases_def reportCoreDNSUnavailable_def case_prod_beta Let_def split: sum.split option.split)
qed

lemma erases_updateIfChanged: "erases (updateIfChanged (traced_reconciler r) ch cm) (updateIfChanged r ch cm)"
  by (simp add: erases_def updateIfChanged_def case_prod_beta split: sum.split)

lemma erases_setVolumeItems: "erases (setVolumeItems (traced_reconciler r) ordK M P restart h) (setVolumeItems r ordK M P restart h)"
  by (simp add: erases_def setVolumeItems_def case_prod_beta Let_def split: sum.split)

lemma erases_commitCoreDNS:
  "erases (commitCoreDNS (traced_reconciler r) ordK cm corefile zoneFiles prev reloadable h)
     (commitCoreDNS r ordK cm corefile zoneFiles prev reloadable h)"
proof -
  note [simp] = erasesD [OF erases_updateIfChanged] erasesD [OF erases_setVolumeItems]
  show ?thesis by (simp add: erases_def commitCoreDNS_def case_prod_beta Let_def split: sum.split)
qed

lemma erases_publish: "erases (publish (traced_reconciler r) env zones records cm corefile) (publish r env zones records cm corefile)"
proof -
  note [simp] = erasesD [OF erases_claimZones] erasesD [OF erases_commitCoreDNS] erasesD [OF erases_releaseDeletedZones]
    erasesD [OF erases_writeZoneStatuses] erasesD [OF erases_writeRecordStatuses]
  show ?thesis by (simp add: erases_def publish_def case_prod_beta Let_def split: sum.split option.split)
qed

lemma erases_Reconcile: "erases (Reconcile (traced_reconciler r) env) (Reconcile r env)"
proof -
  note [simp] = erasesD [OF erases_publish] erasesD [OF erases_reportCoreDNSUnavailable]
  show ?thesis by (simp add: erases_def Reconcile_def case_prod_beta Let_def split: sum.split)
qed

lemma traced_pass:
  assumes "Reconcile (traced_reconciler r) env (w, []) = (res, (w', log))"
  shows "Reconcile r env w = (res, w')"
  using erasesD [OF erases_Reconcile, of r env "(w, [])"] assms by (cases "Reconcile r env w") simp

end
