(* ===== verification/Controller_Health.thy ===== *)
theory Controller_Health
  imports Controller_Run
begin

text \<open>
  Passes over an API server that answers every call: with a Deployment that mounts the
  ConfigMap and a Corefile whose markers are in order, every loop runs to its end and the
  pass returns no error.
\<close>

definition takes_reports :: "'w client \<Rightarrow> bool" where
  "takes_reports c \<longleftrightarrow>
     (\<forall>w. (\<forall>z. \<not> isl (fst (update_zone c z w)) \<and> \<not> isl (fst (patch_zone_status c z w)))
        \<and> (\<forall>q. \<not> isl (fst (patch_record_status c q w))))"

definition answers :: "'w client \<Rightarrow> bool" where
  "answers c \<longleftrightarrow> takes_reports c \<and>
     (\<forall>w. \<not> isl (fst (list_zones c w)) \<and> \<not> isl (fst (list_records c w))
        \<and> (\<forall>ns n. \<not> isl (fst (get_configmap c ns n w)) \<and> \<not> isl (fst (get_deployment c ns n w)))
        \<and> (\<forall>cm. \<not> isl (fst (update_configmap c cm w))) \<and> (\<forall>d. \<not> isl (fst (update_deployment c d w))))"

lemma not_isl_pair: "\<not> isl (fst p) \<Longrightarrow> \<exists>x w. p = (Inr x, w)"
  by (cases p; cases "fst p") auto

lemma takes_reportsD:
  assumes "takes_reports c"
  shows "\<exists>x w'. update_zone c z w = (Inr x, w')" and "\<exists>x w'. patch_zone_status c z w = (Inr x, w')"
    and "\<exists>x w'. patch_record_status c q w = (Inr x, w')"
  using assms unfolding takes_reports_def by (blast intro: not_isl_pair)+

lemma answersD:
  assumes "answers c"
  shows "\<exists>x w'. list_zones c w = (Inr x, w')" and "\<exists>x w'. list_records c w = (Inr x, w')"
    and "\<exists>x w'. get_configmap c ns n w = (Inr x, w')" and "\<exists>x w'. get_deployment c ns n w = (Inr x, w')"
    and "\<exists>x w'. update_configmap c cm w = (Inr x, w')" and "\<exists>x w'. update_deployment c d w = (Inr x, w')"
    and "takes_reports c"
  using assms unfolding answers_def by (blast intro: not_isl_pair)+

text \<open>A simulated server whose schedule of faults is used up answers every call.\<close>

definition reliable_client :: "sim client" where
  "reliable_client =
     \<lparr>list_zones = (\<lambda>w. list_zones sim_client (w\<lparr>sim_faults := []\<rparr>)),
      list_records = (\<lambda>w. list_records sim_client (w\<lparr>sim_faults := []\<rparr>)),
      get_configmap = (\<lambda>ns n w. get_configmap sim_client ns n (w\<lparr>sim_faults := []\<rparr>)),
      get_deployment = (\<lambda>ns n w. get_deployment sim_client ns n (w\<lparr>sim_faults := []\<rparr>)),
      update_zone = (\<lambda>z w. update_zone sim_client z (w\<lparr>sim_faults := []\<rparr>)),
      update_configmap = (\<lambda>cm w. update_configmap sim_client cm (w\<lparr>sim_faults := []\<rparr>)),
      update_deployment = (\<lambda>d w. update_deployment sim_client d (w\<lparr>sim_faults := []\<rparr>)),
      patch_zone_status = (\<lambda>z w. patch_zone_status sim_client z (w\<lparr>sim_faults := []\<rparr>)),
      patch_record_status = (\<lambda>q w. patch_record_status sim_client q (w\<lparr>sim_faults := []\<rparr>))\<rparr>"

lemma answers_reliable: "answers reliable_client"
  by (simp add: answers_def takes_reports_def reliable_client_def sim_client_def sim_read_def sim_write_def sim_next_def)

lemma sim_states_faults [simp]: "sim_states (w\<lparr>sim_faults := fs\<rparr>) = sim_states w"
  by (simp add: sim_states_def)

lemma reads_reset: "reads sim_states part f \<Longrightarrow> reads sim_states part (\<lambda>w. f (w\<lparr>sim_faults := fs\<rparr>))"
  unfolding reads_def quiet_def by (metis sim_states_faults)

lemma writes_reset: "writes sim_states put f \<Longrightarrow> writes sim_states put (\<lambda>x w. f x (w\<lparr>sim_faults := fs\<rparr>))"
  unfolding writes_def by (metis sim_states_faults)

lemma quiet_reset: "quiet sim_states f \<Longrightarrow> quiet sim_states (\<lambda>w. f (w\<lparr>sim_faults := fs\<rparr>))"
  by (simp add: quiet_def)

lemma lawful_reliable: "lawful_store reliable_client sim_states"
  unfolding lawful_store_def
proof (intro conjI allI)
  note L = lawful_sim [unfolded lawful_store_def]
  show "reads sim_states fst (get_configmap reliable_client ns n)" "reads sim_states snd (get_deployment reliable_client ns n)"
    for ns n
    using L by (simp_all add: reliable_client_def reads_reset)
  show "writes sim_states (\<lambda>cm s. (cm, snd s)) (update_configmap reliable_client)"
    "writes sim_states (\<lambda>d s. (fst s, d)) (update_deployment reliable_client)"
    using L by (simp_all add: reliable_client_def writes_reset)
  show "quiet sim_states (list_zones reliable_client)" "quiet sim_states (list_records reliable_client)"
    "quiet sim_states (update_zone reliable_client z)" "quiet sim_states (patch_zone_status reliable_client z)"
    "quiet sim_states (patch_record_status reliable_client q)" for z q
    using L by (simp_all add: reliable_client_def quiet_reset)
qed simp

section \<open>No loop stops early\<close>

lemma claimZones_reports: "takes_reports (Client r) \<Longrightarrow> \<exists>zs w'. claimZones r zones w = (Inr zs, w')"
proof (induction zones arbitrary: w)
  case (Cons z zs)
  obtain res w1 where u: "update_zone (Client r) (z\<lparr>z_Meta := (z_Meta z)\<lparr>om_Finalizers :=
      om_Finalizers (z_Meta z) @ [privateDNSZoneFinalizer]\<rparr>\<rparr>) w = (Inr res, w1)"
    using takes_reportsD(1) [OF Cons.prems] by blast
  show ?case using Cons.IH [OF Cons.prems, of w] Cons.IH [OF Cons.prems, of w1] by (auto simp: u)
qed simp

lemma releaseDeletedZones_reports: "takes_reports (Client r) \<Longrightarrow> \<exists>zs w'. releaseDeletedZones r zones w = (Inr zs, w')"
proof (induction zones arbitrary: w)
  case (Cons z zs)
  obtain res w1 where u: "update_zone (Client r) (z\<lparr>z_Meta := (z_Meta z)\<lparr>om_Finalizers :=
      removeString (om_Finalizers (z_Meta z)) privateDNSZoneFinalizer\<rparr>\<rparr>) w = (Inr res, w1)"
    using takes_reportsD(1) [OF Cons.prems] by blast
  show ?case using Cons.IH [OF Cons.prems, of w] Cons.IH [OF Cons.prems, of w1] by (auto simp: u Let_def)
qed simp

lemma writeZoneStatuses_reports: "takes_reports (Client r) \<Longrightarrow> \<exists>w'. writeZoneStatuses r lib zones results reloadable w = (None, w')"
proof (induction zones arbitrary: w)
  case (Cons z zs)
  have "\<exists>res w1. patch_zone_status (Client r) (z\<lparr>z_Status := st\<rparr>) w = (Inr res, w1)" for st
    by (rule takes_reportsD(2) [OF Cons.prems])
  then show ?case using Cons.IH [OF Cons.prems] by (auto simp: Let_def split: option.split prod.split sum.split)
     (metis Inl_Inr_False prod.inject)+
qed simp

lemma writeRecordStatuses_reports: "takes_reports (Client r) \<Longrightarrow> \<exists>w'. writeRecordStatuses r lib recs outcomes w = (None, w')"
proof (induction recs arbitrary: w)
  case (Cons q qs)
  have "\<exists>res w1. patch_record_status (Client r) (q\<lparr>rec_Status := st\<rparr>) w = (Inr res, w1)" for st
    by (rule takes_reportsD(3) [OF Cons.prems])
  then show ?case using Cons.IH [OF Cons.prems] by (auto simp: Let_def split: option.split prod.split sum.split)
     (metis Inl_Inr_False prod.inject)+
qed simp

lemma reportCoreDNSUnavailable_reports:
  assumes "takes_reports (Client r)"
    and "reportCoreDNSUnavailable r lib zones records message release w = (res, w')"
  shows "res = Some (GoError (PlainError message))"
proof -
  obtain zones' w1 where k1: "(if release then releaseDeletedZones r zones w else (Inr zones, w)) = (Inr zones', w1)"
    using releaseDeletedZones_reports [OF assms(1), of zones w] by (cases release) auto
  obtain results outcomes where f: "foldl (unavailable_step records message) ([], newRecordOutcomes records) zones' = (results, outcomes)"
    by (rule prod.exhaust)
  obtain w2 where k2: "writeZoneStatuses r lib zones' results False w1 = (None, w2)"
    using writeZoneStatuses_reports [OF assms(1)] by blast
  obtain w3 where k3: "writeRecordStatuses r lib records outcomes w2 = (None, w3)"
    using writeRecordStatuses_reports [OF assms(1)] by blast
  show ?thesis using assms(2) k1 f k2 k3 by (simp add: reportCoreDNSUnavailable_def)
qed

section \<open>The reports of an unavailable CoreDNS\<close>

lemma unavailable_results:
  "fst (foldl (unavailable_step records message) st zones)
   = foldl (\<lambda>m z. AList.update (z_Name z) (failedResult z reasonCoreDNSUnavailable message) m) (fst st) (live zones)"
  by (induction zones arbitrary: st) (simp_all add: unavailable_step_def case_prod_beta)

lemma unavailable_keeps:
  "map_of outs k = Some (rejected reason text) \<Longrightarrow> reason \<noteq> reasonZoneNotFound
   \<Longrightarrow> map_of (snd (foldl (unavailable_step records message) (m, outs) zones)) k = Some (rejected reason text)"
proof (induction zones arbitrary: m outs)
  case (Cons z zs)
  have "map_of (markZoneRecordsNotReady outs records (z_Name z) message) k = Some (rejected reason text)"
    using Cons.prems by (simp add: markZoneRecordsNotReady_get specific_def rejected_def)
  then show ?case using Cons by (simp add: unavailable_step_def)
qed simp

lemma unavailable_outcome:
  assumes "distinct (map key_of records)" and "e \<in> set records"
    and "map_of outs (key_of e) = Some (rejected reasonZoneNotFound text)"
  shows "map_of (snd (foldl (unavailable_step records message) (m, outs) zones)) (key_of e) =
     Some (if \<exists>z \<in> set (live zones). z_Name z = zone_of e
       then rejected reasonZoneNotReady (''zone '' @ quote (zone_of e) @ '' is not ready: '' @ message)
       else rejected reasonZoneNotFound text)"
  using assms(3)
proof (induction zones arbitrary: m outs)
  case (Cons z zs)
  have mine: "key_of e \<in> key_of ` set (filter (\<lambda>r. zone_of r = z_Name z) records) \<longleftrightarrow> zone_of e = z_Name z"
    using assms(1,2) by (auto simp: distinct_map inj_on_def)
  let ?outs = "markZoneRecordsNotReady outs records (z_Name z) message"
  have get: "map_of ?outs (key_of e) = (if zone_of e = z_Name z
      then Some (rejected reasonZoneNotReady (''zone '' @ quote (z_Name z) @ '' is not ready: '' @ message))
      else Some (rejected reasonZoneNotFound text))"
    unfolding markZoneRecordsNotReady_get mine using Cons.prems by (simp add: specific_def rejected_def)
  consider "z_deleting z" | "\<not> z_deleting z" "zone_of e \<noteq> z_Name z" | "\<not> z_deleting z" "zone_of e = z_Name z" by blast
  then show ?case
  proof cases
    case 1
    then have "unavailable_step records message (m, outs) z = (m, outs)" "live (z # zs) = live zs"
      by (auto simp: unavailable_step_def)
    then show ?thesis using Cons.IH [OF Cons.prems] by (simp only: foldl_Cons)
  next
    case 2
    then have "map_of ?outs (key_of e) = Some (rejected reasonZoneNotFound text)" using get by simp
    note IH = Cons.IH [OF this, of "AList.update (z_Name z) (failedResult z reasonCoreDNSUnavailable message) m"]
    have "unavailable_step records message (m, outs) z
        = (AList.update (z_Name z) (failedResult z reasonCoreDNSUnavailable message) m, ?outs)"
      using 2 by (auto simp: unavailable_step_def)
    moreover have "(\<exists>y \<in> set (live (z # zs)). z_Name y = zone_of e) \<longleftrightarrow> (\<exists>y \<in> set (live zs). z_Name y = zone_of e)"
      using 2 by auto
    ultimately show ?thesis using IH by (simp only: foldl_Cons)
  next
    case 3
    have "reasonZoneNotReady \<noteq> reasonZoneNotFound" by (simp add: reasonZoneNotReady_def reasonZoneNotFound_def)
    note keeps = unavailable_keeps [OF _ this, of ?outs "key_of e" "''zone '' @ quote (z_Name z) @ '' is not ready: '' @ message"
        records message "AList.update (z_Name z) (failedResult z reasonCoreDNSUnavailable message) m" zs]
    have "unavailable_step records message (m, outs) z
        = (AList.update (z_Name z) (failedResult z reasonCoreDNSUnavailable message) m, ?outs)"
      using 3 by (auto simp: unavailable_step_def)
    moreover have "\<exists>y \<in> set (live (z # zs)). z_Name y = zone_of e" using 3 by auto
    ultimately show ?thesis using keeps get 3(2) by (simp only: foldl_Cons if_True simp_thms)
  qed
qed simp

section \<open>The commit\<close>

abbreviation mounts_it :: "'w PrivateDNSZoneReconciler \<Rightarrow> ('w \<Rightarrow> coredns_state list) \<Rightarrow> 'w \<Rightarrow> bool" where
  "mounts_it r states w \<equiv> mounted_items (snd (hd (states w))) (CoreDNSConfigMap r) \<noteq> None"

lemma updateIfChanged_answers:
  assumes "lawful_store (Client r) states" and "answers (Client r)" and "mounts_it r states w"
  shows "\<exists>cm' w'. updateIfChanged r ch cm w = (Inr cm', w') \<and> mounts_it r states w'"
proof (cases ch)
  case False
  then show ?thesis using assms(3) by (simp add: updateIfChanged_def)
next
  case True
  obtain x w1 where u: "update_configmap (Client r) cm w = (Inr x, w1)" using answersD(5) [OF assms(2)] by blast
  from writesD [OF lawful_storeD(4) [OF assms(1)] u] have "states w1 = (cm, snd (hd (states w))) # states w"
    by (simp add: stored_def)
  then show ?thesis using True u assms(3) by (simp add: updateIfChanged_def)
qed

lemma setVolumeItems_serves:
  assumes g: "get_deployment (Client r) (CoreDNSNamespace r) (CoreDNSDeployment r) w = (Inr d, w1)"
    and m: "mounted_items d (CoreDNSConfigMap r) \<noteq> None" and "G w1"
    and u: "\<And>d'. mounted_items d' (CoreDNSConfigMap r) \<noteq> None \<Longrightarrow>
      \<exists>x w2. update_deployment (Client r) d' w1 = (Inr x, w2) \<and> G w2"
  shows "\<exists>p w'. setVolumeItems r ordK M P restart h w = (Inr p, w') \<and> G w'"
proof -
  let ?name = "CoreDNSConfigMap r"
  obtain items where "mounted_items d ?name = Some items" using m by blast
  then obtain ch d1 where E: "EnsureZoneVolumeItems ordK d ?name M P = Inr (ch, d1)" "mounted_items d1 ?name \<noteq> None"
    using EnsureZoneVolumeItems_cases [where d = d and name = ?name and ord = ordK and desired = M and prev = P] by auto
  define d2 where "d2 = (if restart then MarkRolloutRestart d1 ''private-dns-zone-change'' h else d1)"
  have "mounted_items d2 ?name \<noteq> None" using E(2) by (simp add: d2_def mounted_items_def frame_simps)
  from u [OF this] obtain x w2 where "update_deployment (Client r) d2 w1 = (Inr x, w2)" "G w2" by blast
  then show ?thesis
    using g E(1) assms(3) by (cases "restart \<or> ch") (auto simp: setVolumeItems_def d2_def Let_def)
qed

lemma setVolumeItems_answers:
  assumes "lawful_store (Client r) states" and "answers (Client r)" and "mounts_it r states w"
  shows "\<exists>p w'. setVolumeItems r ordK M P restart h w = (Inr p, w') \<and> mounts_it r states w'"
proof -
  obtain d w1 where g: "get_deployment (Client r) (CoreDNSNamespace r) (CoreDNSDeployment r) w = (Inr d, w1)"
    using answersD(4) [OF assms(2)] by blast
  from readsD [OF lawful_storeD(3) [OF assms(1)] g] have s: "states w1 = states w" "d = snd (hd (states w))" by simp_all
  show ?thesis
  proof (rule setVolumeItems_serves [OF g])
    show "mounted_items d (CoreDNSConfigMap r) \<noteq> None" "mounts_it r states w1" unfolding s by (rule assms(3))+
    fix d' assume m: "mounted_items d' (CoreDNSConfigMap r) \<noteq> None"
    obtain x w2 where u: "update_deployment (Client r) d' w1 = (Inr x, w2)" using answersD(6) [OF assms(2)] by blast
    from writesD [OF lawful_storeD(5) [OF assms(1)] u] have "states w2 = (fst (hd (states w1)), d') # states w1"
      by (simp add: stored_def)
    then show "\<exists>x w2. update_deployment (Client r) d' w1 = (Inr x, w2) \<and> mounts_it r states w2" using u m by simp
  qed
qed

text \<open>
  What each step keeps as long as the steps succeed (\<open>G\<close>), and what holds when one of them fails
  (\<open>B\<close>), give what holds when the commit fails.
\<close>

lemma commitCoreDNS_until:
  assumes U: "\<And>ch cm w res w'. G w \<Longrightarrow> updateIfChanged r ch cm w = (res, w') \<Longrightarrow> (if isl res then B w' else G w')"
    and V: "\<And>M restart h w res w'. G w \<Longrightarrow> setVolumeItems r ordK M prev restart h w = (res, w') \<Longrightarrow> (if isl res then B w' else G w')"
    and "G w" and run: "commitCoreDNS r ordK cm corefile zoneFiles prev reloadable h w = (err, w')"
  shows "err = None \<or> B w'"
proof -
  note run = run [unfolded commitCoreDNS_def Let_def case_prod_beta]
  let ?desired = "mapKeys zoneFiles"
  let ?all = "unionKeys prev ?desired"
  let ?cm1 = "snd (SetManagedZoneKeys (snd (SetZoneFiles cm zoneFiles)) ?all)"
  let ?ch1 = "fst (SetZoneFiles cm zoneFiles) \<or> fst (SetManagedZoneKeys (snd (SetZoneFiles cm zoneFiles)) ?all)"
  obtain u1 w1 where k1: "updateIfChanged r ?ch1 ?cm1 w = (u1, w1)" by (rule prod.exhaust)
  note g1 = U [OF assms(3) k1]
  show ?thesis
  proof (cases u1)
    case (Inl e)
    then show ?thesis using run k1 g1 by auto
  next
    case u1: (Inr cm2)
    obtain u2 w2 where k2: "setVolumeItems r ordK ?all prev False [] w1 = (u2, w2)" by (rule prod.exhaust)
    have g2: "if isl u2 then B w2 else G w2" by (rule V [OF _ k2]) (use g1 u1 in simp)
    show ?thesis
    proof (cases u2)
      case (Inl e)
      then show ?thesis using run k1 u1 k2 g2 by auto
    next
      case u2: (Inr p)
      let ?cm3 = "snd (SetCorefile cm2 corefile)" and ?ch3 = "fst (SetCorefile cm2 corefile)"
      obtain u3 w3 where k3: "updateIfChanged r ?ch3 ?cm3 w2 = (u3, w3)" by (rule prod.exhaust)
      have g3: "if isl u3 then B w3 else G w3" by (rule U [OF _ k3]) (use g2 u2 in simp)
      show ?thesis
      proof (cases u3)
        case (Inl e)
        then show ?thesis using run k1 u1 k2 u2 k3 g3 by (cases p) auto
      next
        case u3: (Inr cm4)
        obtain u4 w4 where k4: "setVolumeItems r ordK ?desired prev (?ch3 \<and> \<not> reloadable) h w3 = (u4, w4)"
          by (rule prod.exhaust)
        have g4: "if isl u4 then B w4 else G w4" by (rule V [OF _ k4]) (use g3 u3 in simp)
        show ?thesis
        proof (cases u4)
          case (Inl e)
          then show ?thesis using run k1 u1 k2 u2 k3 u3 k4 g4 by (cases p) auto
        next
          case u4: (Inr q)
          let ?cm5 = "snd (SetManagedZoneKeys (snd (RemoveZoneFiles cm4 (subtractKeys prev ?desired))) ?desired)"
          let ?ch5 = "fst (RemoveZoneFiles cm4 (subtractKeys prev ?desired))
              \<or> fst (SetManagedZoneKeys (snd (RemoveZoneFiles cm4 (subtractKeys prev ?desired))) ?desired)"
          obtain u5 w5 where k5: "updateIfChanged r ?ch5 ?cm5 w4 = (u5, w5)" by (rule prod.exhaust)
          have g5: "if isl u5 then B w5 else G w5" by (rule U [OF _ k5]) (use g4 u4 in simp)
          show ?thesis using run k1 u1 k2 u2 k3 u3 k4 u4 k5 g5 by (cases p; cases q; cases u5; simp)
        qed
      qed
    qed
  qed
qed

lemma commitCoreDNS_steps:
  assumes U: "\<And>ch cm w. G w \<Longrightarrow> \<exists>cm' w'. updateIfChanged r ch cm w = (Inr cm', w') \<and> G w'"
    and V: "\<And>M restart h w. G w \<Longrightarrow> \<exists>p w'. setVolumeItems r ordK M prev restart h w = (Inr p, w') \<and> G w'"
    and "G w"
  shows "\<exists>w'. commitCoreDNS r ordK cm corefile zoneFiles prev reloadable h w = (None, w')"
proof -
  obtain err w' where run: "commitCoreDNS r ordK cm corefile zoneFiles prev reloadable h w = (err, w')" by (rule prod.exhaust)
  have "err = None \<or> False"
  proof (rule commitCoreDNS_until [where G = G and B = "\<lambda>_. False", OF _ _ assms(3) run])
    show "if isl res then False else G w'" if "G w" "updateIfChanged r ch cm w = (res, w')" for ch cm w res w'
      using U [OF that(1), of ch cm] that(2) by auto
    show "if isl res then False else G w'" if "G w" "setVolumeItems r ordK M prev restart h w = (res, w')"
      for M restart h w res w'
      using V [OF that(1), of M restart h] that(2) by auto
  qed
  with run show ?thesis by blast
qed

lemma commitCoreDNS_answers:
  assumes "lawful_store (Client r) states" and "answers (Client r)" and "mounts_it r states w"
  shows "\<exists>w'. commitCoreDNS r ordK cm corefile zoneFiles prev reloadable h w = (None, w')"
  by (rule commitCoreDNS_steps [where G = "mounts_it r states"])
    (use updateIfChanged_answers [OF assms(1,2)] setVolumeItems_answers [OF assms(1,2)] assms(3) in blast)+

section \<open>The pass\<close>

text \<open>A pass whose reports are taken fails only in what it reads, in the markers or in its commit.\<close>

lemma Reconcile_commits:
  assumes reports: "takes_reports (Client r)" and k1: "list_zones (Client r) w = (Inr zones, w1)"
    and k2: "list_records (Client r) w1 = (Inr records, w2)"
    and k3: "get_configmap (Client r) (CoreDNSNamespace r) (CoreDNSConfigMap r) w2 = (Inr cm, w3)"
    and corefile: "corefile_of cm \<noteq> []" "markers_ok (corefile_of cm)"
    and commit: "\<And>zones' w4 patched files reloadable h. claimZones r zones w3 = (Inr zones', w4) \<Longrightarrow>
      \<exists>w5. commitCoreDNS r (env_Items env) cm patched files (ManagedZoneKeys cm) reloadable h w4 = (None, w5)"
  shows "\<exists>w'. Reconcile r env w = (None, w')"
proof -
  obtain zones' w4 where k4: "claimZones r zones w3 = (Inr zones', w4)" using claimZones_reports [OF reports] by blast
  let ?rn = "renderZones env records (previous_of cm) zones'"
  obtain patched where k5: "PatchCorefile (env_Directives env) (env_Answers env) (corefile_of cm) (rn_directives ?rn) = Inr patched"
    using PatchCorefile_error_iff corefile(2) by (metis sumE)
  obtain w5 where k6: "commitCoreDNS r (env_Items env) cm patched (rn_zoneFiles ?rn) (ManagedZoneKeys cm)
      (HasReloadPlugin patched) (combinedHash (rn_results ?rn)) w4 = (None, w5)"
    using commit [OF k4] by blast
  obtain zones'' w6 where k7: "releaseDeletedZones r zones' w5 = (Inr zones'', w6)"
    using releaseDeletedZones_reports [OF reports] by blast
  obtain w7 where k8: "writeZoneStatuses r (env_Conditions env) zones'' (rn_results ?rn) (HasReloadPlugin patched) w6 = (None, w7)"
    using writeZoneStatuses_reports [OF reports] by blast
  obtain w8 where k9: "writeRecordStatuses r (env_Conditions env) records (rn_outcomes ?rn) w7 = (None, w8)"
    using writeRecordStatuses_reports [OF reports] by blast
  have "publish r env zones records cm (corefile_of cm) w3 = (None, w8)"
    using k4 k5 k6 k7 k8 k9 by (simp add: publish_def Let_def)
  then have "Reconcile r env w = (None, w8)"
    using k1 k2 k3 corefile(1) by (simp add: Reconcile_def Let_def)
  then show ?thesis ..
qed

lemma Reconcile_answers:
  assumes "lawful_store (Client r) states" and "answers (Client r)" and "mounts_it r states w"
    and "corefile_of (fst (hd (states w))) \<noteq> []" and "markers_ok (corefile_of (fst (hd (states w))))"
  shows "\<exists>w'. Reconcile r env w = (None, w')"
proof -
  note law = lawful_storeD [OF assms(1)] and ans = answersD [OF assms(2)]
  obtain zones w1 where k1: "list_zones (Client r) w = (Inr zones, w1)" using ans(1) by blast
  obtain records w2 where k2: "list_records (Client r) w1 = (Inr records, w2)" using ans(2) by blast
  obtain cm w3 where k3: "get_configmap (Client r) (CoreDNSNamespace r) (CoreDNSConfigMap r) w2 = (Inr cm, w3)"
    using ans(3) by blast
  have s2: "states w2 = states w" using quietD [OF law(8) k1] quietD [OF law(9) k2] by simp
  from readsD [OF law(2) k3] have s3: "states w3 = states w" and cm: "cm = fst (hd (states w))" by (simp_all add: s2)
  show ?thesis
  proof (rule Reconcile_commits [OF ans(7) k1 k2 k3])
    show "corefile_of cm \<noteq> []" "markers_ok (corefile_of cm)" using assms(4,5) by (simp_all add: cm)
    show "\<exists>w5. commitCoreDNS r (env_Items env) cm patched files (ManagedZoneKeys cm) reloadable h w4 = (None, w5)"
      if "claimZones r zones w3 = (Inr zones', w4)" for zones' w4 patched files reloadable h
      using commitCoreDNS_answers [OF assms(1,2)] assms(3) claimZones_quiet [OF assms(1) that] s3 by simp
  qed
qed

end
