(* ===== verification/Controller_Failures.thy ===== *)
theory Controller_Failures
  imports Controller_Trace Controller_Health
begin

text \<open>
  Why a pass fails. In the log of its calls, a pass over a healthy pair of CoreDNS objects that
  returns an error has a call that failed: nothing in the zones or records makes it fail by
  itself. An object that the API refuses, such as a ConfigMap with a key that is too long, is a call
  that failed.
\<close>

section \<open>The loops over zones and records\<close>

lemma adds_failed: "adds P s s' \<Longrightarrow> a_call_failed (snd s) \<Longrightarrow> a_call_failed (snd s')"
  by (auto simp: adds_def a_call_failed_def)

lemma logged_failed: "logged mk f s = (Inl e, s') \<Longrightarrow> \<not> succeeded (mk (Inl e)) \<Longrightarrow> a_call_failed (snd s')"
  by (simp add: logged_eq)

lemma claimZones_fails:
  "Client r = traced c \<Longrightarrow> claimZones r zones s = (Inl e, s') \<Longrightarrow> a_call_failed (snd s')"
proof (induction zones arbitrary: s)
  case (Cons z zs)
  then show ?case
    by (auto split: if_splits prod.splits sum.splits dest: logged_failed)
qed simp

lemma releaseDeletedZones_fails:
  "Client r = traced c \<Longrightarrow> releaseDeletedZones r zones s = (Inl e, s') \<Longrightarrow> a_call_failed (snd s')"
proof (induction zones arbitrary: s)
  case (Cons z zs)
  then show ?case
    by (auto simp: Let_def split: if_splits prod.splits sum.splits dest: logged_failed)
qed simp

lemma writeZoneStatuses_fails:
  "Client r = traced c \<Longrightarrow> writeZoneStatuses r lib zones results reloadable s = (Some e, s') \<Longrightarrow> a_call_failed (snd s')"
proof (induction zones arbitrary: s)
  case (Cons z zs)
  then show ?case
    by (auto simp: Let_def split: if_splits prod.splits sum.splits option.splits dest: logged_failed)
qed simp

lemma writeRecordStatuses_fails:
  "Client r = traced c \<Longrightarrow> writeRecordStatuses r lib recs outcomes s = (Some e, s') \<Longrightarrow> a_call_failed (snd s')"
proof (induction recs arbitrary: s)
  case (Cons q qs)
  then show ?case
    by (auto simp: Let_def split: if_splits prod.splits sum.splits option.splits dest: logged_failed)
qed simp

section \<open>The commit\<close>

lemma lawful_traced:
  assumes "lawful_store c states"
  shows "lawful_store (traced c) (\<lambda>s. states (fst s))"
proof -
  have r: "reads (\<lambda>s. states (fst s)) part (logged mk f)" if "reads states part f" for part :: "coredns_state \<Rightarrow> 'x" and mk f
    using that by (auto simp: reads_def quiet_def)
  have q: "quiet (\<lambda>s. states (fst s)) (logged mk f)" if "quiet states f" for mk and f :: "'a \<Rightarrow> 'x \<times> 'a"
    using that by (simp add: quiet_def)
  have w: "writes (\<lambda>s. states (fst s)) put (\<lambda>x. logged (mk x) (f x))" if "writes states put f"
    for put :: "'x \<Rightarrow> coredns_state \<Rightarrow> coredns_state" and mk f
    using that by (simp add: writes_def)
  show ?thesis using assms unfolding lawful_store_def by (simp add: r q w traced_sel [abs_def])
qed

lemma updateIfChanged_until:
  assumes "Client r = traced c" and law: "lawful_store (Client r) states" and "mounts_it r states s"
    and "updateIfChanged r ch cm s = (res, s')"
  shows "if isl res then a_call_failed (snd s') else mounts_it r states s'"
proof (cases ch)
  case False
  then show ?thesis using assms by (auto simp: updateIfChanged_def)
next
  case True
  obtain u s1 where u: "update_configmap (Client r) cm s = (u, s1)" by (rule prod.exhaust)
  have res: "s' = s1" "isl res = isl u"
    using assms(4) True u by (auto simp: updateIfChanged_def split: sum.splits)
  show ?thesis
  proof (cases u)
    case (Inl e)
    then show ?thesis using u res assms(1) by (auto dest: logged_failed)
  next
    case (Inr x)
    from writesD [OF lawful_storeD(4) [OF law] u] Inr have "states s1 = (cm, snd (hd (states s))) # states s"
      by (simp add: stored_def)
    then show ?thesis using res Inr assms(3) by simp
  qed
qed

lemma setVolumeItems_until:
  assumes "Client r = traced c" and law: "lawful_store (Client r) states" and m: "mounts_it r states s"
    and run: "setVolumeItems r ordK M P restart h s = (res, s')"
  shows "if isl res then a_call_failed (snd s') else mounts_it r states s'"
proof -
  let ?name = "CoreDNSConfigMap r"
  obtain g s1 where g: "get_deployment (Client r) (CoreDNSNamespace r) (CoreDNSDeployment r) s = (g, s1)" by (rule prod.exhaust)
  show ?thesis
  proof (cases g)
    case (Inl e)
    then have "s' = s1" "isl res" using run g by (auto simp: setVolumeItems_def)
    then show ?thesis using g Inl assms(1) by (auto dest: logged_failed)
  next
    case g': (Inr d)
    from readsD [OF lawful_storeD(3) [OF law] g [unfolded g']] have s1: "states s1 = states s" "d = snd (hd (states s))" by simp_all
    then obtain items where "mounted_items d ?name = Some items" using m by blast
    then obtain ch d1 where E: "EnsureZoneVolumeItems ordK d ?name M P = Inr (ch, d1)" "mounted_items d1 ?name \<noteq> None"
      using EnsureZoneVolumeItems_cases [where d = d and name = ?name and ord = ordK and desired = M and prev = P] by auto
    define d2 where "d2 = (if restart then MarkRolloutRestart d1 ''private-dns-zone-change'' h else d1)"
    have d2: "mounted_items d2 ?name \<noteq> None" using E(2) by (simp add: d2_def mounted_items_def frame_simps)
    show ?thesis
    proof (cases "restart \<or> ch")
      case False
      then have "s' = s1" "\<not> isl res" using run g g' E by (auto simp: setVolumeItems_def)
      then show ?thesis using s1 m by simp
    next
      case True
      obtain u s2 where u: "update_deployment (Client r) d2 s1 = (u, s2)" by (rule prod.exhaust)
      have res: "s' = s2" "isl res = isl u"
        using run g g' E True u by (auto simp: setVolumeItems_def d2_def Let_def split: sum.splits if_splits)
      show ?thesis
      proof (cases u)
        case (Inl e)
        then show ?thesis using u res assms(1) by (auto dest: logged_failed)
      next
        case (Inr x)
        from writesD [OF lawful_storeD(5) [OF law] u] Inr have "states s2 = (fst (hd (states s1)), d2) # states s1"
          by (simp add: stored_def)
        then show ?thesis using res Inr d2 by simp
      qed
    qed
  qed
qed

lemma commitCoreDNS_fails:
  assumes "Client r = traced c" and "lawful_store (Client r) states" and "mounts_it r states s"
    and "commitCoreDNS r ordK cm corefile zoneFiles prev reloadable h s = (Some e, s')"
  shows "a_call_failed (snd s')"
  using commitCoreDNS_until [where G = "mounts_it r states" and B = "\<lambda>s. a_call_failed (snd s)",
      OF updateIfChanged_until [OF assms(1,2)] setVolumeItems_until [OF assms(1,2)] assms(3,4)] by simp

section \<open>The pass\<close>

lemma publish_fails:
  assumes c: "Client r = traced c" and law: "lawful_store (Client r) states" and m: "mounts_it r states s"
    and ok: "markers_ok corefile" and run: "publish r env zones records cm corefile s = (Some e, s')"
  shows "a_call_failed (snd s')"
proof -
  let ?po = "\<lparr>po_Blocks = ExtractZoneBlocks corefile, po_ManagedKeys = ManagedZoneKeys cm, po_ConfigMap = cm\<rparr>"
  note run = run [unfolded publish_def Let_def]
  obtain u1 s1 where k1: "claimZones r zones s = (u1, s1)" by (rule prod.exhaust)
  show ?thesis
  proof (cases u1)
    case (Inl e)
    then show ?thesis using run k1 claimZones_fails [OF c, of zones s e s1] by simp
  next
    case u1: (Inr zones')
    let ?rn = "renderZones env records ?po zones'"
    obtain patched where k2: "PatchCorefile (env_Directives env) (env_Answers env) corefile (rn_directives ?rn) = Inr patched"
      using PatchCorefile_error_iff ok by (metis sumE)
    obtain u3 s3 where k3: "commitCoreDNS r (env_Items env) cm patched (rn_zoneFiles ?rn) (ManagedZoneKeys cm)
        (HasReloadPlugin patched) (combinedHash (rn_results ?rn)) s1 = (u3, s3)" by (rule prod.exhaust)
    have m1: "mounts_it r states s1" using m claimZones_quiet [OF law k1] by simp
    show ?thesis
    proof (cases u3)
      case (Some e3)
      then show ?thesis using run k1 u1 k2 k3 commitCoreDNS_fails [OF c law m1] by simp
    next
      case u3: None
      obtain u4 s4 where k4: "releaseDeletedZones r zones' s3 = (u4, s4)" by (rule prod.exhaust)
      show ?thesis
      proof (cases u4)
        case (Inl e4)
        then show ?thesis using run k1 u1 k2 k3 u3 k4 releaseDeletedZones_fails [OF c, of zones' s3 e4 s4] by simp
      next
        case u4: (Inr zones'')
        note rest = run [unfolded k1 u1 prod.case sum.case k2 k3 u3 option.case k4 u4]
        then show ?thesis
          using writeZoneStatuses_fails [OF c] writeRecordStatuses_fails [OF c] by (auto split: prod.splits option.splits)
      qed
    qed
  qed
qed

lemma Reconcile_fails:
  assumes law: "lawful_store (Client r) states" and m: "mounts_it r states w"
    and corefile: "corefile_of (fst (hd (states w))) \<noteq> []" "markers_ok (corefile_of (fst (hd (states w))))"
    and run: "Reconcile (traced_reconciler r) env (w, []) = (Some e, (w', log))"
  shows "a_call_failed log"
proof -
  let ?r = "traced_reconciler r" and ?states = "\<lambda>s :: 'a \<times> call list. states (fst s)"
  have c: "Client ?r = traced (Client r)" by simp
  have law': "lawful_store (Client ?r) ?states" using lawful_traced [OF law] by simp
  note q = lawful_storeD(2,8,9) [OF law']
  note run = run [unfolded Reconcile_def Let_def]
  obtain u1 s1 where k1: "list_zones (Client ?r) (w, []) = (u1, s1)" by (rule prod.exhaust)
  show ?thesis
  proof (cases u1)
    case (Inl e1)
    then show ?thesis
      using run k1 logged_failed [of _ "list_zones (Client r)" "(w, [])" e1 s1] by auto
  next
    case u1: (Inr zones)
    obtain u2 s2 where k2: "list_records (Client ?r) s1 = (u2, s2)" by (rule prod.exhaust)
    show ?thesis
    proof (cases u2)
      case (Inl e2)
      then show ?thesis
        using run k1 u1 k2 logged_failed [of _ "list_records (Client r)" s1 e2 s2] by auto
    next
      case u2: (Inr records)
      obtain u3 s3 where k3: "get_configmap (Client ?r) (CoreDNSNamespace ?r) (CoreDNSConfigMap ?r) s2 = (u3, s3)"
        by (rule prod.exhaust)
      have s3: "?states s3 = states w"
        using quietD [OF q(2) k1] quietD [OF q(3) k2] quietD [OF q(1) [unfolded reads_def, THEN conjunct1] k3] by simp
      note run3 = run [unfolded k1 u1 k2 u2 k3 prod.case sum.case]
      show ?thesis
      proof (cases u3)
        case (Inl e3)
        have "a_call_failed (snd s3)" using k3 Inl by (auto dest: logged_failed)
        moreover obtain message release
          where "reportCoreDNSUnavailable ?r (env_Conditions env) zones records message release s3 = (Some e, (w', log))"
          using run3 Inl by (auto split: if_splits simp del: traced_sel)
        ultimately show ?thesis using adds_failed [OF reportCoreDNSUnavailable_calls [OF c]] by fastforce
      next
        case (Inr cm)
        from readsD [OF q(1) k3 [unfolded Inr]] have cm: "cm = fst (hd (states w))"
          using quietD [OF q(2) k1] quietD [OF q(3) k2] by simp
        then have "publish ?r env zones records cm (corefile_of cm) s3 = (Some e, (w', log))"
          using run3 Inr corefile(1) by (simp del: traced_sel)
        from publish_fails [OF c law' _ _ this] show ?thesis using m corefile(2) cm s3 by simp
      qed
    qed
  qed
qed

end
