(* ===== verification/Coredns_Held.thy ===== *)
theory Coredns_Held
  imports Controller_Files
begin

text \<open>
  The block written by one pass as the next pass reads it: every stanza that
  \<^verbatim>\<open>ExtractZoneBlocks\<close> finds is well formed and holds no end marker, the stanzas of a patched
  Corefile are those of its directives, and a directive renders without an end marker when
  no record value does.
\<close>

section \<open>Markers in quoted text\<close>

definition plain :: "char \<Rightarrow> bool" where
  "plain c \<longleftrightarrow> 32 \<le> byte c \<and> byte c < (127::nat) \<and> c \<noteq> CHR 0x22 \<and> c \<noteq> CHR 0x5C"

abbreviation quoted_piece :: "nat \<times> string \<Rightarrow> string" where
  "quoted_piece p \<equiv> (case p of (r, bs) \<Rightarrow>
     if r = rune_error \<and> length bs = 1 then [CHR 0x5C, CHR ''x''] @ hex_pad 2 (byte (hd bs)) else escape_rune CHR 0x22 r)"

lemma fold_cont_least: "x * 64 ^ length ds \<le> foldl (\<lambda>a d. a * 64 + (byte d - 128)) x ds"
proof (induction ds rule: rev_induct)
  case (snoc d ds)
  then show ?case by simp
qed simp

lemma decoded_not_ascii:
  assumes "128 \<le> (byte c :: nat)"
  shows "128 \<le> fst (decode_rune c s)"
proof (cases "fst (decode_rune c s) = rune_error")
  case False
  obtain w lo hi where l: "lead_info (byte c) = Some (w, lo, hi)"
    using False assms by (cases "lead_info (byte c)") (auto simp: decode_rune_def)
  let ?bad = "length s < w - 1 \<or> \<not> cont_byte lo hi (s ! 0) \<or> \<not> list_all (cont_byte 128 191) (take (w - 2) (drop 1 s))"
  let ?x = "if w = 2 then byte c - 192 else if w = 3 then byte c - 224 else byte c - 240 :: nat"
  have dec: "decode_rune c s = (if ?bad then (rune_error, 1)
      else (foldl (\<lambda>a d. a * 64 + (byte d - 128)) ?x (take (w - 1) s), w))"
    using assms l unfolding decode_rune_def Let_def by (simp only: option.case prod.case not_less [symmetric] if_False)
  then have good: "\<not> ?bad" using False by (metis fst_conv)
  then have len: "w - 1 \<le> length s" and cont: "cont_byte lo hi (s ! 0)" by simp_all
  have r: "fst (decode_rune c s) = foldl (\<lambda>a d. a * 64 + (byte d - 128)) ?x (take (w - 1) s)"
    using dec good by (simp only: if_False fst_conv)
  obtain a t where s: "s = a # t" using len l by (cases s) (auto simp: lead_info_def split: if_splits)
  have w: "take (w - 1) s = a # take (w - 2) t" "length (take (w - 2) t) = w - 2"
    using len l s by (auto simp: lead_info_def take_Cons' split: if_splits)
  have "(128 :: nat) \<le> (?x * 64 + (byte a - 128)) * 64 ^ (w - 2)"
    using l cont s by (auto simp: lead_info_def cont_byte_def split: if_splits)
  also have "\<dots> \<le> foldl (\<lambda>a d. a * 64 + (byte d - 128)) ?x (take (w - 1) s)"
    using fold_cont_least [of "?x * 64 + (byte a - 128)" "take (w - 2) t"] unfolding w by simp
  finally show ?thesis unfolding r .
qed (simp add: rune_error_def)


lemma escape_hash:
  assumes "r < 2097152" and "r \<noteq> 35"
  shows "CHR ''#'' \<notin> set (escape_rune CHR 0x22 r)"
proof
  assume in_piece: "CHR ''#'' \<in> set (escape_rune CHR 0x22 r)"
  have hex: "CHR ''#'' \<notin> set (hex_pad k n)" for k n
    using hex_pad_hex [of "CHR ''#''" k n] by (auto simp: is_hex_def is_digit_def)
  have esc: "CHR ''#'' \<noteq> char_of r" if "r < 128"
  proof
    assume "CHR ''#'' = char_of r"
    then have "byte CHR ''#'' = byte (char_of r)" by simp
    then show False using that assms(2) by (simp add: byte_char_of)
  qed
  show False
  proof (cases "r < 128")
    case True
    then show ?thesis using in_piece hex esc by (auto simp: escape_rune_def split: if_splits)
  next
    case False
    then have "CHR ''#'' \<notin> set (utf8_encode r)"
      using utf8_encode_bytes [OF _ assms(1), of "CHR ''#''"] by auto
    then show ?thesis using in_piece False hex by (auto simp: escape_rune_def split: if_splits)
  qed
qed


lemma not_plain: "128 \<le> (byte c :: nat) \<Longrightarrow> \<not> plain c" "\<not> plain CHR 0x5C"
  by (simp_all add: plain_def)

lemma escape_backslash:
  assumes "r = byte CHR 0x22 \<or> r = 92 \<or> \<not> is_print r"
  obtains x where "escape_rune CHR 0x22 r = CHR 0x5C # x"
proof (cases "r = byte CHR 0x22 \<or> r = 92")
  case True
  then have "escape_rune CHR 0x22 r = [CHR 0x5C, char_of r]" unfolding escape_rune_def by (rule if_P)
  then show ?thesis by (rule that)
next
  case False
  then have "\<not> is_print r" using assms by blast
  then have "\<exists>x. escape_rune CHR 0x22 r = CHR 0x5C # x"
    using False unfolding escape_rune_def by (simp only: if_False append.simps split: if_split) blast
  then show ?thesis using that by blast
qed

text \<open>A piece of quoted text is one plain byte as it was, or starts with no plain byte and holds no
  hash sign.\<close>

lemma quoted_piece_cases:
  obtains "plain c" "go_runes (c # s) = (byte c, [c]) # go_runes s" "quoted_piece (byte c, [c]) = [c]"
  | p s' where "go_runes (c # s) = p # go_runes s'" "suffix s' s" "quoted_piece p \<noteq> []" "\<not> plain (hd (quoted_piece p))"
      "CHR ''#'' \<notin> set (quoted_piece p)"
proof (cases "byte c < (128::nat)")
  case True
  then have d: "go_runes (c # s) = (byte c, [c]) # go_runes s" by simp
  have e: "quoted_piece (byte c, [c]) = escape_rune CHR 0x22 (byte c)"
    using True by (simp add: rune_error_def)
  show ?thesis
  proof (cases "plain c")
    case p: True
    then have "byte c \<noteq> (byte CHR 0x22 :: nat)" "byte c \<noteq> (byte CHR 0x5C :: nat)"
      unfolding plain_def of_char_eq_iff by blast+
    moreover have "is_print (byte c)" using p by (simp add: plain_def is_print_def)
    ultimately have "quoted_piece (byte c, [c]) = [c]" unfolding e using True by (simp add: escape_rune_def)
    then show ?thesis using that(1) p d by blast
  next
    case False
    then have "c \<noteq> CHR ''#''" by (auto simp: plain_def)
    then have "byte c \<noteq> (byte CHR ''#'' :: nat)" unfolding of_char_eq_iff .
    then have "byte c \<noteq> (35::nat)" by simp
    then have "CHR ''#'' \<notin> set (escape_rune CHR 0x22 (byte c))" using True by (intro escape_hash) auto
    moreover have "byte c = (byte CHR 0x22 :: nat) \<or> byte c = (92::nat) \<or> \<not> is_print (byte c)"
    proof (rule ccontr)
      assume n: "\<not> ?thesis"
      then have "32 \<le> byte c \<and> byte c < (127::nat)" using True by (simp add: is_print_def)
      moreover have "c \<noteq> CHR 0x22" using n by (intro notI) simp
      moreover have "c \<noteq> CHR 0x5C" using n by (intro notI) simp
      ultimately show False using False unfolding plain_def by blast
    qed
    then obtain x where x: "escape_rune CHR 0x22 (byte c) = CHR 0x5C # x" by (rule escape_backslash)
    ultimately have "CHR ''#'' \<notin> set (quoted_piece (byte c, [c]))" "quoted_piece (byte c, [c]) \<noteq> []"
      "\<not> plain (hd (quoted_piece (byte c, [c])))"
      unfolding e using not_plain(2) by simp_all
    then show ?thesis using that(2) [OF d] by blast
  qed
next
  case False
  obtain r w where rw: "decode_rune c s = (r, w)" by (rule prod.exhaust)
  let ?p = "(r, c # take (w - 1) s)"
  have d: "go_runes (c # s) = ?p # go_runes (drop (w - 1) s)" by (simp add: rw)
  have r: "128 \<le> r" "r < 2097152" using decoded_not_ascii [of c s] decode_rune_bound [of c s] False rw by auto
  have x: "hd (quoted_piece ?p) = CHR 0x5C \<or> 128 \<le> (byte (hd (quoted_piece ?p)) :: nat)" "quoted_piece ?p \<noteq> []"
  proof -
    have u: "utf8_encode r \<noteq> []" by (simp add: utf8_encode_def)
    have "\<exists>x. escape_rune CHR 0x22 r = CHR 0x5C # x" if "\<not> is_print r"
      using that escape_backslash by blast
    moreover have "escape_rune CHR 0x22 r = utf8_encode r" if "is_print r"
      using that r(1) by (simp add: escape_rune_def)
    ultimately have "escape_rune CHR 0x22 r \<noteq> [] \<and> (hd (escape_rune CHR 0x22 r) = CHR 0x5C
        \<or> 128 \<le> (byte (hd (escape_rune CHR 0x22 r)) :: nat))"
      using u utf8_encode_bytes [OF r] by (cases "is_print r") auto
    then show "hd (quoted_piece ?p) = CHR 0x5C \<or> 128 \<le> (byte (hd (quoted_piece ?p)) :: nat)"
      "quoted_piece ?p \<noteq> []" by (simp_all split: if_split)
  qed
  have "CHR ''#'' \<notin> set (hex_pad k n)" for k n
    using hex_pad_hex [of "CHR ''#''" k n] by (auto simp: is_hex_def is_digit_def)
  then have "CHR ''#'' \<notin> set (quoted_piece ?p)" using escape_hash [OF r(2)] r(1) by auto
  moreover have "\<not> plain (hd (quoted_piece ?p))"
  proof
    assume "plain (hd (quoted_piece ?p))"
    then have "byte (hd (quoted_piece ?p)) < (127::nat)" "hd (quoted_piece ?p) \<noteq> CHR 0x5C" unfolding plain_def by blast+
    then show False using x(1) by (elim disjE) linarith+
  qed
  ultimately show ?thesis using that(2) [OF d suffix_drop x(2)] by blast
qed

lemma quoted_prefix:
  "list_all plain m \<Longrightarrow> prefix m (concat (map quoted_piece (go_runes s)) @ [CHR 0x22]) \<Longrightarrow> prefix m s"
proof (induction "length s" arbitrary: s m rule: less_induct)
  case less
  show ?case
  proof (cases m)
    case (Cons a m')
    show ?thesis
    proof (cases s)
      case Nil
      then show ?thesis using less.prems Cons by (auto simp: plain_def)
    next
      case s: (Cons c t)
      show ?thesis
      proof (rule quoted_piece_cases [of c t])
        assume c: "go_runes (c # t) = (byte c, [c]) # go_runes t" "quoted_piece (byte c, [c]) = [c]"
        then have "a = c" "prefix m' (concat (map quoted_piece (go_runes t)) @ [CHR 0x22])"
          using less.prems(2) unfolding Cons s by simp_all
        then show ?thesis using less.hyps [of t m'] less.prems(1) Cons s by simp
      next
        fix p s' assume p: "go_runes (c # t) = p # go_runes s'" "quoted_piece p \<noteq> []" "\<not> plain (hd (quoted_piece p))"
        then have "a = hd (quoted_piece p)" using less.prems(2) unfolding Cons s by (cases "quoted_piece p") auto
        then show ?thesis using p(3) less.prems(1) Cons by simp
      qed
    qed
  qed simp
qed

lemma sublist_skip: "m \<noteq> [] \<Longrightarrow> hd m \<notin> set p \<Longrightarrow> sublist m (p @ x) \<longleftrightarrow> sublist m x"
proof (induction p)
  case (Cons q p)
  then have "\<not> prefix m (q # p @ x)" by (cases m) auto
  then show ?case using Cons by (simp add: sublist_Cons_right)
qed simp

lemma quoted_sublist:
  assumes "list_all plain m" and "m \<noteq> []" and "hd m = CHR ''#''"
  shows "sublist m (concat (map quoted_piece (go_runes s)) @ [CHR 0x22]) \<Longrightarrow> sublist m s"
proof (induction "length s" arbitrary: s rule: less_induct)
  case less
  show ?case
  proof (cases s)
    case Nil
    have "\<not> sublist m [CHR 0x22]" using assms by (cases m) (auto simp: sublist_Cons_right)
    then show ?thesis using less.prems Nil by simp
  next
    case s: (Cons c t)
    show ?thesis
    proof (rule quoted_piece_cases [of c t])
      assume c: "go_runes (c # t) = (byte c, [c]) # go_runes t" "quoted_piece (byte c, [c]) = [c]"
      then have "prefix m (concat (map quoted_piece (go_runes s)) @ [CHR 0x22])
          \<or> sublist m (concat (map quoted_piece (go_runes t)) @ [CHR 0x22])"
        using less.prems unfolding s by (simp add: sublist_Cons_right)
      then show ?thesis
        using quoted_prefix [OF assms(1), of s] less.hyps [of t] by (auto simp: s sublist_Cons_right)
    next
      fix p s' assume p: "go_runes (c # t) = p # go_runes s'" "suffix s' t" "CHR ''#'' \<notin> set (quoted_piece p)"
      have "hd m \<notin> set (quoted_piece p)" using p(3) assms(3) by simp
      from sublist_skip [OF assms(2) this] have "sublist m (concat (map quoted_piece (go_runes s')) @ [CHR 0x22])"
        using less.prems unfolding s p(1) list.map concat.simps append_assoc by blast
      moreover have "length s' < length s" using p(2) s by (auto simp: suffix_def)
      ultimately have "sublist m s'" using less.hyps by blast
      moreover have "suffix s' s" using p(2) by (auto simp: s suffix_def)
      ultimately show ?thesis using suffix_imp_sublist sublist_order.order_trans by blast
    qed
  qed
qed

lemma end_marker_plain: "list_all plain ManagedBlockEnd" "hd ManagedBlockEnd = CHR ''#''"
  by (simp_all add: ManagedBlockEnd_def plain_def)

lemma end_marker_skip: "CHR ''#'' \<notin> set p \<Longrightarrow> sublist ManagedBlockEnd (p @ x) \<longleftrightarrow> sublist ManagedBlockEnd x"
  by (rule sublist_skip) (simp_all add: end_marker_plain)

lemma end_marker_free: "CHR ''#'' \<notin> set p \<Longrightarrow> \<not> sublist ManagedBlockEnd p"
  using end_marker_skip [of p "[]"] by simp

lemma end_marker_quote: "sublist ManagedBlockEnd (quote s) \<Longrightarrow> sublist ManagedBlockEnd s"
  using end_marker_skip [of "[CHR 0x22]" "concat (map quoted_piece (go_runes s)) @ [CHR 0x22]"]
    quoted_sublist [OF end_marker_plain(1) _ end_marker_plain(2), of s]
  by (simp add: quote_def)

section \<open>The stanzas that are read back\<close>

lemma str_index_before: "str_index sub s = Some i \<Longrightarrow> sub \<noteq> [] \<Longrightarrow> \<not> sublist sub (take i s)"
proof (induction s arbitrary: i)
  case (Cons c s)
  show ?case
  proof (cases "prefix sub (c # s)")
    case True
    then show ?thesis using Cons.prems by simp
  next
    case False
    with Cons.prems obtain j where j: "str_index sub s = Some j" "i = Suc j" by auto
    have "\<not> prefix sub (c # take j s)"
      using False take_is_prefix [of j s] by (metis Cons_prefix_Cons prefix_order.trans)
    then show ?thesis using Cons.IH [OF j(1) Cons.prems(2)] j(2) by (simp add: sublist_Cons_right)
  qed
qed simp

lemma set_update_subset: "set (AList.update k v m) \<subseteq> insert (k, v) (set m)"
  by (induction m) auto

text \<open>The state of the loop: outside a stanza, or inside one whose first lines were collected.\<close>

definition stanza_found :: "string \<times> string \<Rightarrow> bool" where
  "stanza_found p \<longleftrightarrow> (\<exists>ls. is_stanza (fst p) ls \<and> snd p = join [nl] ls \<and> (\<forall>l \<in> set ls. \<not> sublist ManagedBlockEnd l))"

definition extracting :: "string \<times> string list \<times> (string, string) gomap \<Rightarrow> bool" where
  "extracting st \<longleftrightarrow>
     (case st of (zone, cur, m) \<Rightarrow>
        (zone = [] \<or> (\<exists>h body. cur = h # body \<and> zoneStanzaHeader h = Some zone \<and> ''}'' \<notin> set body
           \<and> (\<forall>l \<in> set cur. nl \<notin> set l \<and> \<not> sublist ManagedBlockEnd l)))
        \<and> (\<forall>p \<in> set m. stanza_found p))"

lemma extract_step_extracting:
  assumes "extracting st" and "nl \<notin> set l" and "\<not> sublist ManagedBlockEnd l"
  shows "extracting (extract_step st l)"
proof -
  obtain zone cur m where st: "st = (zone, cur, m)" by (metis prod.exhaust)
  have m: "\<forall>p \<in> set m. stanza_found p" using assms(1) by (simp add: st extracting_def)
  show ?thesis
  proof (cases "zone = []")
    case True
    then show ?thesis using m assms(2,3) by (auto simp: st extract_step_def extracting_def split: option.split)
  next
    case False
    then obtain h body where cur: "cur = h # body" "zoneStanzaHeader h = Some zone" "''}'' \<notin> set body"
        "\<forall>l \<in> set cur. nl \<notin> set l \<and> \<not> sublist ManagedBlockEnd l"
      using assms(1) by (auto simp: st extracting_def)
    show ?thesis
    proof (cases "l = ''}''")
      case True
      have "is_stanza zone (cur @ [l])" unfolding is_stanza_def using cur assms(2) True by auto
      then have "stanza_found (zone, join [nl] (cur @ [l]))"
        unfolding stanza_found_def using cur(4) assms(3) by (intro exI [of _ "cur @ [l]"]) auto
      then have "\<forall>p \<in> set (AList.update zone (join [nl] (cur @ [l])) m). stanza_found p"
        using m set_update_subset [of zone "join [nl] (cur @ [l])" m] by blast
      then show ?thesis using False True by (simp add: st extract_step_def extracting_def)
    next
      case l: False
      then show ?thesis using False cur m assms(2,3) by (auto simp: st extract_step_def extracting_def)
    qed
  qed
qed

lemma ExtractZoneBlocks_stanza:
  assumes "p \<in> set (ExtractZoneBlocks cf)"
  shows "stanza_found p"
proof -
  have fold: "extracting (foldl extract_step st ls)"
    if "extracting st" "\<forall>l \<in> set ls. nl \<notin> set l \<and> \<not> sublist ManagedBlockEnd l" for st ls
    using that by (induction ls arbitrary: st) (simp_all add: extract_step_extracting)
  obtain i j where ij: "str_index ManagedBlockStart cf = Some i" "str_index ManagedBlockEnd cf = Some j" "\<not> j < i"
    using assms by (cases "str_index ManagedBlockStart cf"; cases "str_index ManagedBlockEnd cf")
      (auto simp: ExtractZoneBlocks_def split: if_splits)
  let ?inside = "drop (i + length ManagedBlockStart) (take j cf)"
  have "\<not> sublist ManagedBlockEnd ?inside"
    using str_index_before [OF ij(2)] sublist_drop sublist_order.order_trans by (metis markers_line(4))
  then have "\<not> sublist ManagedBlockEnd (join [nl] (split_on nl ?inside))" unfolding join_split .
  then have "\<forall>l \<in> set (split_on nl ?inside). nl \<notin> set l \<and> \<not> sublist ManagedBlockEnd l"
    using split_on_parts by (auto simp only: sublist_join [OF markers_line(2,4)])
  from fold [OF _ this, of "([], [], [])"] show ?thesis
    using assms ij by (auto simp: ExtractZoneBlocks_def extracting_def Let_def split: prod.splits)
qed

text \<open>The stanzas of a patched Corefile are those of its directives, also when two directives are
  for the same zone.\<close>

lemma fold_update_subset:
  "set (foldl (\<lambda>m (z, x). AList.update z (f x) m) m zs) \<subseteq> set m \<union> (\<lambda>(z, x). (z, f x)) ` set zs"
proof (induction zs arbitrary: m)
  case (Cons p zs)
  obtain z x where p: "p = (z, x)" by (rule prod.exhaust)
  show ?case using Cons.IH [of "AList.update z (f x) m"] set_update_subset [of z "f x" m] unfolding p by auto
qed simp

lemma ExtractZoneBlocks_patched:
  assumes "PatchCorefile ordD ordR cf ds = Inr cf'" and "is_order ordD" and "is_order ordR"
    and "\<forall>d \<in> set ds. directive_ok ordR d (directive_zone d)"
    and "marker_free (outside_block cf)" and "\<not> sublist ManagedBlockEnd (stanzas ordD ordR ds)"
    and "(z, raw) \<in> set (ExtractZoneBlocks cf')"
  shows "\<exists>d \<in> set ds. z = directive_zone d \<and> raw = join [nl] (directive_lines ordR d)"
proof -
  let ?zs = "map (\<lambda>d. (directive_zone d, directive_lines ordR d)) (sort_slice ordD zd_Zone ds)"
  have "\<forall>(z, ls) \<in> set ?zs. is_stanza z ls" using assms(4) directive_stanza assms(2,3) by auto
  note ex = extract_managed_fold [OF assms(5) this stanzas_lines assms(6), folded patched_managed_file [OF assms(1)]]
  have "(z, raw) \<in> (\<lambda>(z, ls). (z, join [nl] ls)) ` set ?zs"
    using assms(7) fold_update_subset [of "join [nl]" "[]" ?zs] unfolding ex by auto
  then show ?thesis using assms(2) by auto
qed

section \<open>Directives without an end marker\<close>

lemma end_marker_blocks:
  "sublist ManagedBlockEnd (a @ concat (map (\<lambda>l. nl # nl # l) ls))
   \<longleftrightarrow> sublist ManagedBlockEnd a \<or> (\<exists>l \<in> set ls. sublist ManagedBlockEnd l)"
proof (induction ls arbitrary: a)
  case (Cons l ls)
  have "a @ concat (map (\<lambda>l. nl # nl # l) (l # ls)) = (a @ nl # nl # l) @ concat (map (\<lambda>l. nl # nl # l) ls)"
    by simp
  moreover have "sublist ManagedBlockEnd (a @ nl # nl # l) \<longleftrightarrow> sublist ManagedBlockEnd a \<or> sublist ManagedBlockEnd l"
    by (simp add: sublist_line sublist_Cons_line)
  ultimately show ?case using Cons.IH [of "a @ nl # nl # l"] by (simp only: list.set bex_simps) blast
qed simp

definition end_free :: "Record order \<Rightarrow> ZoneDirective \<Rightarrow> bool" where
  "end_free ordR d \<longleftrightarrow> (\<forall>l \<in> set (directive_lines ordR d). \<not> sublist ManagedBlockEnd l)"

lemma stanzas_end_free:
  assumes "\<forall>d \<in> set ds. end_free ordR d" and "is_order ordD"
  shows "\<not> sublist ManagedBlockEnd (stanzas ordD ordR ds)"
proof -
  let ?ls = "map (\<lambda>d. join [nl] (directive_lines ordR d)) (sort_slice ordD zd_Zone ds)"
  have "\<forall>l \<in> set ?ls. \<not> sublist ManagedBlockEnd l"
    using assms by (auto simp: end_free_def sublist_join)
  moreover have "stanzas ordD ordR ds = [] @ concat (map (\<lambda>l. nl # nl # l) ?ls)"
    by (simp add: stanzas_lines comp_def)
  ultimately show ?thesis unfolding end_marker_blocks [of "[]" ?ls, folded append_Nil] by (simp only: end_marker_blocks) simp
qed

text \<open>What of a record reaches the block without a hash sign, and what of its values without the
  end marker.\<close>

definition value_clean :: "DNSRecordType \<Rightarrow> string \<Rightarrow> bool" where
  "value_clean t v \<longleftrightarrow> \<not> sublist ManagedBlockEnd (templateValue t v)"

definition record_plain :: "Record \<Rightarrow> bool" where
  "record_plain r \<longleftrightarrow> CHR ''#'' \<notin> set (r_FQDN r) \<and> CHR ''#'' \<notin> set (r_Zone r)
     \<and> CHR ''#'' \<notin> set (r_Type r) \<and> CHR ''|'' \<notin> set (r_Type r)
     \<and> (\<forall>v \<in> set (r_Values r). value_clean (r_Type r) v)"

lemma value_clean_trim [simp]: "value_clean t (trim_space v) = value_clean t v"
  by (simp add: value_clean_def templateValue_def)

lemma record_plain_dedup:
  assumes "is_order ordR" and "\<forall>r \<in> set rs. record_plain r"
  shows "\<forall>r \<in> set (DeduplicateAndSort ordR rs). record_plain r"
proof
  fix r assume "r \<in> set (DeduplicateAndSort ordR rs)"
  then obtain q where q: "q \<in> set rs" "r = normalised_values q" using DeduplicateAndSort_from [OF assms(1)] by blast
  then have "\<exists>u \<in> set (r_Values q). v = trim_space u" if "v \<in> set (r_Values r)" for v
    using that dns_values.uniq_from by simp
  then have "\<forall>v \<in> set (r_Values r). value_clean (r_Type q) v"
    using assms(2) q(1) by (fastforce simp: record_plain_def)
  then show "record_plain r" using assms(2) q by (simp add: record_plain_def)
qed

text \<open>A type is determined by the key of its RRset.\<close>

lemma last_field: "a @ c # t = b @ c # u \<Longrightarrow> c \<notin> set t \<Longrightarrow> c \<notin> set u \<Longrightarrow> t = u"
proof (induction a arbitrary: b)
  case Nil
  then show ?case by (cases b) auto
next
  case (Cons x a)
  show ?case
  proof (cases b)
    case Nil
    then have "c \<in> set u" using Cons.prems(1) by auto
    then show ?thesis using Cons.prems(3) by blast
  next
    case (Cons y b')
    then show ?thesis using Cons.IH [of b'] Cons.prems by simp
  qed
qed

lemma rrset_key_type:
  "rrset_key q = rrset_key r \<Longrightarrow> record_plain q \<Longrightarrow> record_plain r \<Longrightarrow> r_Type q = r_Type r"
  unfolding rrset_key_def record_plain_def by (rule last_field [of _ "CHR ''|''"]) simp_all

lemma rrset_values_clean:
  assumes "\<forall>r \<in> set rs. record_plain r" and "s \<in> set (groupTemplateRecords rs)"
  shows "CHR ''#'' \<notin> set (rr_FQDN s)" and "CHR ''#'' \<notin> set (rr_Zone s)" and "CHR ''#'' \<notin> set (rr_Type s)"
    and "\<forall>v \<in> set (rr_Values s). value_clean (rr_Type s) v"
proof -
  obtain k where k: "k \<in> rrset_key ` set rs"
    "s = (let q = rrset_of (filter (\<lambda>r. rrset_key r = k) rs) in q\<lparr>rr_Values := uniqueSortedValues (rr_Values q)\<rparr>)"
    using assms(2) unfolding groupTemplateRecords_spec by auto
  let ?group = "filter (\<lambda>r. rrset_key r = k) rs"
  have ne: "?group \<noteq> []" using k(1) by (auto simp: filter_empty_conv)
  then have h: "hd ?group \<in> set rs" "rrset_key (hd ?group) = k"
    using hd_in_set [OF ne] by simp_all
  have p: "record_plain (hd ?group)" using assms(1) h(1) by blast
  have s: "rr_FQDN s = cd_ensureTrailingDot (trim_space (r_FQDN (hd ?group)))" "rr_Zone s = r_Zone (hd ?group)"
    "rr_Type s = r_Type (hd ?group)" "rr_Values s = uniqueSortedValues (concat (map r_Values ?group))"
    unfolding k(2) by (simp_all add: rrset_of_def Let_def)
  have "CHR ''#'' \<notin> set (trim_space (r_FQDN (hd ?group)))" using p set_trim_space by (auto simp: record_plain_def)
  then show "CHR ''#'' \<notin> set (rr_FQDN s)" unfolding s(1) by (simp add: cd_ensureTrailingDot_def)
  show "CHR ''#'' \<notin> set (rr_Zone s)" "CHR ''#'' \<notin> set (rr_Type s)"
    using p unfolding s by (simp_all add: record_plain_def)
  show "\<forall>v \<in> set (rr_Values s). value_clean (rr_Type s) v"
  proof
    fix v assume "v \<in> set (rr_Values s)"
    then obtain u r where u: "r \<in> set rs" "rrset_key r = k" "u \<in> set (r_Values r)" "v = trim_space u"
      using template_values.uniq_from unfolding s(4) by fastforce
    have r: "record_plain r" using assms(1) u(1) by blast
    have "r_Type r = rr_Type s" unfolding s(3) by (rule rrset_key_type) (use u(2) h(2) r p in simp_all)
    then show "value_clean (rr_Type s) v" using r u(3,4) by (auto simp: record_plain_def)
  qed
qed

lemma template_lines_end_free:
  assumes "\<forall>r \<in> set rs. record_plain r" and "s \<in> set (groupTemplateRecords rs)" and "l \<in> set (template_lines s)"
  shows "\<not> sublist ManagedBlockEnd l"
proof -
  note S = rrset_values_clean [OF assms(1,2)]
  have meta: "CHR ''#'' \<notin> set (quote_meta w)" if "CHR ''#'' \<notin> set w" for w
    using that by (auto simp: quote_meta_def split: if_splits)
  have z: "CHR ''#'' \<notin> set (trim_suffix (rr_Zone s) ''.'')" using S(2) set_trim_suffix by blast
  have num: "CHR ''#'' \<notin> set (dec_int i)" for i using dec_int_bytes [of "CHR ''#''" i] by (auto simp: is_digit_def)
  consider v where "v \<in> set (rr_Values s)" "l = ''        answer '' @ quote (''{{ .Name }} '' @ dec_int (sint (rr_TTL s))
      @ '' IN '' @ rr_Type s @ '' '' @ templateValue (rr_Type s) v)"
    | "l = ''    template IN '' @ rr_Type s @ '' '' @ trim_suffix (rr_Zone s) ''.'' @ '' {''"
    | "l = ''        match ^'' @ quote_meta (rr_FQDN s) @ ''$''" | "l = ''        fallthrough''" | "l = ''    }''"
    using assms(3) unfolding template_lines_def set_append set_map list.set by blast
  then show ?thesis
  proof cases
    case (1 v)
    have a: "CHR ''#'' \<notin> set (''        answer '')" by simp
    have b: "CHR ''#'' \<notin> set (''{{ .Name }} '' @ dec_int (sint (rr_TTL s)) @ '' IN '' @ rr_Type s @ '' '')"
      using num S(3) by simp
    have "\<not> sublist ManagedBlockEnd (templateValue (rr_Type s) v)" using S(4) 1(1) by (simp add: value_clean_def)
    then have "\<not> sublist ManagedBlockEnd ((''{{ .Name }} '' @ dec_int (sint (rr_TTL s)) @ '' IN '' @ rr_Type s @ '' '')
        @ templateValue (rr_Type s) v)" unfolding end_marker_skip [OF b] .
    then have "\<not> sublist ManagedBlockEnd (quote (''{{ .Name }} '' @ dec_int (sint (rr_TTL s)) @ '' IN '' @ rr_Type s @ '' ''
        @ templateValue (rr_Type s) v))" using end_marker_quote by (simp only: append_assoc) blast
    then show ?thesis unfolding 1(2) end_marker_skip [OF a] .
  next
    case 2
    show ?thesis unfolding 2 by (rule end_marker_free) (use S(3) z in simp)
  next
    case 3
    show ?thesis unfolding 3 by (rule end_marker_free) (use meta [OF S(1)] in simp)
  qed (simp_all add: end_marker_free)
qed

lemma rendered_end_free:
  assumes "is_order ordR" and "zd_Raw d = []" and "CHR ''#'' \<notin> set (zd_Zone d)"
    and "if zd_Policy d = UnresolvedRecordPolicyForward then \<forall>r \<in> set (zd_Records d). record_plain r
      else CHR ''#'' \<notin> set (zd_DBFile d)"
  shows "end_free ordR d"
proof -
  let ?z = "trim_suffix (zd_Zone d) ''.''"
  have z: "CHR ''#'' \<notin> set ?z" using assms(3) set_trim_suffix by blast
  have mid: "\<not> sublist ManagedBlockEnd l"
    if "l \<in> set (if zd_Policy d = UnresolvedRecordPolicyForward then
          concat (map template_lines (groupTemplateRecords (DeduplicateAndSort ordR (zd_Records d))))
          @ [''    forward . /etc/resolv.conf'']
        else [''    file /etc/coredns/'' @ zd_DBFile d @ '' '' @ ?z])" for l
  proof (cases "zd_Policy d = UnresolvedRecordPolicyForward")
    case True
    then have "\<forall>r \<in> set (DeduplicateAndSort ordR (zd_Records d)). record_plain r"
      using record_plain_dedup [OF assms(1)] assms(4) by simp
    from template_lines_end_free [OF this] show ?thesis using that True by (auto simp: end_marker_free)
  next
    case False
    then have "l = ''    file /etc/coredns/'' @ zd_DBFile d @ '' '' @ ?z" using that by simp
    then show ?thesis using end_marker_free [of l] z assms(4) False by simp
  qed
  show ?thesis
    unfolding end_free_def directive_lines_def Let_def using assms(2) mid z
    by (auto simp: end_marker_free simp del: append.simps)
qed

end
