(* ===== verification/Controller_History.thy ===== *)
theory Controller_History
  imports Controller_Run Controller_Health Coredns_Held
begin

text \<open>
  Any number of passes: an invariant of the stored CoreDNS objects (\<open>stable\<close>) that every state
  a pass stores satisfies, whether the pass succeeds or fails and wherever it stops, so that
  the next pass can start from whatever was left behind.
\<close>

section \<open>The invariant\<close>

definition zone_key :: "string \<Rightarrow> bool" where
  "zone_key k \<longleftrightarrow> (\<exists>n. canonical n \<and> k = ZoneFileKey n)"

text \<open>
  A stable state is coherent, has a Corefile with at most one block, whose markers are in
  order, records as managed only keys of zone files, and names no key of a zone file
  outside the block.
\<close>

definition stable :: "string \<Rightarrow> coredns_state \<Rightarrow> bool" where
  "stable name s \<longleftrightarrow>
     coherent name s
     \<and> corefile_of (fst s) \<noteq> [] \<and> block_fit (corefile_of (fst s))
     \<and> (\<forall>k \<in> set (ManagedZoneKeys (fst s)). zone_key k)
     \<and> (\<forall>f \<in> named_files (outside_block (corefile_of (fst s))). \<not> zone_key f)"

text \<open>What holds of the layout on the way from one Corefile to the next.\<close>

definition passing :: "string set \<Rightarrow> string set \<Rightarrow> string \<Rightarrow> string \<Rightarrow> string set \<Rightarrow> layout \<Rightarrow> bool" where
  "passing P D T C F l \<longleftrightarrow>
     safe l \<and> l_managed l \<subseteq> P \<union> D \<and> (\<forall>f \<in> F. visible l f)
     \<and> ((l_text l = T \<and> P \<subseteq> l_managed l) \<or> (l_text l = C \<and> D \<subseteq> l_managed l))"

lemma visible_remount:
  assumes "visible l f" and "f \<notin> P"
  shows "visible (l\<lparr>l_items := remount M P (l_items l)\<rparr>) f"
  using assms by (auto simp: visible_def remount_def Let_def split: option.splits)

lemma proto_passing:
  assumes "proto P D C l l'" and "F \<inter> (P \<union> D) = {}" and "passing P D T C F l"
  shows "passing P D T C F l'"
proof -
  have s: "safe l'" using proto_safe [OF assms(1)] assms(3) by (simp add: passing_def)
  have v: "\<forall>f \<in> F. visible l f" and m: "l_managed l \<subseteq> P \<union> D"
    and t: "(l_text l = T \<and> P \<subseteq> l_managed l) \<or> (l_text l = C \<and> D \<subseteq> l_managed l)"
    using assms(3) by (simp_all add: passing_def)
  have F: "f \<notin> P" "f \<notin> D" if "f \<in> F" for f using that assms(2) by blast+
  show ?thesis
    using assms(1)
  proof cases
    case expand_data
    then show ?thesis using s v t by (auto simp: passing_def visible_def split: option.splits)
  next
    case expand_mount
    then show ?thesis using s v m t visible_remount F(1) by (simp add: passing_def)
  next
    case switch
    then show ?thesis using s v by (auto simp: passing_def visible_def split: option.splits)
  next
    case contract_mount
    then show ?thesis using s v m t visible_remount F(1) by (simp add: passing_def)
  next
    case contract_data
    then show ?thesis using s v F by (auto simp: passing_def visible_def split: option.splits)
  qed
qed

section \<open>Inputs\<close>

text \<open>No value of the zones and the records renders to a text with the end marker of the block.\<close>

definition spec_clean :: "PrivateDNSZoneSpec \<Rightarrow> bool" where
  "spec_clean spec \<longleftrightarrow> (\<forall>i \<in> set (zs_Records spec). \<forall>v \<in> set (in_Values i). value_clean (in_Type i) v)"

definition record_clean_values :: "PrivateDNSRecord \<Rightarrow> bool" where
  "record_clean_values e \<longleftrightarrow> (\<forall>v \<in> set (rs_Values (rec_Spec e)). value_clean (rs_Type (rec_Spec e)) v)"

lemma no_hash_type: "validateValue t u = None \<Longrightarrow> CHR ''#'' \<notin> set t \<and> CHR ''|'' \<notin> set t"
  by (drule validateValue_type) auto

lemma canonical_no_hash: "canonical n \<Longrightarrow> CHR ''#'' \<notin> set n"
  using canonical_bytes [of n "CHR ''#''"] by (auto simp: ldh_def label_rune_ok_def)

lemma ZoneFileKey_no_hash: "canonical n \<Longrightarrow> CHR ''#'' \<notin> set (ZoneFileKey n)"
proof -
  assume n: "canonical n"
  have "CHR ''#'' \<notin> set (trim_suffix n ''.'')" using canonical_no_hash [OF n] set_trim_suffix by blast
  moreover have "\<not> is_hex CHR ''#''" by (simp add: is_hex_def is_digit_def)
  ultimately show ?thesis
    unfolding ZoneFileKey_form [OF n] using hex_bytes_hex by (auto simp: file_key_char_def split: if_splits)
qed

lemma compiled_plain:
  assumes "recordsForZone zone n external outcomes = ((compiled, excluded, blocking), outcomes')" and "canonical n"
    and "spec_clean (z_Spec zone)" and "\<forall>e \<in> set external. record_clean_values e" and "r \<in> set compiled"
  shows "record_plain r"
proof -
  note A = compiled_valid(2) [OF assms(1,5)]
  have v: "ValidateRecord r = []" and f: "canonical (r_FQDN r)" and z: "r_Zone r = n" using admitted_valid [OF A] by simp_all
  from v obtain u where "validateValue (r_Type r) u = None" by (auto simp: ValidateRecord_Nil neq_Nil_conv)
  then have t: "CHR ''#'' \<notin> set (r_Type r) \<and> CHR ''|'' \<notin> set (r_Type r)" by (rule no_hash_type)
  have "\<forall>v \<in> set (r_Values r). value_clean (r_Type r) v"
    using A
  proof (cases rule: admitted_cases)
    case (1 i)
    then have "r_Type r = in_Type i" "r_Values r = in_Values i"
      by (auto simp: compileInline_def Let_def split: sum.splits if_splits)
    then show ?thesis using 1(1) assms(3) by (simp add: spec_clean_def)
  next
    case (2 e)
    then have "r_Type r = rs_Type (rec_Spec e)" "r_Values r = rs_Values (rec_Spec e)"
      by (auto simp: compileExternal_def Let_def split: sum.splits if_splits)
    then show ?thesis using 2(1) assms(4) by (simp add: record_clean_values_def)
  qed
  with t f z assms(2) show ?thesis by (simp add: record_plain_def canonical_no_hash)
qed

text \<open>The directives of a pass over such inputs.\<close>

lemma rendered_records:
  assumes "d \<in> set (rn_directives (renderZones env records po zones))"
    and "\<forall>z \<in> set zones. spec_clean (z_Spec z)" and "\<forall>e \<in> set records. record_clean_values e"
    and "r \<in> set (zd_Records d)"
  shows "record_plain r"
proof -
  obtain zone where z: "zone \<in> set zones" "d \<in> set (fst (snd (contribution_of env records po zone)))"
    using assms(1) unfolding renderZones_contributions(1) by auto
  have held: "zd_Records d = []" if "d \<in> set (fst (snd (held_contribution po zone n reason err)))" for n reason err
    using that by (auto simp: held_contribution_def holdLastKnownGood_def Let_def split: option.splits if_splits)
  obtain n where n: "NormalizeZone (zs_Zone (z_Spec zone)) = Inr n"
    using z(2) by (cases "NormalizeZone (zs_Zone (z_Spec zone))") (auto simp: contribution_of_def)
  obtain compiled excluded errs outs where rz: "recordsForZone zone n records [] = ((compiled, excluded, errs), outs)"
    by (metis prod.exhaust)
  have "zd_Records d = compiled \<or> zd_Records d = []"
    using z(2) held unfolding contribution_of_def n sum.case rz fst_conv Let_def prod.case
    by (auto split: sum.splits if_splits)
  then have "r \<in> set compiled" using assms(4) by auto
  then show ?thesis
    using compiled_plain [OF rz NormalizeZone_canonical [OF n]] z(1) assms(2,3) by blast
qed

section \<open>The next Corefile\<close>

text \<open>Every directive of a pass is one stanza without an end marker.\<close>

lemma directive_fit:
  assumes "is_order ordR" and "rendering_ok (previous_of cm) rn" and "d \<in> set (rn_directives rn)"
    and "\<And>r. r \<in> set (zd_Records d) \<Longrightarrow> record_plain r"
  shows "directive_ok ordR d (directive_zone d) \<and> end_free ordR d \<and> directive_zone d @ ''.'' = zd_Zone d"
proof -
  have n: "canonical (zd_Zone d)" and k: "rendered_directive (rn_zoneFiles rn) d \<or> held_directive (previous_of cm) (rn_zoneFiles rn) d"
    using assms(2,3) unfolding rendering_ok_def by blast+
  note z = canonical_zone [OF n]
  have "directive_ok ordR d (directive_zone d) \<and> end_free ordR d"
    using k
  proof
    assume r: "rendered_directive (rn_zoneFiles rn) d"
    then have raw: "zd_Raw d = []" by (simp add: rendered_directive_def)
    have dbf: "zd_DBFile d = ZoneFileKey (zd_Zone d)" if "zd_Policy d \<noteq> UnresolvedRecordPolicyForward"
      using r that unfolding rendered_directive_def by (metis (mono_tags))
    have "nl \<notin> set (ZoneFileKey (zd_Zone d))" using ZoneFileKey_word [OF n] by (auto simp: graphic_def)
    then have "directive_ok ordR d (directive_zone d)"
      using r z dbf by (simp add: directive_ok_def rendered_directive_def directive_zone_def)
    moreover have "end_free ordR d"
      using rendered_end_free [OF assms(1) raw canonical_no_hash [OF n]] dbf ZoneFileKey_no_hash [OF n] assms(4) by simp
    ultimately show ?thesis by blast
  next
    assume "held_directive (previous_of cm) (rn_zoneFiles rn) d"
    then have "(directive_zone d, zd_Raw d) \<in> set (ExtractZoneBlocks (corefile_of cm))"
      unfolding held_directive_def directive_zone_def by (auto dest: map_of_SomeD)
    from ExtractZoneBlocks_stanza [OF this] obtain ls where ls: "is_stanza (directive_zone d) ls" "zd_Raw d = join [nl] ls"
      "\<forall>l \<in> set ls. \<not> sublist ManagedBlockEnd l"
      by (auto simp: stanza_found_def)
    note t = is_stanza_text [OF ls(1)]
    have "directive_lines ordR d = ls" using t ls(2) by (simp add: directive_lines_def)
    then show ?thesis using ls t by (simp add: directive_ok_def end_free_def)
  qed
  then show ?thesis using z(1) by (simp add: directive_zone_def)
qed

lemma patched_block_owned:
  assumes "coherent name (cm, d)" and "is_order ordD" and "is_order ordR" and "block_fit (corefile_of cm)"
    and "rendering_ok (previous_of cm) rn"
    and "\<And>dir r. dir \<in> set (rn_directives rn) \<Longrightarrow> r \<in> set (zd_Records dir) \<Longrightarrow> record_plain r"
    and "PatchCorefile ordD ordR (corefile_of cm) (rn_directives rn) = Inr patched"
  shows "block_fit patched" and "outside_block patched = outside_block (corefile_of cm)"
    and "(z, raw) \<in> set (ExtractZoneBlocks patched) \<Longrightarrow> named_files raw \<subseteq> {ZoneFileKey (z @ ''.'')} \<inter> keys_of (rn_zoneFiles rn)"
proof -
  have m: "marker_free (outside_block (corefile_of cm))" using assms(4) by (simp add: block_fit_def)
  have fit: "directive_ok ordR dir (directive_zone dir) \<and> end_free ordR dir \<and> directive_zone dir @ ''.'' = zd_Zone dir"
    if "dir \<in> set (rn_directives rn)" for dir
    by (rule directive_fit [OF assms(3,5) that assms(6) [OF that]])
  have e: "\<not> sublist ManagedBlockEnd (stanzas ordD ordR (rn_directives rn))"
    using fit by (intro stanzas_end_free [OF _ assms(2)]) blast
  show "block_fit patched" by (rule patched_fit [OF assms(7) m e])
  show "outside_block patched = outside_block (corefile_of cm)" by (rule PatchCorefile_again(2) [OF assms(7) m e])
  assume "(z, raw) \<in> set (ExtractZoneBlocks patched)"
  moreover have "\<forall>dir \<in> set (rn_directives rn). directive_ok ordR dir (directive_zone dir)" using fit by blast
  ultimately obtain dir where dir: "dir \<in> set (rn_directives rn)" "z = directive_zone dir" "raw = join [nl] (directive_lines ordR dir)"
    using ExtractZoneBlocks_patched [OF assms(7,2,3) _ m e] by blast
  then show "named_files raw \<subseteq> {ZoneFileKey (z @ ''.'')} \<inter> keys_of (rn_zoneFiles rn)"
    using directive_files_covered [OF assms(1,3,5) dir(1)] fit [OF dir(1)] by (simp add: directive_files_def)
qed

section \<open>Every state a pass stores is stable\<close>

lemma passing_stable:
  assumes "stable name (cm, d)" and "is_order ordD" and "is_order ordR"
    and "rendering_ok (previous_of cm) rn"
    and "\<And>dir r. dir \<in> set (rn_directives rn) \<Longrightarrow> r \<in> set (zd_Records dir) \<Longrightarrow> record_plain r"
    and "PatchCorefile ordD ordR (corefile_of cm) (rn_directives rn) = Inr patched"
    and "passing (set (ManagedZoneKeys cm)) (keys_of (rn_zoneFiles rn)) (corefile_of cm) patched
          (named_files (outside_block (corefile_of cm))) (layout_of name s)"
  shows "stable name s \<and> outside_block (corefile_of (fst s)) = outside_block (corefile_of cm)"
proof -
  let ?P = "set (ManagedZoneKeys cm)" and ?D = "keys_of (rn_zoneFiles rn)"
  let ?T = "corefile_of cm" and ?F = "named_files (outside_block (corefile_of cm))"
  have coh: "coherent name (cm, d)" and fit: "block_fit ?T" and P: "\<forall>k \<in> ?P. zone_key k"
    and F: "\<forall>f \<in> ?F. \<not> zone_key f" and ne: "?T \<noteq> []"
    using assms(1) by (simp_all add: stable_def)
  note B = patched_block_owned [OF coh assms(2,3) fit assms(4-6)]
  have D: "\<forall>k \<in> ?D. zone_key k" using assms(4) unfolding rendering_ok_def zone_key_def by blast
  have p: "safe (layout_of name s)" "l_managed (layout_of name s) \<subseteq> ?P \<union> ?D" "\<forall>f \<in> ?F. visible (layout_of name s) f"
    and txt_D: "(l_text (layout_of name s) = ?T \<and> ?P \<subseteq> l_managed (layout_of name s))
      \<or> (l_text (layout_of name s) = patched \<and> ?D \<subseteq> l_managed (layout_of name s))"
    using assms(7) by (simp_all add: passing_def)
  have lay: "l_managed (layout_of name s) = set (ManagedZoneKeys (fst s))" "l_text (layout_of name s) = corefile_of (fst s)"
    by (simp_all add: layout_of_def)
  have M: "\<forall>k \<in> set (ManagedZoneKeys (fst s)). zone_key k" using p(2) P D unfolding lay by blast
  then have ck: "corefileKey \<notin> set (ManagedZoneKeys (fst s))" using ZoneFileKey_not_corefile by (metis zone_key_def)
  have pne: "patched \<noteq> []" using assms(6) by (auto simp: PatchCorefile_def Let_def split: sum.splits)
  have out: "corefile_of (fst s) \<noteq> []" "block_fit (corefile_of (fst s))"
    "outside_block (corefile_of (fst s)) = outside_block ?T"
    by (rule disjE [OF txt_D]; use B(1,2) fit ne pne in \<open>simp add: lay\<close>)+
  have "block_owned (fst s)"
    using txt_D
  proof
    assume "l_text (layout_of name s) = ?T \<and> ?P \<subseteq> l_managed (layout_of name s)"
    then show ?thesis using coh unfolding lay coherent_def block_owned_def by fastforce
  next
    assume "l_text (layout_of name s) = patched \<and> ?D \<subseteq> l_managed (layout_of name s)"
    then show ?thesis using B(3) unfolding lay block_owned_def by fastforce
  qed
  then show ?thesis
    using p(1,3) M F ck out unfolding stable_def coherent_def by (metis (no_types, lifting))
qed

definition inputs_clean :: "'w client \<Rightarrow> 'w \<Rightarrow> bool" where
  "inputs_clean c w \<longleftrightarrow>
     (\<forall>zones w1. list_zones c w = (Inr zones, w1) \<longrightarrow>
        (\<forall>z \<in> set zones. spec_clean (z_Spec z))
        \<and> (\<forall>records w2. list_records c w1 = (Inr records, w2) \<longrightarrow> (\<forall>e \<in> set records. record_clean_values e)))"

text \<open>The reply to an update of a zone has the spec that was sent.\<close>

definition keeps_spec :: "'w client \<Rightarrow> bool" where
  "keeps_spec c \<longleftrightarrow> (\<forall>z w z' w'. update_zone c z w = (Inr z', w') \<longrightarrow> z_Spec z' = z_Spec z)"

lemma claimZones_specs:
  "keeps_spec (Client r) \<Longrightarrow> claimZones r zones w = (Inr zones', w') \<Longrightarrow> map z_Spec zones' = map z_Spec zones"
proof (induction zones arbitrary: w zones' w')
  case (Cons z zs)
  show ?case
  proof (cases "z_deleting z \<or> containsString (om_Finalizers (z_Meta z)) privateDNSZoneFinalizer")
    case True
    then show ?thesis using Cons by (auto split: prod.splits sum.splits)
  next
    case False
    let ?z = "z\<lparr>z_Meta := (z_Meta z)\<lparr>om_Finalizers := om_Finalizers (z_Meta z) @ [privateDNSZoneFinalizer]\<rparr>\<rparr>"
    obtain u w1 where u: "update_zone (Client r) ?z w = (u, w1)" by (rule prod.exhaust)
    then have "\<And>y. u = Inr y \<Longrightarrow> z_Spec y = z_Spec z" using Cons.prems(1) unfolding keeps_spec_def by fastforce
    then show ?thesis using Cons False u by (auto split: prod.splits sum.splits)
  qed
qed simp

lemma claimed_clean:
  assumes "keeps_spec (Client r)" and "inputs_clean (Client r) w"
    and "list_zones (Client r) w = (Inr zones, w1)" and "list_records (Client r) w1 = (Inr records, w2)"
    and "claimZones r zones w3 = (Inr zones', w4)"
  shows "\<forall>z \<in> set zones'. spec_clean (z_Spec z)" and "\<forall>e \<in> set records. record_clean_values e"
proof -
  have read: "\<forall>z \<in> set zones. spec_clean (z_Spec z)" "\<forall>e \<in> set records. record_clean_values e"
    using assms(2-4) unfolding inputs_clean_def by blast+
  then show "\<forall>e \<in> set records. record_clean_values e" by blast
  have specs: "z_Spec ` set zones' = z_Spec ` set zones"
    using arg_cong [OF claimZones_specs [OF assms(1,5)], of set] by simp
  show "\<forall>z \<in> set zones'. spec_clean (z_Spec z)"
  proof
    fix z assume "z \<in> set zones'"
    then have "z_Spec z \<in> z_Spec ` set zones" unfolding specs [symmetric] by (rule imageI)
    then show "spec_clean (z_Spec z)" by (rule imageE) (use read(1) in simp)
  qed
qed

definition env_ok :: "environment \<Rightarrow> bool" where
  "env_ok env \<longleftrightarrow> is_order (env_Directives env) \<and> is_order (env_Answers env) \<and> is_order (env_Items env)"

lemma Reconcile_states_stable:
  assumes "lawful_store (Client r) states" and "keeps_spec (Client r)" and "env_ok env"
    and "stable (CoreDNSConfigMap r) (hd (states w))" and "inputs_clean (Client r) w"
    and "Reconcile r env w = (res, w')"
  shows "\<exists>hs. states w' = hs @ states w \<and> (\<forall>s \<in> set hs. stable (CoreDNSConfigMap r) s
      \<and> outside_block (corefile_of (fst s)) = outside_block (corefile_of (fst (hd (states w)))))"
proof (rule Reconcile_cases [OF assms(1,6)])
  fix zones records cm d wa wb w1
  assume lists: "list_zones (Client r) w = (Inr zones, wa)" "list_records (Client r) wa = (Inr records, wb)"
    and s1: "states w1 = states w" and h: "hd (states w) = (cm, d)"
    and p: "publish r env zones records cm (corefile_of cm) w1 = (res, w')"
  have st: "stable (CoreDNSConfigMap r) (cm, d)" using assms(4) h by simp
  then have coh: "coherent (CoreDNSConfigMap r) (cm, d)" by (simp add: stable_def)
  have ords: "is_order (env_Directives env)" "is_order (env_Answers env)" "is_order (env_Items env)"
    using assms(3) by (simp_all add: env_ok_def)
  show ?thesis
  proof (rule publish_states [OF assms(1) p])
    fix zones' w2 patched res2 w3
    let ?rn = "renderZones env records (previous_of cm) zones'"
    assume claim: "claimZones r zones w1 = (Inr zones', w2)" and s2: "states w2 = states w1"
      and patched: "PatchCorefile (env_Directives env) (env_Answers env) (corefile_of cm) (rn_directives ?rn) = Inr patched"
      and commit: "commitCoreDNS r (env_Items env) cm patched (rn_zoneFiles ?rn) (ManagedZoneKeys cm)
          (HasReloadPlugin patched) (combinedHash (rn_results ?rn)) w2 = (res2, w3)"
      and s3: "states w' = states w3"
    let ?I = "passing (set (ManagedZoneKeys cm)) (keys_of (rn_zoneFiles ?rn)) (corefile_of cm) patched
        (named_files (outside_block (corefile_of cm)))"
    note clean = claimed_clean [OF assms(2,5) lists claim]
    have ready: "commit_ready (CoreDNSConfigMap r) cm d patched (rn_zoneFiles ?rn) (ManagedZoneKeys cm)"
      by (rule pass_commit_ready [OF coh ords(1,2) renderZones_ok patched])
    have hd2: "hd (states w2) = (cm, d)" using h s1 s2 by simp
    have D: "\<forall>k \<in> keys_of (rn_zoneFiles ?rn). zone_key k"
      using renderZones_ok [of "previous_of cm" env records zones'] unfolding rendering_ok_def zone_key_def by blast
    have start: "?I (layout_of (CoreDNSConfigMap r) (cm, d))"
      using coh by (simp add: passing_def coherent_def layout_of_def)
    have disj: "named_files (outside_block (corefile_of cm)) \<inter> (set (ManagedZoneKeys cm) \<union> keys_of (rn_zoneFiles ?rn)) = {}"
      using st D unfolding stable_def by (metis (no_types, lifting) Int_emptyI UnE fst_conv)
    have keep: "?I l'" if "proto (set (ManagedZoneKeys cm)) (keys_of (rn_zoneFiles ?rn)) patched l l'" "?I l" for l l'
      by (rule proto_passing [OF that(1) disj that(2)])
    have "safe (layout_of (CoreDNSConfigMap r) (cm, d))" using coh by (simp add: coherent_def)
    then have "\<exists>hs. states w3 = hs @ states w2 \<and> (\<forall>s \<in> set hs. ?I (layout_of (CoreDNSConfigMap r) s))"
      by (rule commitCoreDNS_invariant [where I = ?I, OF assms(1) ords(3) commit hd2 refl ready _ start]) (rule keep)
    then obtain hs where "states w3 = hs @ states w2" "\<forall>s \<in> set hs. ?I (layout_of (CoreDNSConfigMap r) s)" by blast
    then show ?thesis
      using passing_stable [OF st ords(1,2) renderZones_ok rendered_records [OF _ clean] patched] s1 s2 s3 h by auto
  qed (use s1 in \<open>auto intro: exI [of _ "[]"]\<close>)
qed (auto intro: exI [of _ "[]"])

section \<open>Histories of an operator\<close>

text \<open>
  What can happen to a cluster with the operator in it: passes, each with its own clock,
  orders and API failures, and anything else, as long as the states of the CoreDNS objects
  that others store are stable too.
\<close>

inductive operates :: "'w PrivateDNSZoneReconciler \<Rightarrow> ('w \<Rightarrow> coredns_state list) \<Rightarrow> 'w \<Rightarrow> 'w \<Rightarrow> bool" for r states where
  operates_start [intro]: "operates r states w w"
| operates_pass: "operates r states w0 w \<Longrightarrow> env_ok env \<Longrightarrow> inputs_clean (Client r) w \<Longrightarrow> Reconcile r env w = (res, w')
    \<Longrightarrow> operates r states w0 w'"
| operates_other: "operates r states w0 w \<Longrightarrow> states w' = hs @ states w \<Longrightarrow> list_all (stable (CoreDNSConfigMap r)) hs
    \<Longrightarrow> operates r states w0 w'"

lemma operates_stable:
  assumes "operates r states w0 w" and "lawful_store (Client r) states" and "keeps_spec (Client r)"
    and "stable (CoreDNSConfigMap r) (hd (states w0))"
  shows "stable (CoreDNSConfigMap r) (hd (states w))
    \<and> (\<exists>hs. states w = hs @ states w0 \<and> (\<forall>s \<in> set hs. stable (CoreDNSConfigMap r) s))"
  using assms
proof (induction rule: operates.induct)
  case (operates_start w)
  then show ?case by simp
next
  case (operates_pass w0 w env res w')
  then obtain hs where hs: "states w = hs @ states w0" "\<forall>s \<in> set hs. stable (CoreDNSConfigMap r) s"
    and st: "stable (CoreDNSConfigMap r) (hd (states w))" by blast
  obtain hs' where hs': "states w' = hs' @ states w" "\<forall>s \<in> set hs'. stable (CoreDNSConfigMap r) s"
    using Reconcile_states_stable [OF operates_pass.prems(1,2) operates_pass.hyps(2) st operates_pass.hyps(3,4)] by blast
  have "stable (CoreDNSConfigMap r) (hd (states w'))" using hs' st by (cases hs') auto
  moreover have "states w' = (hs' @ hs) @ states w0" using hs hs' by simp
  ultimately show ?case using hs(2) hs'(2) by (metis UnE set_append)
next
  case (operates_other w0 w w' hs')
  then obtain hs where hs: "states w = hs @ states w0" "\<forall>s \<in> set hs. stable (CoreDNSConfigMap r) s"
    and st: "stable (CoreDNSConfigMap r) (hd (states w))" by blast
  have hs': "\<forall>s \<in> set hs'. stable (CoreDNSConfigMap r) s" using operates_other.hyps(3) by (simp add: list_all_iff)
  then have "stable (CoreDNSConfigMap r) (hd (states w'))" using operates_other.hyps(2) st by (cases hs') auto
  moreover have "states w' = (hs' @ hs) @ states w0" using hs operates_other.hyps(2) by simp
  ultimately show ?case using hs(2) hs' by (metis UnE set_append)
qed

section \<open>Recovery\<close>

text \<open>
  What a pass that returns no error has stored: the Corefile it read, patched with the
  directives of this pass, and every zone file of this pass.
\<close>

definition published_by ::
    "'w PrivateDNSZoneReconciler \<Rightarrow> environment \<Rightarrow> 'w \<Rightarrow> coredns_state \<Rightarrow> coredns_state \<Rightarrow> bool" where
  "published_by r env w s s' \<longleftrightarrow>
     (\<exists>zones records w1 w2 w3 zones' w4 patched.
        list_zones (Client r) w = (Inr zones, w1) \<and> list_records (Client r) w1 = (Inr records, w2)
      \<and> get_configmap (Client r) (CoreDNSNamespace r) (CoreDNSConfigMap r) w2 = (Inr (fst s), w3)
      \<and> claimZones r zones w3 = (Inr zones', w4)
      \<and> PatchCorefile (env_Directives env) (env_Answers env) (corefile_of (fst s))
          (rn_directives (renderZones env records (previous_of (fst s)) zones')) = Inr patched
      \<and> settled (CoreDNSConfigMap r) s' patched (rn_zoneFiles (renderZones env records (previous_of (fst s)) zones')))"

lemma stable_recovers:
  assumes "lawful_store (Client r) states" and "answers (Client r)" and "env_ok env"
    and "stable (CoreDNSConfigMap r) (hd (states w))" and "mounts_it r states w"
  shows "\<exists>w'. Reconcile r env w = (None, w') \<and> published_by r env w (hd (states w)) (hd (states w'))"
proof -
  have st: "coherent (CoreDNSConfigMap r) (hd (states w))" "corefile_of (fst (hd (states w))) \<noteq> []"
    "markers_ok (corefile_of (fst (hd (states w))))"
    using assms(4) by (simp_all add: stable_def block_fit_def)
  have ords: "is_order (env_Directives env)" "is_order (env_Answers env)" "is_order (env_Items env)"
    using assms(3) by (simp_all add: env_ok_def)
  obtain w' where run: "Reconcile r env w = (None, w')"
    using Reconcile_answers [OF assms(1,2,5) st(2,3)] by blast
  from Reconcile_ok [OF assms(1) ords st(1) run]
  have "published_by r env w (hd (states w)) (hd (states w'))" unfolding published_by_def by blast
  with run show ?thesis by blast
qed

end
