(* ===== verification/Controller_Steady.thy ===== *)
theory Controller_Steady
  imports Controller_History
begin

text \<open>
  The pass after a pass. When the zones and the records are read back as the first pass stored
  them, the second pass renders the same output, whatever the clock and the orders in which Go
  visits its maps, finds it in place and has nothing to write: the operator converges after one
  pass that succeeds.
\<close>

section \<open>Statuses do not matter\<close>

text \<open>The compilation of the records of a zone reads no status.\<close>

lemma status_frame:
  "z_Meta (zone\<lparr>z_Status := st\<rparr>) = z_Meta zone" "z_Spec (zone\<lparr>z_Status := st\<rparr>) = z_Spec zone"
  "rec_Meta (e\<lparr>rec_Status := s\<rparr>) = rec_Meta e" "rec_Spec (e\<lparr>rec_Status := s\<rparr>) = rec_Spec e"
  by simp_all

lemma compile_status:
  "compileInline (zone\<lparr>z_Status := st\<rparr>) = compileInline zone"
  "compileExternal (zone\<lparr>z_Status := st\<rparr>) n ttl (e\<lparr>rec_Status := s\<rparr>) = compileExternal zone n ttl e"
  "accepted_outcome (zone\<lparr>z_Status := st\<rparr>) = accepted_outcome zone"
  "zone_ttl (zone\<lparr>z_Status := st\<rparr>) = zone_ttl zone"
  by (intro ext, unfold compileInline_def compileExternal_def accepted_outcome_def zone_ttl_def status_frame) (rule refl)+

lemma recordsForZone_status:
  "recordsForZone (zone\<lparr>z_Status := st\<rparr>) n (map (\<lambda>e. e\<lparr>rec_Status := f e\<rparr>) external) outcomes
   = recordsForZone zone n external outcomes"
proof -
  have inl: "inline_step (zone\<lparr>z_Status := st\<rparr>) = inline_step zone"
    by (intro ext) (simp add: inline_step_def compile_status)
  have ext: "external_step (zone\<lparr>z_Status := st\<rparr>) m ttl s (e\<lparr>rec_Status := f e\<rparr>) = external_step zone m ttl s e" for m ttl s e
    unfolding external_step_def compile_status status_frame ..
  show ?thesis by (simp add: recordsForZone_def inl foldl_map ext)
qed

lemma RenderZone_status:
  "RenderZone ord (zone\<lparr>z_Status := st\<rparr>) rs now previous = RenderZone ord zone rs now previous"
  unfolding RenderZone_def compile_status status_frame ..

lemma renderedResult_status: "renderedResult (zone\<lparr>z_Status := st\<rparr>) = renderedResult zone"
  by (intro ext, unfold renderedResult_def status_frame) (rule refl)

text \<open>
  The orders in which Go visits its maps and leaves ties differ from pass to pass. They do not
  matter for a zone whose compiled records have no ties.
\<close>

definition untied :: "PrivateDNSRecord list \<Rightarrow> PrivateDNSZone \<Rightarrow> bool" where
  "untied records zone \<longleftrightarrow>
     (case NormalizeZone (zs_Zone (z_Spec zone)) of
        Inl e \<Rightarrow> True
      | Inr n \<Rightarrow> (case fst (recordsForZone zone n records []) of (compiled, excluded, errs) \<Rightarrow> tie_free compiled))"

lemma untied_status: "untied records (zone\<lparr>z_Status := st\<rparr>) = untied records zone"
proof -
  have "map (\<lambda>e. e\<lparr>rec_Status := rec_Status e\<rparr>) records = records" by (simp add: map_idI)
  then have same: "recordsForZone (zone\<lparr>z_Status := st\<rparr>) n records [] = recordsForZone zone n records []" for n
    using recordsForZone_status [where f = rec_Status] by metis
  show ?thesis unfolding untied_def status_frame same ..
qed

text \<open>Whether and why rendering fails depends neither on the clock nor on the previous serial.\<close>

lemma RenderZone_Inl:
  "RenderZone ord zone rs now previous = Inl e \<Longrightarrow> RenderZone ord zone rs now' previous' = Inl e"
  by (auto simp: RenderZone_def Let_def split: sum.splits if_splits list.splits)

lemma markZoneRecordsNotReady_status:
  "markZoneRecordsNotReady outs (map (\<lambda>e. e\<lparr>rec_Status := f e\<rparr>) records) name message
   = markZoneRecordsNotReady outs records name message"
  unfolding markZoneRecordsNotReady_def foldl_map mark_step_def status_frame ..

lemma newRecordOutcomes_status:
  "newRecordOutcomes (map (\<lambda>e. e\<lparr>rec_Status := f e\<rparr>) records) = newRecordOutcomes records"
  unfolding newRecordOutcomes_def foldl_map status_frame ..

section \<open>One zone again\<close>

text \<open>What holding a zone takes from the previous output: its stanza and its zone file.\<close>

definition hold_view :: "previous_output \<Rightarrow> string \<Rightarrow> (string \<times> string option) option" where
  "hold_view po n =
     map_option (\<lambda>raw. (raw, if ZoneFileKey n \<in> set (po_ManagedKeys po)
         then map_of (cm_Data (po_ConfigMap po)) (ZoneFileKey n) else None))
       (map_of (po_Blocks po) (trim_suffix n ''.''))"

lemma holdLastKnownGood_view:
  "holdLastKnownGood zone n po result ds files =
     (case hold_view po n of
        None \<Rightarrow> (result, ds, files)
      | Some (raw, content) \<Rightarrow>
          (let ds = ds @ [\<lparr>zd_Zone = n, zd_DBFile = [], zd_Policy = [], zd_Records = [], zd_Raw = raw\<rparr>];
               result = result\<lparr>res_conditions := res_conditions result @
                 [condition ConditionLastKnownGoodApplied ConditionTrue (failureReason result)
                    ''kept the previously rendered output for this zone'' (z_Generation zone)]\<rparr>
           in case content of
                None \<Rightarrow> (result, ds, files)
              | Some c \<Rightarrow> (result\<lparr>res_zoneFileKey := ZoneFileKey n\<rparr>, ds, AList.update (ZoneFileKey n) c files)))"
  by (cases "map_of (po_Blocks po) (trim_suffix n ''.'')")
    (simp_all add: holdLastKnownGood_def hold_view_def Let_def split: option.split)

lemma failAndHold_again:
  assumes "hold_view po n = hold_view po' n"
    and "zst_Serial st = zst_Serial (z_Status zone)" and "zst_LastAppliedHash st = zst_LastAppliedHash (z_Status zone)"
  shows "failAndHold (map (\<lambda>e. e\<lparr>rec_Status := f e\<rparr>) records) po' (zone\<lparr>z_Status := st\<rparr>) n reason err outs rn
    = failAndHold records po zone n reason err outs rn"
proof -
  have f: "failedResult (zone\<lparr>z_Status := st\<rparr>) reason m = failedResult zone reason m" for m
    using assms(2,3) by (simp add: failedResult_def)
  have h: "holdLastKnownGood (zone\<lparr>z_Status := st\<rparr>) n po' res ds files = holdLastKnownGood zone n po res ds files" for res ds files
    unfolding holdLastKnownGood_view status_frame assms(1) ..
  show ?thesis by (simp add: failAndHold_def f h markZoneRecordsNotReady_status)
qed

lemma render_step_again:
  assumes ord: "is_order (env_Records env)" "is_order (env_Records env')" and tie: "untied records zone"
    and st: "zst_Serial st = res_serial (fst (contribution_of env records po zone))"
      "zst_LastAppliedHash st = res_lastAppliedHash (fst (contribution_of env records po zone))"
    and hold: "\<And>n reason err. NormalizeZone (zs_Zone (z_Spec zone)) = Inr n
        \<Longrightarrow> contribution_of env records po zone = held_contribution po zone n reason err \<Longrightarrow> hold_view po n = hold_view po' n"
  shows "render_step env' (map (\<lambda>e. e\<lparr>rec_Status := f e\<rparr>) records) po' rn (zone\<lparr>z_Status := st\<rparr>)
    = render_step env records po rn zone"
proof (cases "z_deleting zone")
  case True
  then show ?thesis by (simp add: render_step_def)
next
  case live: False
  show ?thesis
  proof (cases "NormalizeZone (zs_Zone (z_Spec zone))")
    case (Inl e)
    then have "failedResult (zone\<lparr>z_Status := st\<rparr>) reason m = failedResult zone reason m" for reason m
      using st by (simp add: contribution_of_def failedResult_def)
    then show ?thesis using live Inl by (simp add: render_step_def markZoneRecordsNotReady_status)
  next
    case (Inr n)
    have fails: "failAndHold (map (\<lambda>e. e\<lparr>rec_Status := f e\<rparr>) records) po' (zone\<lparr>z_Status := st\<rparr>) n reason err outs rn
        = failAndHold records po zone n reason err outs rn"
      if "contribution_of env records po zone = held_contribution po zone n reason err" for reason err outs
    proof -
      obtain res ds fs where c: "held_contribution po zone n reason err = (res, ds, fs)" by (metis prod.exhaust)
      show ?thesis
        by (rule failAndHold_again [OF hold [OF Inr that]])
          (use st that held_contribution_spec [OF c] in \<open>simp_all add: c\<close>)
    qed
    obtain compiled excluded errs outs where r: "recordsForZone zone n records (rn_outcomes rn) = ((compiled, excluded, errs), outs)"
      by (metis prod.exhaust)
    have r0: "fst (recordsForZone zone n records []) = (compiled, excluded, errs)"
      using recordsForZone_admitted_only [OF refl, of zone n records "[]" "rn_outcomes rn"] r by simp
    have tie': "tie_free compiled" using tie Inr r0 by (simp add: untied_def)
    note free = RenderZone_order_free [OF tie' ord]
    show ?thesis
    proof (cases "errs = []")
      case False
      then have "contribution_of env records po zone = held_contribution po zone n reasonInvalidRecordSet (hd errs)"
        using Inr r0 by (simp add: contribution_of_def)
      from fails [OF this] show ?thesis using live Inr r False by (simp add: render_step_def recordsForZone_status)
    next
      case True
      let ?prev = "\<lparr>pr_Serial = zst_Serial (z_Status zone), pr_Hash = zst_LastAppliedHash (z_Status zone)\<rparr>"
      let ?prev' = "\<lparr>pr_Serial = zst_Serial st, pr_Hash = zst_LastAppliedHash st\<rparr>"
      show ?thesis
      proof (cases "RenderZone (env_Records env) zone compiled (env_Now env (z_Name zone)) ?prev")
        case (Inl err)
        then have "contribution_of env records po zone = held_contribution po zone n reasonZoneRenderFailed err"
          using Inr r0 True by (simp add: contribution_of_def)
        from fails [OF this] RenderZone_Inl [OF Inl, of "env_Now env' (z_Name zone)" ?prev'] show ?thesis
          using live Inr r True Inl by (simp add: render_step_def recordsForZone_status RenderZone_status free)
      next
        case zf: (Inr zf)
        have c: "contribution_of env records po zone = (renderedResult zone (effectivePolicy (zs_UnresolvedRecordPolicy (z_Spec zone))) compiled excluded zf,
            snd (contribution_of env records po zone))"
          using Inr r0 True zf by (simp add: contribution_of_def Let_def)
        have "zst_Serial st = zf_Serial zf" "zst_LastAppliedHash st = zf_Hash zf"
          using arg_cong [OF c, of fst] st by (auto simp: renderedResult_def Let_def)
        then have "RenderZone (env_Records env) zone compiled (env_Now env' (z_Name zone)) ?prev' = Inr zf"
          using RenderZone_steady [OF zf] by simp
        then show ?thesis
          using live Inr r True zf
          by (simp add: render_step_def recordsForZone_status RenderZone_status renderedResult_status free)
      qed
    qed
  qed
qed

section \<open>All zones again\<close>

lemma render_loop_live:
  "foldl (render_step env records po) rn zones = foldl (render_step env records po) rn (live zones)"
  by (induction zones arbitrary: rn) (simp_all add: render_step_def)

lemma renderZones_again:
  assumes ord: "is_order (env_Records env)" "is_order (env_Records env')"
    and tie: "\<forall>z \<in> set (live zones). untied records z" and dist: "distinct (map z_Name (live zones))"
    and zones': "live zones' = map (reported_zone lib (rn_results (renderZones env records po zones)) reloadable) (live zones)"
    and hold: "\<And>z n reason err. z \<in> set (live zones) \<Longrightarrow> NormalizeZone (zs_Zone (z_Spec z)) = Inr n
        \<Longrightarrow> contribution_of env records po z = held_contribution po z n reason err \<Longrightarrow> hold_view po n = hold_view po' n"
  shows "renderZones env' (map (\<lambda>e. e\<lparr>rec_Status := f e\<rparr>) records) po' zones' = renderZones env records po zones"
proof -
  let ?results = "rn_results (renderZones env records po zones)"
  have step: "render_step env' (map (\<lambda>e. e\<lparr>rec_Status := f e\<rparr>) records) po' rn (reported_zone lib ?results reloadable z)
      = render_step env records po rn z" if z: "z \<in> set (live zones)" for rn z
  proof -
    let ?res = "fst (contribution_of env records po z)"
    have "map_of ?results (z_Name z) = Some ?res"
      using find_unique(1) [OF dist z] renderZones_contributions(3) [OF dist, of env records po "z_Name z"] by simp
    then have "reported_zone lib ?results reloadable z = z\<lparr>z_Status := zone_status lib z ?res reloadable\<rparr>"
      by (simp add: reported_zone_def)
    then show ?thesis
      using render_step_again [OF ord tie [rule_format, OF z], of "zone_status lib z ?res reloadable" po po' f rn] hold [OF z]
      by (simp add: zone_status_def)
  qed
  show ?thesis
    unfolding renderZones_def newRecordOutcomes_status
    unfolding render_loop_live [of env' _ po' _ zones'] render_loop_live [of env _ po _ zones] zones' foldl_map
    by (rule foldl_cong) (use step in \<open>simp_all\<close>)
qed

section \<open>What the first pass leaves for held zones\<close>

lemma contribution_directives:
  assumes "contribution_of env records po zone = (result, ds, fs)"
  shows "length ds \<le> 1" and "d \<in> set ds \<Longrightarrow> NormalizeZone (zs_Zone (z_Spec zone)) = Inr (zd_Zone d)"
proof -
  have held: "length ds \<le> 1 \<and> (\<forall>d \<in> set ds. zd_Zone d = n)" if "held_contribution po zone n reason err = (result, ds, fs)" for n reason err
    using that by (auto simp: held_contribution_def holdLastKnownGood_view Let_def split: option.splits)
  have "length ds \<le> 1 \<and> (\<forall>d \<in> set ds. NormalizeZone (zs_Zone (z_Spec zone)) = Inr (zd_Zone d))"
    using assms held unfolding contribution_of_def
    by (auto simp: Let_def split: sum.splits prod.splits if_splits)
  then show "length ds \<le> 1" "d \<in> set ds \<Longrightarrow> NormalizeZone (zs_Zone (z_Spec zone)) = Inr (zd_Zone d)" by blast+
qed

text \<open>No two live zones share a file key, and in particular no two have the same name.\<close>

definition own_keys :: "PrivateDNSZone list \<Rightarrow> bool" where
  "own_keys zones \<longleftrightarrow> (\<forall>z \<in> set (live zones). \<forall>n. NormalizeZone (zs_Zone (z_Spec z)) = Inr n \<longrightarrow> own_key (live zones) z n)"

lemma own_keys_zones:
  assumes "own_keys zones" and "z \<in> set (live zones)" and "y \<in> set (live zones)"
    and "NormalizeZone (zs_Zone (z_Spec z)) = Inr n" and "NormalizeZone (zs_Zone (z_Spec y)) = Inr n"
  shows "y = z"
  using assms unfolding own_keys_def own_key_def list_all_iff by fastforce

lemma directive_zones_distinct:
  assumes "own_keys zones" and "distinct (map z_Name (live zones))"
  shows "distinct (map directive_zone (rn_directives (renderZones env records po zones)))"
proof -
  let ?D = "\<lambda>z. fst (snd (contribution_of env records po z))"
  have D: "length (?D z) \<le> 1" "d \<in> set (?D z) \<Longrightarrow> NormalizeZone (zs_Zone (z_Spec z)) = Inr (zd_Zone d)" for z d
    using contribution_directives [of env records po z "fst (contribution_of env records po z)" "?D z"
        "snd (snd (contribution_of env records po z))"] by simp_all
  have same: "zd_Zone d = zd_Zone e"
    if "d \<in> set (?D z)" "e \<in> set (?D y)" "directive_zone d = directive_zone e" for z y d e
    using canonical_zone(1) [OF NormalizeZone_canonical [OF D(2) [OF that(1)]]]
      canonical_zone(1) [OF NormalizeZone_canonical [OF D(2) [OF that(2)]]] that(3)
    by (metis directive_zone_def)
  have "distinct (map directive_zone (concat (map ?D zs)))" if "set zs \<subseteq> set (live zones)" "distinct zs" for zs
    using that
  proof (induction zs)
    case (Cons z zs)
    have "distinct (map directive_zone (?D z))" using D(1) [of z] by (cases "?D z") auto
    moreover have "directive_zone d \<noteq> directive_zone e"
      if d: "d \<in> set (?D z)" and e: "e \<in> set (?D y)" and y: "y \<in> set zs" for d e y
    proof
      assume "directive_zone d = directive_zone e"
      then have "zd_Zone d = zd_Zone e" by (rule same [OF d e])
      then have "y = z" using own_keys_zones [OF assms(1), of z y] D(2) [OF d] D(2) [OF e] y Cons.prems(1) by auto
      then show False using y Cons.prems(2) by simp
    qed
    ultimately show ?case using Cons by auto
  qed simp
  moreover have "distinct (live zones)" using assms(2) by (simp add: distinct_map)
  ultimately show ?thesis unfolding renderZones_contributions(1) by blast
qed

text \<open>Of the files collected by a pass, the one of a zone is what the zone contributes.\<close>

lemma own_file_exact:
  assumes "own_key (live zones) zone n" and "zone \<in> set (live zones)"
    and "contribution_of env records po zone = (result, ds, fs)"
    and "fs = (case c of None \<Rightarrow> [] | Some x \<Rightarrow> [(ZoneFileKey n, x)])"
  shows "map_of (rn_zoneFiles (renderZones env records po zones)) (ZoneFileKey n) = c"
proof (cases c)
  case (Some x)
  then show ?thesis using own_file [OF assms(1,2)] assms(3,4) by simp
next
  case None
  let ?fs = "concat (map (\<lambda>z. snd (snd (contribution_of env records po z))) (live zones))"
  have "fst f \<noteq> ZoneFileKey n" if f: "f \<in> set ?fs" for f
  proof
    assume k: "fst f = ZoneFileKey n"
    obtain y where y: "y \<in> set (live zones)" "f \<in> set (snd (snd (contribution_of env records po y)))"
      using f unfolding set_concat set_map by blast
    obtain res ds' fs' where cb: "contribution_of env records po y = (res, ds', fs')" by (metis prod.exhaust)
    then have "f \<in> set fs'" using y(2) by simp
    from contribution_files [OF cb this] k obtain m
      where "NormalizeZone (zs_Zone (z_Spec y)) = Inr m" "ZoneFileKey m = ZoneFileKey n" by auto
    then have "y = zone" using assms(1) y(1) by (auto simp: own_key_def list_all_iff)
    then show False using y(2) assms(3,4) None by simp
  qed
  then have "find (\<lambda>f. fst f = ZoneFileKey n) (rev ?fs) = None" by (simp only: find_None_iff set_rev) blast
  then show ?thesis using None unfolding renderZones_contributions(2) map_of_fold_update by simp
qed

lemma hold_view_again:
  fixes env records zones cm
  defines "rn \<equiv> renderZones env records (previous_of cm) zones"
  assumes "block_fit (corefile_of cm)" and "is_order ordD" and "is_order ordR"
    and fit: "\<And>d. d \<in> set (rn_directives rn) \<Longrightarrow> directive_ok ordR d (directive_zone d) \<and> end_free ordR d"
    and patched: "PatchCorefile ordD ordR (corefile_of cm) (rn_directives rn) = Inr patched"
    and settled: "settled name s patched (rn_zoneFiles rn)"
    and keys: "own_keys zones" "distinct (map z_Name (live zones))"
    and z: "z \<in> set (live zones)" "NormalizeZone (zs_Zone (z_Spec z)) = Inr n"
      "contribution_of env records (previous_of cm) z = held_contribution (previous_of cm) z n reason err"
  shows "hold_view (previous_of (fst s)) n = hold_view (previous_of cm) n"
proof -
  let ?po = "previous_of cm" and ?key = "ZoneFileKey n"
  have ok: "rendering_ok ?po rn" unfolding rn_def by (rule renderZones_ok)
  then have listable: "\<forall>k \<in> keys_of (rn_zoneFiles rn). listable_key k"
    unfolding rendering_ok_def using ZoneFileKey_listable by metis
  have m: "marker_free (outside_block (corefile_of cm))" using assms(2) by (simp add: block_fit_def)
  have e: "\<not> sublist ManagedBlockEnd (stanzas ordD ordR (rn_directives rn))"
    using fit by (intro stanzas_end_free [OF _ assms(3)]) blast
  have okd: "\<forall>d \<in> set (rn_directives rn). directive_ok ordR d (directive_zone d)" using fit by blast
  note blocks = ExtractZoneBlocks_PatchCorefile [OF patched assms(3,4) okd
      directive_zones_distinct [OF keys, of env records ?po, folded rn_def] m e]
  have cf: "corefile_of (fst s) = patched" and managed: "set (ManagedZoneKeys (fst s)) = keys_of (rn_zoneFiles rn)"
    and data: "\<And>c. (?key, c) \<in> set (rn_zoneFiles rn) \<Longrightarrow> map_of (cm_Data (fst s)) ?key = Some c"
    using settled settled_keys(1) [OF settled listable] unfolding settled_def by auto
  obtain res ds fs where h: "held_contribution ?po z n reason err = (res, ds, fs)" by (metis prod.exhaust)
  note spec = held_contribution_spec [OF h] and cb = z(3) [unfolded h]
  have zone_n: "canonical n" by (rule NormalizeZone_canonical [OF z(2)])
  show ?thesis
  proof (cases "map_of (ExtractZoneBlocks (corefile_of cm)) (trim_suffix n ''.'')")
    case None
    have "trim_suffix n ''.'' \<noteq> directive_zone d" if d: "d \<in> set (rn_directives rn)" for d
    proof
      assume same: "trim_suffix n ''.'' = directive_zone d"
      obtain y where y: "y \<in> set (live zones)" "d \<in> set (fst (snd (contribution_of env records ?po y)))"
        using d unfolding rn_def renderZones_contributions(1) by auto
      have "NormalizeZone (zs_Zone (z_Spec y)) = Inr (zd_Zone d)"
        using contribution_directives(2) [of env records ?po y "fst (contribution_of env records ?po y)"
            "fst (snd (contribution_of env records ?po y))" "snd (snd (contribution_of env records ?po y))"] y(2) by simp
      moreover from this have "canonical (zd_Zone d)" by (rule NormalizeZone_canonical)
      then have "zd_Zone d = n" using same zone_n canonical_zone(1) unfolding directive_zone_def by metis
      ultimately have "y = z" using own_keys_zones [OF keys(1) z(1) y(1) z(2)] by simp
      then have "d \<in> set ds" using y(2) cb by simp
      then show False using spec None by simp
    qed
    then have "map_of (ExtractZoneBlocks patched) (trim_suffix n ''.'') = None" using blocks(2) by blast
    then show ?thesis using None by (simp add: hold_view_def cf)
  next
    case (Some raw)
    define c where "c = (if ?key \<in> set (ManagedZoneKeys cm) then map_of (cm_Data cm) ?key else None)"
    from spec Some have "map (\<lambda>d. (zd_Zone d, zd_Raw d)) ds = [(n, raw)]" by simp
    then obtain d where d: "ds = [d]" "zd_Zone d = n" "zd_Raw d = raw" by auto
    have "d \<in> set (rn_directives rn)"
      unfolding rn_def renderZones_contributions(1) using z(1) cb d(1) by fastforce
    note found = blocks(1) [OF this]
    from ExtractZoneBlocks_stanza [OF map_of_SomeD [OF Some]] obtain ls
      where ls: "is_stanza (trim_suffix n ''.'') ls" "raw = join [nl] ls" by (auto simp: stanza_found_def)
    note t = is_stanza_text [OF ls(1)]
    have "directive_lines ordR d = ls" using t ls(2) d(3) by (simp add: directive_lines_def)
    then have block: "map_of (ExtractZoneBlocks patched) (trim_suffix n ''.'') = Some raw"
      using found ls(2) d(2) by (simp add: directive_zone_def)
    have "fs = (case c of None \<Rightarrow> [] | Some x \<Rightarrow> [(?key, x)])"
      using spec d(1) by (auto simp: c_def split: option.split)
    note files = this
    have "own_key (live zones) z n" using keys(1) z(1,2) unfolding own_keys_def by blast
    then have c: "map_of (rn_zoneFiles rn) ?key = c"
      unfolding rn_def by (rule own_file_exact [OF _ z(1) cb files])
    have "(if ?key \<in> set (ManagedZoneKeys (fst s)) then map_of (cm_Data (fst s)) ?key else None) = c"
    proof (cases c)
      case None
      have "?key \<notin> keys_of (rn_zoneFiles rn)" by (rule map_of_eq_None_iff [THEN iffD1, OF c [unfolded None]])
      then show ?thesis unfolding managed None by (rule if_not_P)
    next
      case c': (Some x)
      then have "(?key, x) \<in> set (rn_zoneFiles rn)" using c by (simp add: map_of_SomeD)
      moreover from this have "?key \<in> keys_of (rn_zoneFiles rn)" by force
      ultimately show ?thesis using data c' unfolding managed by simp
    qed
    then show ?thesis using Some block by (auto simp: hold_view_def cf c_def split: if_splits)
  qed
qed

section \<open>The same Corefile in any order\<close>

lemma contribution_records:
  assumes "contribution_of env records po zone = (result, ds, fs)" and "d \<in> set ds" and "untied records zone"
  shows "zd_Raw d \<noteq> [] \<or> zd_Policy d \<noteq> UnresolvedRecordPolicyForward \<or> tie_free (zd_Records d)"
proof -
  have "d \<in> set ds \<Longrightarrow> zd_Policy d = []" if "held_contribution po zone n reason err = (result, ds, fs)" for n reason err
    using that by (auto simp: held_contribution_def holdLastKnownGood_view Let_def split: option.splits)
  then show ?thesis
    using assms unfolding contribution_of_def untied_def
    by (fastforce simp: Let_def UnresolvedRecordPolicyForward_def split: sum.splits prod.splits if_splits)
qed

lemma directive_text_order_free:
  assumes "zd_Raw d \<noteq> [] \<or> zd_Policy d \<noteq> UnresolvedRecordPolicyForward \<or> tie_free (zd_Records d)"
    and "is_order ord" and "is_order ord'"
  shows "directive_text ord' d = directive_text ord d"
  using assms(1) DeduplicateAndSort_order_free [OF _ assms(3,2), of "zd_Records d"]
  by (auto simp: directive_text_def renderTemplateRecords_def Let_def)

lemma PatchCorefile_order_free:
  fixes env records zones po
  defines "ds \<equiv> rn_directives (renderZones env records po zones)"
  assumes keys: "own_keys zones" "distinct (map z_Name (live zones))"
    and tie: "\<forall>z \<in> set (live zones). untied records z"
    and ordD: "is_order ordD" "is_order ordD'" and ordR: "is_order ordR" "is_order ordR'"
  shows "PatchCorefile ordD' ordR' cf ds = PatchCorefile ordD ordR cf ds"
proof -
  have dist: "distinct (map directive_zone ds)" unfolding ds_def by (rule directive_zones_distinct [OF keys])
  have "inj_on zd_Zone (set ds)"
  proof (rule inj_onI)
    fix d e assume "d \<in> set ds" "e \<in> set ds" "zd_Zone d = zd_Zone e"
    then have "directive_zone d = directive_zone e" by (simp add: directive_zone_def)
    then show "d = e" using dist \<open>d \<in> set ds\<close> \<open>e \<in> set ds\<close> by (auto simp: distinct_map inj_on_def)
  qed
  then have "sort_slice ordD' zd_Zone ds = sort_slice ordD zd_Zone ds" by (rule sort_slice_unique [OF ordD(2,1) refl])
  moreover have "directive_text ordR' d = directive_text ordR d" if d: "d \<in> set ds" for d
  proof -
    obtain z where z: "z \<in> set (live zones)" "d \<in> set (fst (snd (contribution_of env records po z)))"
      using d unfolding ds_def renderZones_contributions(1) by auto
    from contribution_records [of env records po z _ _ _ d] z tie show ?thesis
      by (intro directive_text_order_free [OF _ ordR]) (metis prod.collapse)
  qed
  then have "map (directive_text ordR') (sort_slice ordD zd_Zone ds) = map (directive_text ordR) (sort_slice ordD zd_Zone ds)"
    using ordD by simp
  ultimately have "renderManagedBlock ordD' ordR' ds = renderManagedBlock ordD ordR ds"
    unfolding renderManagedBlock_def by (simp only:)
  then show ?thesis by (simp add: PatchCorefile_def)
qed

section \<open>The second pass\<close>

text \<open>Loops that find nothing to do make no call.\<close>

lemma claimZones_nothing:
  "\<forall>z \<in> set zones. z_deleting z \<or> privateDNSZoneFinalizer \<in> set (om_Finalizers (z_Meta z))
   \<Longrightarrow> claimZones r zones w = (Inr zones, w)"
  by (induction zones) auto

lemma releaseDeletedZones_nothing:
  "\<forall>z \<in> set zones. z_deleting z \<longrightarrow> privateDNSZoneFinalizer \<notin> set (om_Finalizers (z_Meta z))
   \<Longrightarrow> releaseDeletedZones r zones w = (Inr zones, w)"
  by (induction zones) auto

lemma writeZoneStatuses_live:
  "writeZoneStatuses r lib zones results reloadable w = writeZoneStatuses r lib (live zones) results reloadable w"
  by (induction zones arbitrary: w) (auto simp: Let_def split: option.split prod.split sum.split)

lemma writeRecordStatuses_nothing:
  assumes "lawful_conditions lib" and "lawful_conditions lib'"
    and "\<forall>e \<in> set recs. one_each (rst_Conditions (rec_Status e))"
  shows "writeRecordStatuses r lib' (map (\<lambda>e. if om_DeletionTimestamp (rec_Meta e) \<noteq> None then e
    else reported_record lib outcomes e) recs) outcomes w = (None, w)"
  using assms(3)
proof (induction recs)
  case (Cons q qs)
  then show ?case
    using record_status_again [OF assms(1,2), of q]
    by (cases "om_DeletionTimestamp (rec_Meta q)"; cases "map_of outcomes (key_of q)") (simp_all add: reported_record_def)
qed simp

text \<open>
  How the cluster looks after the statuses of a pass are stored and its terminating zones are
  gone or released: live zones and records as they were, with the statuses of the pass.
\<close>

definition stored_zones :: "conditions_lib \<Rightarrow> results \<Rightarrow> bool \<Rightarrow> PrivateDNSZone list \<Rightarrow> PrivateDNSZone list \<Rightarrow> bool" where
  "stored_zones lib results reloadable zones zones' \<longleftrightarrow>
     live zones' = map (reported_zone lib results reloadable) (live zones)
     \<and> (\<forall>z \<in> set zones'. z_deleting z \<longleftrightarrow> privateDNSZoneFinalizer \<notin> set (om_Finalizers (z_Meta z)))"

definition stored_records :: "conditions_lib \<Rightarrow> outcomes \<Rightarrow> PrivateDNSRecord list \<Rightarrow> PrivateDNSRecord list" where
  "stored_records lib outcomes records =
     map (\<lambda>e. if om_DeletionTimestamp (rec_Meta e) \<noteq> None then e else reported_record lib outcomes e) records"

lemma stored_records_status: "\<exists>f. stored_records lib outcomes records = map (\<lambda>e. e\<lparr>rec_Status := f e\<rparr>) records"
proof
  show "stored_records lib outcomes records =
      map (\<lambda>e. e\<lparr>rec_Status := if om_DeletionTimestamp (rec_Meta e) \<noteq> None then rec_Status e
        else case map_of outcomes (key_of e) of None \<Rightarrow> rec_Status e | Some outcome \<Rightarrow> record_status lib e outcome\<rparr>) records"
    by (auto simp: stored_records_def reported_record_def split: option.split)
qed

lemma publish_again:
  fixes env records zones cm
  defines "rn \<equiv> renderZones env records (previous_of cm) zones"
  assumes law: "lawful_store (Client r) states"
    and libs: "lawful_conditions (env_Conditions env)" "lawful_conditions (env_Conditions env')"
    and orders: "is_order (env_Records env)" "is_order (env_Records env')" "is_order (env_Directives env)" "is_order (env_Answers env)"
      "is_order (env_Directives env')" "is_order (env_Answers env')"
    and tie: "\<forall>z \<in> set (live zones). untied records z"
    and fit: "block_fit (corefile_of cm)"
      "\<And>d. d \<in> set (rn_directives rn) \<Longrightarrow> directive_ok (env_Answers env) d (directive_zone d) \<and> end_free (env_Answers env) d"
    and patched: "PatchCorefile (env_Directives env) (env_Answers env) (corefile_of cm) (rn_directives rn) = Inr patched"
    and settled: "settled (CoreDNSConfigMap r) (hd (states w)) patched (rn_zoneFiles rn)"
    and keys: "own_keys zones" "distinct (map z_Name (live zones))"
    and ones: "\<forall>z \<in> set zones. one_each (zst_Conditions (z_Status z))" "\<forall>e \<in> set records. one_each (rst_Conditions (rec_Status e))"
    and zones': "stored_zones (env_Conditions env) (rn_results rn) (HasReloadPlugin patched) zones zones'"
    and run: "publish r env' zones' (stored_records (env_Conditions env) (rn_outcomes rn) records) (fst (hd (states w))) patched w = (res, w')"
  shows "w' = deployment_read r w \<or> w' = deployment_read r (deployment_read r w)"
proof -
  let ?cm' = "fst (hd (states w))" and ?lib = "env_Conditions env"
  let ?po' = "\<lparr>po_Blocks = ExtractZoneBlocks patched, po_ManagedKeys = ManagedZoneKeys ?cm', po_ConfigMap = ?cm'\<rparr>"
  let ?records' = "stored_records ?lib (rn_outcomes rn) records"
  have cf: "corefile_of ?cm' = patched" using settled by (simp add: settled_def)
  obtain f where f: "?records' = map (\<lambda>e. e\<lparr>rec_Status := f e\<rparr>) records" using stored_records_status by blast
  have "renderZones env' (map (\<lambda>e. e\<lparr>rec_Status := f e\<rparr>) records) ?po' zones' = renderZones env records (previous_of cm) zones"
  proof (rule renderZones_again [OF orders(1,2) tie keys(2)])
    show "live zones' = map (reported_zone ?lib (rn_results (renderZones env records (previous_of cm) zones)) (HasReloadPlugin patched)) (live zones)"
      using zones' by (simp add: stored_zones_def rn_def)
    show "hold_view (previous_of cm) n = hold_view ?po' n"
      if "z \<in> set (live zones)" "NormalizeZone (zs_Zone (z_Spec z)) = Inr n"
        "contribution_of env records (previous_of cm) z = held_contribution (previous_of cm) z n reason err" for z n reason err
      using hold_view_again [OF fit(1) orders(3,4) fit(2) [unfolded rn_def] patched [unfolded rn_def] settled [unfolded rn_def] keys that]
      by (simp add: cf)
  qed
  then have again: "renderZones env' ?records' ?po' zones' = rn" unfolding f unfolding rn_def .
  have m: "marker_free (outside_block (corefile_of cm))" using fit(1) by (simp add: block_fit_def)
  have e: "\<not> sublist ManagedBlockEnd (stanzas (env_Directives env) (env_Answers env) (rn_directives rn))"
    using fit(2) by (intro stanzas_end_free [OF _ orders(3)]) blast
  have patch: "PatchCorefile (env_Directives env') (env_Answers env') patched (rn_directives rn) = Inr patched"
    using PatchCorefile_again(1) [OF patched m e, of "env_Directives env" "env_Answers env" "rn_directives rn"] patched
      PatchCorefile_order_free [OF keys tie orders(3,5,4,6), of patched env "previous_of cm", folded rn_def] by simp
  have claim: "claimZones r zones' w = (Inr zones', w)" and release: "releaseDeletedZones r zones' v = (Inr zones', v)" for v
    using zones' by (auto simp: stored_zones_def intro!: claimZones_nothing releaseDeletedZones_nothing)
  have zst: "writeZoneStatuses r (env_Conditions env') zones' (rn_results rn) (HasReloadPlugin patched) v = (None, v)" for v
  proof -
    have "list_all (\<lambda>z. one_each (zst_Conditions (z_Status z))) (live zones)" using ones(1) by (simp add: list_all_iff)
    then have "writeZoneStatuses r (env_Conditions env') (map (reported_zone ?lib (rn_results rn) (HasReloadPlugin patched)) (live zones))
        (rn_results rn) (HasReloadPlugin patched) v = (None, v)"
      using renderZones_conditions [of env records "previous_of cm" zones, folded rn_def]
      by (rule writeZoneStatuses_reported [OF libs])
    then show ?thesis
      using zones' writeZoneStatuses_live [of r _ zones'] by (simp add: stored_zones_def)
  qed
  have rst: "writeRecordStatuses r (env_Conditions env') ?records' (rn_outcomes rn) v = (None, v)" for v
    unfolding stored_records_def by (rule writeRecordStatuses_nothing [OF libs ones(2)])
  have ok: "rendering_ok (previous_of cm) rn" unfolding rn_def by (rule renderZones_ok)
  then have listable: "\<forall>k \<in> keys_of (rn_zoneFiles rn). listable_key k" and dist: "distinct (map fst (rn_zoneFiles rn))"
    unfolding rendering_ok_def using ZoneFileKey_listable by metis+
  obtain err v where commit: "commitCoreDNS r (env_Items env') ?cm' patched (rn_zoneFiles rn) (ManagedZoneKeys ?cm')
      (HasReloadPlugin patched) (combinedHash (rn_results rn)) w = (err, v)" by (rule prod.exhaust)
  have "w' = v"
    using run unfolding publish_def Let_def claim prod.case sum.case again patch commit release zst rst
    by (auto split: option.splits)
  then show ?thesis
    using commit_settled_reads [OF law settled listable dist refl refl commit] by simp
qed

lemma Reconcile_again:
  fixes env records zones cm
  defines "rn \<equiv> renderZones env records (previous_of cm) zones"
  assumes law: "lawful_store (Client r) states" and spec: "keeps_spec (Client r)"
    and env: "env_ok env" "env_ok env'" "lawful_conditions (env_Conditions env)" "lawful_conditions (env_Conditions env')"
      "is_order (env_Records env)" "is_order (env_Records env')"
    and st: "stable (CoreDNSConfigMap r) (hd (states w))" and clean: "inputs_clean (Client r) w"
    and first: "list_zones (Client r) w = (Inr zones0, w1)" "list_records (Client r) w1 = (Inr records, w2)"
      "get_configmap (Client r) (CoreDNSNamespace r) (CoreDNSConfigMap r) w2 = (Inr cm, w3)"
      "claimZones r zones0 w3 = (Inr zones, w4)" "Reconcile r env w = (None, w')"
    and patched: "PatchCorefile (env_Directives env) (env_Answers env) (corefile_of cm) (rn_directives rn) = Inr patched"
    and tie: "\<forall>z \<in> set (live zones). untied records z"
    and keys: "own_keys zones" "distinct (map z_Name (live zones))"
    and ones: "\<forall>z \<in> set zones. one_each (zst_Conditions (z_Status z))" "\<forall>e \<in> set records. one_each (rst_Conditions (rec_Status e))"
    and between: "hd (states v) = hd (states w')"
    and second: "list_zones (Client r) v = (Inr zones', v1)"
      "list_records (Client r) v1 = (Inr (stored_records (env_Conditions env) (rn_outcomes rn) records), v2)"
      "get_configmap (Client r) (CoreDNSNamespace r) (CoreDNSConfigMap r) v2 = (Inr cm', v3)"
      "stored_zones (env_Conditions env) (rn_results rn) (HasReloadPlugin patched) zones zones'"
      "Reconcile r env' v = (res, v')"
  shows "v' = deployment_read r v3 \<or> v' = deployment_read r (deployment_read r v3)"
proof -
  have ords: "is_order (env_Directives env)" "is_order (env_Answers env)" "is_order (env_Items env)"
    using env(1) by (simp_all add: env_ok_def)
  have ords': "is_order (env_Directives env')" "is_order (env_Answers env')" using env(2) by (simp_all add: env_ok_def)
  have coh: "coherent (CoreDNSConfigMap r) (hd (states w))" using st by (simp add: stable_def)
  note q = lawful_storeD(2,8,9) [OF law]
  have s2: "states w2 = states w" using quietD [OF q(2) first(1)] quietD [OF q(3) first(2)] by simp
  have cm: "cm = fst (hd (states w))" using readsD [OF q(1) first(3)] s2 by simp
  from Reconcile_ok [OF law ords coh first(5)]
  have settled: "settled (CoreDNSConfigMap r) (hd (states w')) patched (rn_zoneFiles rn)"
    unfolding rn_def using first(1-4) patched [unfolded rn_def] by auto
  have v3: "states v3 = states v"
    using quietD [OF q(2) second(1)] quietD [OF q(3) second(2)] readsD [OF q(1) second(3)] by simp
  have cm': "cm' = fst (hd (states v3))"
    using readsD [OF q(1) second(3)] by simp
  have settled': "settled (CoreDNSConfigMap r) (hd (states v3)) patched (rn_zoneFiles rn)"
    using settled v3 between by simp
  then have cf: "corefile_of cm' = patched" by (simp add: settled_def cm')
  have "patched \<noteq> []" using patched by (auto simp: PatchCorefile_def Let_def split: sum.splits)
  then have run: "publish r env' zones' (stored_records (env_Conditions env) (rn_outcomes rn) records) (fst (hd (states v3))) patched v3 = (res, v')"
    using second(5) unfolding Reconcile_def second(1-3) prod.case sum.case Let_def cf by (simp add: cm')
  have fit: "block_fit (corefile_of cm)" using st by (simp add: stable_def cm)
  have "directive_ok (env_Answers env) d (directive_zone d) \<and> end_free (env_Answers env) d"
    if d: "d \<in> set (rn_directives rn)" for d
    using directive_fit [OF ords(2) renderZones_ok [of "previous_of cm" env records zones, folded rn_def] d
        rendered_records [OF d [unfolded rn_def] claimed_clean [OF spec clean first(1,2,4)]]] by blast
  note fits = this
  show ?thesis
    by (rule publish_again [where env = env and cm = cm and records = records and zones = zones, folded rn_def,
        OF law env(3-6) ords(1,2) ords' tie fit fits patched settled' keys ones second(4) run])
qed

end
