(* ===== verification/Controller_Served.thy ===== *)
theory Controller_Served
  imports Controller_Run Coredns_Held
begin

text \<open>
  From a delegated record to the lines that CoreDNS reads: what a record is told at the end of
  the loop over the zones, which compiled records survive deduplication, and what the stored
  zone file then says of them.
\<close>

section \<open>What a record is told at the end of the loop\<close>

lemma distinct_candidates: "distinct (map key_of records) \<Longrightarrow> distinct (map key_of (candidates zone records))"
  by (simp add: candidates_def distinct_map_filter)

lemma find_candidate:
  assumes "distinct (map key_of records)" and "e \<in> set records" and "zone_of e = z_Name zone"
  shows "find (\<lambda>c. key_of c = key_of e) (candidates zone records) = Some e"
  by (rule find_unique(1) [OF distinct_candidates [OF assms(1)]]) (use assms(2,3) in \<open>simp add: candidates_def\<close>)

text \<open>A zone says nothing about the records of other zones.\<close>

lemma mark_other:
  assumes "distinct (map key_of records)" and "e \<in> set records" and "zone_of e \<noteq> zoneName"
  shows "map_of (markZoneRecordsNotReady outs records zoneName message) (key_of e) = map_of outs (key_of e)"
proof -
  have "key_of e \<notin> key_of ` set (filter (\<lambda>c. zone_of c = zoneName) records)"
    using assms by (auto simp: distinct_map dest: inj_onD)
  then show ?thesis by (simp add: markZoneRecordsNotReady_get)
qed

lemma recordsForZone_other:
  assumes "recordsForZone zone n records outs = ((compiled, excluded, errs), outs')"
    and "distinct (map key_of records)" and "e \<in> set records" and "zone_of e \<noteq> z_Name zone"
  shows "map_of outs' (key_of e) = map_of outs (key_of e)"
proof -
  have "c \<notin> set (candidates zone records)" if "key_of c = key_of e" for c
    using assms(2-4) that by (auto simp: candidates_def distinct_map dest: inj_onD)
  then have "find (\<lambda>c. key_of c = key_of e) (candidates zone records) = None" by (auto simp: find_None_iff)
  then show ?thesis by (simp add: recordsForZone_outcomes [OF assms(1) distinct_candidates [OF assms(2)]])
qed

lemma render_step_other:
  assumes "distinct (map key_of records)" and "e \<in> set records" and "z_deleting zone \<or> zone_of e \<noteq> z_Name zone"
  shows "map_of (rn_outcomes (render_step env records po rn zone)) (key_of e) = map_of (rn_outcomes rn) (key_of e)"
proof (cases "z_deleting zone")
  case True
  then show ?thesis by (simp add: render_step_def)
next
  case live: False
  note mark = mark_other [OF assms(1,2), of "z_Name zone"]
  have z: "zone_of e \<noteq> z_Name zone" using assms(3) live by simp
  show ?thesis
  proof (cases "NormalizeZone (zs_Zone (z_Spec zone))")
    case (Inl err)
    then show ?thesis using live mark [OF z] by (simp add: render_step_def)
  next
    case (Inr n)
    obtain compiled excluded errs outs where r: "recordsForZone zone n records (rn_outcomes rn) = ((compiled, excluded, errs), outs)"
      by (metis prod.exhaust)
    note other = recordsForZone_other [OF r assms(1,2) z]
    have held: "map_of (rn_outcomes (failAndHold records po zone n reason err outs rn)) (key_of e) = map_of (rn_outcomes rn) (key_of e)"
      for reason err using mark [OF z] other by (simp add: failAndHold_def case_prod_beta)
    show ?thesis using live Inr r other held by (simp add: render_step_def Let_def split: sum.split)
  qed
qed

lemma render_loop_other:
  assumes "distinct (map key_of records)" and "e \<in> set records" and "\<forall>z \<in> set (live zones). zone_of e \<noteq> z_Name z"
  shows "map_of (rn_outcomes (foldl (render_step env records po) rn zones)) (key_of e) = map_of (rn_outcomes rn) (key_of e)"
  using assms(3)
proof (induction zones arbitrary: rn)
  case (Cons z zs)
  then have "z_deleting z \<or> zone_of e \<noteq> z_Name z" by auto
  then show ?case using Cons.IH Cons.prems render_step_other [OF assms(1,2)] by (simp split: if_splits)
qed simp

text \<open>A zone that was rendered, and what its records are told.\<close>

lemma rendered_outcome:
  assumes names: "distinct (map z_Name (live zones))" and zone: "zone \<in> set (live zones)"
    and n: "NormalizeZone (zs_Zone (z_Spec zone)) = Inr n"
    and r: "fst (recordsForZone zone n records []) = (compiled, excluded, [])"
    and zf: "RenderZone (env_Records env) zone compiled (env_Now env (z_Name zone))
        \<lparr>pr_Serial = zst_Serial (z_Status zone), pr_Hash = zst_LastAppliedHash (z_Status zone)\<rparr> = Inr zf"
    and keys: "distinct (map key_of records)" and e: "e \<in> set records" "zone_of e = z_Name zone"
  shows "map_of (rn_outcomes (renderZones env records po zones)) (key_of e) = Some (verdict zone n records e)"
proof -
  have "zone \<in> set zones" using zone by simp
  then obtain pre post where split: "zones = pre @ zone # post" by (auto dest: split_list)
  have alive: "\<not> z_deleting zone" using zone by simp
  have "distinct (map z_Name (live pre @ zone # live post))" using names alive by (simp add: split)
  then have other: "\<forall>z \<in> set (live post). zone_of e \<noteq> z_Name z" by (auto simp: e(2))
  let ?rn = "foldl (render_step env records po)
       \<lparr>rn_zoneFiles = [], rn_directives = [], rn_results = [], rn_outcomes = newRecordOutcomes records\<rparr> pre"
  obtain c x errs outs where r0: "recordsForZone zone n records (rn_outcomes ?rn) = ((c, x, errs), outs)"
    by (metis prod.exhaust)
  have "(c, x, errs) = (compiled, excluded, [])"
    using recordsForZone_admitted_only [OF refl, of zone n records "[]" "rn_outcomes ?rn"] r r0 by simp
  with r0 have r': "recordsForZone zone n records (rn_outcomes ?rn) = ((compiled, excluded, []), outs)" by simp
  have "rn_outcomes (render_step env records po ?rn zone) = outs"
    using zone n r' zf by (simp add: render_step_def Let_def)
  moreover have "map_of outs (key_of e) = Some (verdict zone n records e)"
    using recordsForZone_outcomes [OF r' distinct_candidates [OF keys]] find_candidate [OF keys e] by simp
  ultimately show ?thesis
    unfolding renderZones_def split using render_loop_other [OF keys e(1) other] by simp
qed

section \<open>Which records survive deduplication\<close>

text \<open>The API keeps object names free of bars, and then the deduplication key of a delegated record is
  its own.\<close>

definition bar_free :: "string \<Rightarrow> bool" where
  "bar_free s \<longleftrightarrow> CHR ''|'' \<notin> set s"

definition plain_names :: "PrivateDNSZone \<Rightarrow> PrivateDNSRecord list \<Rightarrow> bool" where
  "plain_names zone records \<longleftrightarrow> bar_free (z_Name zone) \<and> list_all (\<lambda>e. bar_free (rec_Namespace e) \<and> bar_free (rec_Name e)) records"

lemma valid_type_bar_free:
  assumes "ValidateRecord r = []"
  shows "bar_free (r_Type r)"
proof -
  obtain v where "validateValue (r_Type r) v = None" using assms by (cases "r_Values r") (auto simp: ValidateRecord_Nil)
  then show ?thesis by (auto simp: validateValue_def Let_def bar_free_def split: if_splits)
qed

lemma dedup_key_fields:
  assumes "\<forall>r \<in> {a, b}. bar_free (r_FQDN r) \<and> bar_free (r_Type r) \<and> bar_free (src_Kind (r_Source r))
      \<and> bar_free (src_Namespace (r_Source r)) \<and> bar_free (src_Name (r_Source r))"
    and "dedup_key a = dedup_key b"
  shows "r_Source a = r_Source b"
proof -
  have num: "CHR ''|'' \<notin> set (dec_int i)" for i using dec_int_bytes [of "CHR ''|''" i] by (auto simp: is_digit_def)
  let ?f = "\<lambda>r. [r_FQDN r, r_Type r, dec_int (sint (r_TTL r)), src_Kind (r_Source r), src_Namespace (r_Source r), src_Name (r_Source r)]"
  have "split_on CHR ''|'' (join ''|'' (?f r)) = ?f r" if "r \<in> {a, b}" for r
    by (rule split_join) (use assms(1) that num in \<open>auto simp: bar_free_def\<close>)
  then have "?f a = ?f b" using assms(2) unfolding dedup_key_def by (metis insertCI)
  then show ?thesis by simp
qed

lemma compiled_bar_free:
  assumes "r \<in> set (admitted_records zone n records)" and "plain_names zone records"
  shows "bar_free (r_FQDN r) \<and> bar_free (r_Type r) \<and> bar_free (src_Kind (r_Source r))
      \<and> bar_free (src_Namespace (r_Source r)) \<and> bar_free (src_Name (r_Source r))"
proof -
  have "bar_free (r_FQDN r)"
    using canonical_bytes [OF admitted_valid(2) [OF assms(1)], of "CHR ''|''"] by (auto simp: bar_free_def ldh_def label_rune_ok_def)
  moreover have "bar_free (r_Type r)" by (rule valid_type_bar_free [OF admitted_valid(1) [OF assms(1)]])
  moreover from assms(1) have "bar_free (src_Kind (r_Source r)) \<and> bar_free (src_Namespace (r_Source r)) \<and> bar_free (src_Name (r_Source r))"
  proof (cases rule: admitted_cases)
    case (1 i)
    then show ?thesis using assms(2) by (auto simp: compileInline_def Let_def plain_names_def bar_free_def split: sum.splits if_splits)
  next
    case (2 e)
    then show ?thesis using assms(2)
      by (auto simp: compileExternal_def Let_def plain_names_def list_all_iff bar_free_def split: sum.splits if_splits)
  qed
  ultimately show ?thesis by blast
qed

lemma delegated_survives:
  assumes c: "recordsForZone zone n records outs = ((compiled, excluded, errs), outs')"
    and plain: "plain_names zone records" and keys: "distinct (map key_of records)" and ord: "is_order ord"
    and e: "e \<in> set records" "compileExternal zone n (zone_ttl zone) e = Inr r" and r: "r \<in> set compiled"
  shows "normalised_values r \<in> set (DeduplicateAndSort ord compiled)"
proof -
  note A = compiled_valid(2) [OF c]
  have only: "q = r" if q: "q \<in> set compiled" "dedup_key q = dedup_key r" for q
  proof -
    have src: "r_Source q = r_Source r" by (rule dedup_key_fields [OF _ q(2)]) (use compiled_bar_free [OF A plain] q(1) r in auto)
    from A [OF q(1)] show ?thesis
    proof (cases rule: admitted_cases)
      case (1 i)
      then show ?thesis using compileInline_Inr(3) [OF 1(2)] compileExternal_Inr(3) [OF e(2)] src by simp
    next
      case (2 d)
      have "key_of d = key_of e" using compileExternal_Inr(5) [OF 2(3)] compileExternal_Inr(5) [OF e(2)] src by simp
      then have "d = e" using keys 2(1) e(1) by (auto simp: distinct_map dest: inj_onD)
      then show ?thesis using 2(3) e(2) by simp
    qed
  qed
  obtain q where q: "find (\<lambda>q. dedup_key q = dedup_key r) (rev compiled) = Some q"
    using r by (cases "find (\<lambda>q. dedup_key q = dedup_key r) (rev compiled)") (auto simp: find_None_iff)
  then have "q \<in> set compiled" "dedup_key q = dedup_key r" using find_SomeD [OF q] by simp_all
  then have "winner compiled r" using q only by simp
  then show ?thesis by (simp add: set_DeduplicateAndSort [OF ord])
qed

section \<open>What a zone file says\<close>

abbreviation accepted :: "outcomes \<Rightarrow> PrivateDNSRecord \<Rightarrow> bool" where
  "accepted outs e \<equiv> (case map_of outs (key_of e) of None \<Rightarrow> False | Some outcome \<Rightarrow> ro_accepted outcome)"

text \<open>The specification of a zone file: after the header it has a line for each value of each delegated
  record that was told it is accepted, up to case and surrounding space, and each of its lines
  is a value of an inline record of the zone or of such a delegated record.\<close>

definition zone_file_serves :: "PrivateDNSZone \<Rightarrow> string \<Rightarrow> PrivateDNSRecord list \<Rightarrow> outcomes \<Rightarrow> string \<Rightarrow> bool" where
  "zone_file_serves zone n records outs content \<longleftrightarrow>
     (\<exists>serial answers. split_on nl content = soa_lines n (zone_ttl zone) serial @ answers @ [[]]
        \<and> (\<forall>e \<in> set records. zone_of e = z_Name zone \<and> accepted outs e \<longrightarrow>
             (\<exists>r. compileExternal zone n (zone_ttl zone) e = Inr r
                \<and> (\<forall>v \<in> set (rs_Values (rec_Spec e)). \<exists>u. to_lower u = to_lower (trim_space v) \<and> value_line n r u \<in> set answers)))
        \<and> (\<forall>l \<in> set answers. \<exists>r v. v \<in> set (r_Values r) \<and> l = value_line n r (trim_space v)
             \<and> ((\<exists>i \<in> set (zs_Records (z_Spec zone)). compileInline zone n (zone_ttl zone) i = Inr r)
                \<or> (\<exists>e \<in> set records. zone_of e = z_Name zone \<and> accepted outs e
                     \<and> compileExternal zone n (zone_ttl zone) e = Inr r))))"

lemma value_line_normalised [simp]: "value_line n (normalised_values r) v = value_line n r v"
  by (simp add: value_line_def)

lemma compileExternal_values: "compileExternal zone n ttl e = Inr r \<Longrightarrow> r_Values r = rs_Values (rec_Spec e)"
  by (auto simp: compileExternal_def Let_def split: sum.splits if_splits)

lemma answer_lines:
  "l \<in> set (concat (map (\<lambda>r. map (value_line n r) (sort (r_Values r))) rs)) \<longleftrightarrow> (\<exists>r \<in> set rs. \<exists>v \<in> set (r_Values r). l = value_line n r v)"
  by auto

text \<open>The accepted records of a rendered zone are those that were compiled, and all that was compiled is
  from an inline record or from an accepted record.\<close>

lemma rendered_sources:
  assumes names: "distinct (map z_Name (live zones))" and zone: "zone \<in> set (live zones)"
    and n: "NormalizeZone (zs_Zone (z_Spec zone)) = Inr n"
    and r: "fst (recordsForZone zone n records []) = (compiled, excluded, [])"
    and zf: "RenderZone (env_Records env) zone compiled (env_Now env (z_Name zone))
        \<lparr>pr_Serial = zst_Serial (z_Status zone), pr_Hash = zst_LastAppliedHash (z_Status zone)\<rparr> = Inr zf"
    and keys: "distinct (map key_of records)"
  shows "e \<in> set records \<Longrightarrow> zone_of e = z_Name zone \<Longrightarrow> accepted (rn_outcomes (renderZones env records po zones)) e
      \<longleftrightarrow> (\<exists>q \<in> set compiled. compileExternal zone n (zone_ttl zone) e = Inr q)"
    and "q \<in> set compiled \<Longrightarrow> (\<exists>i \<in> set (zs_Records (z_Spec zone)). compileInline zone n (zone_ttl zone) i = Inr q)
      \<or> (\<exists>e \<in> set records. zone_of e = z_Name zone \<and> accepted (rn_outcomes (renderZones env records po zones)) e
           \<and> compileExternal zone n (zone_ttl zone) e = Inr q)"
proof -
  obtain outs where r': "recordsForZone zone n records [] = ((compiled, excluded, []), outs)" using r by (metis prod.collapse)
  show told: "accepted (rn_outcomes (renderZones env records po zones)) e
      \<longleftrightarrow> (\<exists>q \<in> set compiled. compileExternal zone n (zone_ttl zone) e = Inr q)"
    if "e \<in> set records" "zone_of e = z_Name zone" for e
  proof -
    have "e \<in> set (candidates zone records)" using that by (simp add: candidates_def)
    then show ?thesis using rendered_outcome [OF names zone n r zf keys that] verdict_accepted [OF r'] by simp
  qed
  assume q: "q \<in> set compiled"
  from compiled_valid(2) [OF r' q]
  show "(\<exists>i \<in> set (zs_Records (z_Spec zone)). compileInline zone n (zone_ttl zone) i = Inr q)
      \<or> (\<exists>e \<in> set records. zone_of e = z_Name zone \<and> accepted (rn_outcomes (renderZones env records po zones)) e
           \<and> compileExternal zone n (zone_ttl zone) e = Inr q)"
    by (cases rule: admitted_cases) (use q told in blast)+
qed

lemma rendered_file_serves:
  assumes names: "distinct (map z_Name (live zones))" and zone: "zone \<in> set (live zones)"
    and n: "NormalizeZone (zs_Zone (z_Spec zone)) = Inr n"
    and r: "fst (recordsForZone zone n records []) = (compiled, excluded, [])"
    and zf: "RenderZone (env_Records env) zone compiled (env_Now env (z_Name zone))
        \<lparr>pr_Serial = zst_Serial (z_Status zone), pr_Hash = zst_LastAppliedHash (z_Status zone)\<rparr> = Inr zf"
    and keys: "distinct (map key_of records)" and plain: "plain_names zone records"
    and ord: "is_order (env_Records env)" and serial: "nl \<notin> set (zst_Serial (z_Status zone))"
  shows "zone_file_serves zone n records (rn_outcomes (renderZones env records po zones)) (zf_Content zf)"
proof -
  let ?outs = "rn_outcomes (renderZones env records po zones)" and ?D = "DeduplicateAndSort (env_Records env) compiled"
  let ?answers = "concat (map (\<lambda>r. map (value_line n r) (sort (r_Values r))) ?D)"
  obtain outs where r': "recordsForZone zone n records [] = ((compiled, excluded, []), outs)" using r by (metis prod.collapse)
  note told = rendered_sources(1) [OF names zone n r zf keys, of _ po]
  note A = compiled_valid(2) [OF r']
  have valid: "ValidateRecord q = [] \<and> canonical (r_FQDN q)" if "q \<in> set ?D" for q
  proof -
    obtain q0 where "q0 \<in> set compiled" "q = normalised_values q0" using DeduplicateAndSort_from [OF ord \<open>q \<in> set ?D\<close>] by blast
    then show ?thesis using admitted_valid(1,2) [OF A] ValidateRecord_normalised by simp
  qed
  have "canonical n" using n by (rule NormalizeZone_canonical)
  moreover have ser: "nl \<notin> set (zf_Serial zf)"
  proof -
    have "is_digit nl = False" by (simp add: is_digit_def)
    then show ?thesis using zf n serial nextSerial_digits [of nl "zst_Serial (z_Status zone)" "env_Now env (z_Name zone)"]
      by (auto simp: RenderZone_Inr_iff carried_serial_def split: if_splits)
  qed
  moreover have "zf_Content zf = zone_text n (zone_ttl zone) (zf_Serial zf) ?D" using zf n by (auto simp: RenderZone_Inr_iff)
  ultimately have lines: "split_on nl (zf_Content zf) = soa_lines n (zone_ttl zone) (zf_Serial zf) @ ?answers @ [[]]"
    using zone_lines_split [of n "zf_Serial zf" ?D] valid by (simp add: zone_lines_def)
  have served: "\<exists>q. compileExternal zone n (zone_ttl zone) e = Inr q
      \<and> (\<forall>v \<in> set (rs_Values (rec_Spec e)). \<exists>u. to_lower u = to_lower (trim_space v) \<and> value_line n q u \<in> set ?answers)"
    if e: "e \<in> set records" "zone_of e = z_Name zone" "accepted ?outs e" for e
  proof -
    obtain q where q: "q \<in> set compiled" "compileExternal zone n (zone_ttl zone) e = Inr q" using told [OF e(1,2)] e(3) by blast
    have mem: "normalised_values q \<in> set ?D" by (rule delegated_survives [OF r' plain keys ord e(1) q(2,1)])
    have "\<exists>u. to_lower u = to_lower (trim_space v) \<and> value_line n q u \<in> set ?answers" if v: "v \<in> set (rs_Values (rec_Spec e))" for v
    proof -
      have "v \<in> set (r_Values q)" using v compileExternal_values [OF q(2)] by simp
      from dns_values.uniq_covers [OF this] obtain u where u: "u \<in> set (uniqueSorted (r_Values q))" "to_lower u = to_lower (trim_space v)"
        by blast
      have "value_line n q u \<in> set ?answers"
        unfolding answer_lines by (rule bexI [OF _ mem], rule bexI [where x = u]) (use u(1) in simp_all)
      then show ?thesis using u(2) by blast
    qed
    then show ?thesis using q(2) by blast
  qed
  have sound: "\<exists>q v. v \<in> set (r_Values q) \<and> l = value_line n q (trim_space v)
      \<and> ((\<exists>i \<in> set (zs_Records (z_Spec zone)). compileInline zone n (zone_ttl zone) i = Inr q)
         \<or> (\<exists>e \<in> set records. zone_of e = z_Name zone \<and> accepted ?outs e \<and> compileExternal zone n (zone_ttl zone) e = Inr q))"
    if l: "l \<in> set ?answers" for l
  proof -
    obtain d u where d: "d \<in> set ?D" "u \<in> set (r_Values d)" "l = value_line n d u" using l unfolding answer_lines by blast
    obtain q where q: "q \<in> set compiled" "d = normalised_values q" using DeduplicateAndSort_from [OF ord d(1)] by blast
    have "u \<in> set (uniqueSorted (r_Values q))" using d(2) q(2) by simp
    from dns_values.uniq_from [OF this] obtain v where v: "v \<in> set (r_Values q)" "u = trim_space v" by blast
    have "l = value_line n q (trim_space v)" using d(3) q(2) v(2) by simp
    then show ?thesis using v(1) rendered_sources(2) [OF names zone n r zf keys q(1)] by blast
  qed
  show ?thesis
    unfolding zone_file_serves_def using lines served sound by (intro exI [of _ "zf_Serial zf"] exI [of _ ?answers]) blast
qed

section \<open>What a template stanza says\<close>

text \<open>The specification of the stanza of a forwarding zone: among its RRsets is one for each delegated
  record that was told it is accepted, of its name and type, with its values up to case and
  surrounding space and a TTL that is not greater; and each value of each RRset is one of an
  inline record of the zone or of such a delegated record, of the name and type of the RRset.\<close>

definition stanza_serves :: "PrivateDNSZone \<Rightarrow> string \<Rightarrow> PrivateDNSRecord list \<Rightarrow> outcomes \<Rightarrow> string \<Rightarrow> bool" where
  "stanza_serves zone n records outs corefile \<longleftrightarrow>
     (\<exists>before sets after.
        corefile = before @ [nl, nl] @ trim_suffix n ''.'' @ '':53 {'' @ [nl] @ ''    errors'' @ [nl]
          @ concat (map template_stanza sets)
          @ ''    forward . /etc/resolv.conf'' @ [nl] @ ''    cache 30'' @ [nl] @ ''}'' @ after
        \<and> (\<forall>e \<in> set records. zone_of e = z_Name zone \<and> accepted outs e \<longrightarrow>
             (\<exists>r. compileExternal zone n (zone_ttl zone) e = Inr r
                \<and> (\<exists>s \<in> set sets. rr_FQDN s = r_FQDN r \<and> rr_Type s = r_Type r \<and> sint (rr_TTL s) \<le> sint (r_TTL r)
                     \<and> (\<forall>v \<in> set (rs_Values (rec_Spec e)). \<exists>u \<in> set (rr_Values s). to_lower u = to_lower (trim_space v)))))
        \<and> (\<forall>s \<in> set sets. \<forall>u \<in> set (rr_Values s). \<exists>r v. v \<in> set (r_Values r) \<and> u = trim_space v
             \<and> rr_FQDN s = r_FQDN r \<and> rr_Type s = r_Type r
             \<and> ((\<exists>i \<in> set (zs_Records (z_Spec zone)). compileInline zone n (zone_ttl zone) i = Inr r)
                \<or> (\<exists>e \<in> set records. zone_of e = z_Name zone \<and> accepted outs e
                     \<and> compileExternal zone n (zone_ttl zone) e = Inr r))))"

lemma canonical_dotted: "canonical d \<Longrightarrow> cd_ensureTrailingDot (trim_space d) = d"
proof -
  assume d: "canonical d"
  have "trim_space d = d" by (rule trim_space_all_graphic) (use canonical_graphic [OF d] in blast)
  moreover have "suffix ''.'' d" using d by (auto simp: canonical_iff)
  ultimately show ?thesis by (simp add: cd_ensureTrailingDot_def)
qed

lemma rrset_key_fields:
  assumes "rrset_key q = rrset_key r" and "canonical (r_FQDN q)" and "canonical (r_FQDN r)"
    and "bar_free (r_Type q)" and "bar_free (r_Type r)"
  shows "r_FQDN q = r_FQDN r \<and> r_Type q = r_Type r"
proof -
  have k: "r_FQDN q @ CHR ''|'' # r_Type q = r_FQDN r @ CHR ''|'' # r_Type r"
    using assms(1) by (simp add: rrset_key_def canonical_dotted assms(2,3))
  then have "r_Type q = r_Type r" by (rule last_field) (use assms(4,5) in \<open>simp_all add: bar_free_def\<close>)
  then show ?thesis using k by simp
qed

text \<open>The RRset of a record, and the records of an RRset.\<close>

lemma template_set:
  assumes rs: "\<forall>r \<in> set rs. canonical (r_FQDN r) \<and> bar_free (r_Type r)"
  shows "r \<in> set rs \<Longrightarrow> \<exists>s \<in> set (groupTemplateRecords rs). rr_FQDN s = r_FQDN r \<and> rr_Type s = r_Type r
      \<and> sint (rr_TTL s) \<le> sint (r_TTL r)
      \<and> (\<forall>v \<in> set (r_Values r). \<exists>u \<in> set (rr_Values s). to_lower u = to_lower (trim_space v))"
    and "s \<in> set (groupTemplateRecords rs) \<Longrightarrow> u \<in> set (rr_Values s) \<Longrightarrow>
      \<exists>r \<in> set rs. \<exists>v \<in> set (r_Values r). u = trim_space v \<and> rr_FQDN s = r_FQDN r \<and> rr_Type s = r_Type r"
proof -
  let ?g = "\<lambda>k. filter (\<lambda>r. rrset_key r = k) rs"
  let ?set = "\<lambda>k. (rrset_of (?g k))\<lparr>rr_Values := uniqueSortedValues (concat (map r_Values (?g k)))\<rparr>"
  have G: "set (groupTemplateRecords rs) = ?set ` rrset_key ` set rs"
    unfolding groupTemplateRecords_spec by (simp add: Let_def rrset_of_def)
  have fields: "rr_FQDN (?set k) = r_FQDN r \<and> rr_Type (?set k) = r_Type r" if r: "r \<in> set (?g k)" for r k
  proof -
    have "hd (?g k) \<in> set (?g k)" using r by (cases "?g k") auto
    then have h: "hd (?g k) \<in> set rs" "rrset_key (hd (?g k)) = rrset_key r" using r by auto
    have "r_FQDN (hd (?g k)) = r_FQDN r \<and> r_Type (hd (?g k)) = r_Type r"
      by (rule rrset_key_fields [OF h(2)]) (use rs h(1) r in auto)
    moreover have "canonical (r_FQDN r)" using rs r by simp
    ultimately show ?thesis by (simp add: rrset_of_def canonical_dotted)
  qed
  show "\<exists>s \<in> set (groupTemplateRecords rs). rr_FQDN s = r_FQDN r \<and> rr_Type s = r_Type r \<and> sint (rr_TTL s) \<le> sint (r_TTL r)
      \<and> (\<forall>v \<in> set (r_Values r). \<exists>u \<in> set (rr_Values s). to_lower u = to_lower (trim_space v))" if r: "r \<in> set rs"
  proof (rule bexI [where x = "?set (rrset_key r)"], intro conjI ballI)
    have mem: "r \<in> set (?g (rrset_key r))" using r by simp
    show "rr_FQDN (?set (rrset_key r)) = r_FQDN r" "rr_Type (?set (rrset_key r)) = r_Type r" using fields [OF mem] by simp_all
    have "?g (rrset_key r) \<noteq> []" using mem by (metis empty_iff list.set(1))
    then show "sint (rr_TTL (?set (rrset_key r))) \<le> sint (r_TTL r)" using rrset_of_ttl mem by simp
    show "\<exists>u \<in> set (rr_Values (?set (rrset_key r))). to_lower u = to_lower (trim_space v)" if "v \<in> set (r_Values r)" for v
    proof -
      have "v \<in> set (concat (map r_Values (?g (rrset_key r))))" using that mem by auto
      from template_values.uniq_covers [OF this] show ?thesis by simp
    qed
    show "?set (rrset_key r) \<in> set (groupTemplateRecords rs)" using r unfolding G by blast
  qed
  show "\<exists>r \<in> set rs. \<exists>v \<in> set (r_Values r). u = trim_space v \<and> rr_FQDN s = r_FQDN r \<and> rr_Type s = r_Type r"
    if s: "s \<in> set (groupTemplateRecords rs)" and u: "u \<in> set (rr_Values s)"
  proof -
    obtain k where k: "s = ?set k" using s unfolding G by blast
    then have "u \<in> set (uniqueSortedValues (concat (map r_Values (?g k))))" using u by simp
    from template_values.uniq_from [OF this] obtain v r where r: "r \<in> set (?g k)" "v \<in> set (r_Values r)" "u = trim_space v"
      by auto
    then show ?thesis using fields [OF r(1)] k by auto
  qed
qed

lemma rendered_stanza_serves:
  assumes names: "distinct (map z_Name (live zones))" and zone: "zone \<in> set (live zones)"
    and n: "NormalizeZone (zs_Zone (z_Spec zone)) = Inr n"
    and r: "fst (recordsForZone zone n records []) = (compiled, excluded, [])"
    and zf: "RenderZone (env_Records env) zone compiled (env_Now env (z_Name zone))
        \<lparr>pr_Serial = zst_Serial (z_Status zone), pr_Hash = zst_LastAppliedHash (z_Status zone)\<rparr> = Inr zf"
    and keys: "distinct (map key_of records)" and plain: "plain_names zone records"
    and ord: "is_order ord" and corefile: "sublist (directive_text ord d) corefile"
    and d: "zd_Zone d = n" "zd_Policy d = UnresolvedRecordPolicyForward" "zd_Records d = compiled" "zd_Raw d = []"
  shows "stanza_serves zone n records (rn_outcomes (renderZones env records po zones)) corefile"
proof -
  let ?outs = "rn_outcomes (renderZones env records po zones)" and ?D = "DeduplicateAndSort ord compiled"
  let ?sets = "groupTemplateRecords ?D"
  obtain outs where r': "recordsForZone zone n records [] = ((compiled, excluded, []), outs)" using r by (metis prod.collapse)
  have D: "\<forall>q \<in> set ?D. canonical (r_FQDN q) \<and> bar_free (r_Type q)"
  proof
    fix q assume "q \<in> set ?D"
    then obtain q0 where "q0 \<in> set compiled" "q = normalised_values q0" using DeduplicateAndSort_from [OF ord] by blast
    then show "canonical (r_FQDN q) \<and> bar_free (r_Type q)"
      using admitted_valid(1,2) [OF compiled_valid(2) [OF r']] valid_type_bar_free by simp
  qed
  obtain pre post where "corefile = pre @ directive_text ord d @ post" using corefile by (auto simp: sublist_def)
  then have stanza: "corefile = pre @ [nl, nl] @ trim_suffix n ''.'' @ '':53 {'' @ [nl] @ ''    errors'' @ [nl]
      @ concat (map template_stanza ?sets)
      @ ''    forward . /etc/resolv.conf'' @ [nl] @ ''    cache 30'' @ [nl] @ ''}'' @ post"
    by (simp add: directive_text_def Let_def d renderTemplateRecords_def)
  have served: "\<exists>q. compileExternal zone n (zone_ttl zone) e = Inr q
      \<and> (\<exists>s \<in> set ?sets. rr_FQDN s = r_FQDN q \<and> rr_Type s = r_Type q \<and> sint (rr_TTL s) \<le> sint (r_TTL q)
           \<and> (\<forall>v \<in> set (rs_Values (rec_Spec e)). \<exists>u \<in> set (rr_Values s). to_lower u = to_lower (trim_space v)))"
    if e: "e \<in> set records" "zone_of e = z_Name zone" "accepted ?outs e" for e
  proof -
    obtain q where q: "q \<in> set compiled" "compileExternal zone n (zone_ttl zone) e = Inr q"
      using rendered_sources(1) [OF names zone n r zf keys e(1,2)] e(3) by blast
    have "normalised_values q \<in> set ?D" by (rule delegated_survives [OF r' plain keys ord e(1) q(2,1)])
    from template_set(1) [OF D this] obtain s where s: "s \<in> set ?sets" "rr_FQDN s = r_FQDN q" "rr_Type s = r_Type q"
        "sint (rr_TTL s) \<le> sint (r_TTL q)"
        "\<forall>v \<in> set (uniqueSorted (r_Values q)). \<exists>u \<in> set (rr_Values s). to_lower u = to_lower (trim_space v)" by auto
    have "\<exists>u \<in> set (rr_Values s). to_lower u = to_lower (trim_space v)" if "v \<in> set (rs_Values (rec_Spec e))" for v
    proof -
      have "v \<in> set (r_Values q)" using that compileExternal_values [OF q(2)] by simp
      from dns_values.uniq_covers [OF this] obtain w where "w \<in> set (uniqueSorted (r_Values q))" "to_lower w = to_lower (trim_space v)"
        by blast
      then show ?thesis using s(5) dns_values.uniq_trimmed by metis
    qed
    then show ?thesis using q(2) s(1-4) by blast
  qed
  have sound: "\<exists>q v. v \<in> set (r_Values q) \<and> u = trim_space v \<and> rr_FQDN s = r_FQDN q \<and> rr_Type s = r_Type q
      \<and> ((\<exists>i \<in> set (zs_Records (z_Spec zone)). compileInline zone n (zone_ttl zone) i = Inr q)
         \<or> (\<exists>e \<in> set records. zone_of e = z_Name zone \<and> accepted ?outs e \<and> compileExternal zone n (zone_ttl zone) e = Inr q))"
    if s: "s \<in> set ?sets" "u \<in> set (rr_Values s)" for s u
  proof -
    obtain p w where p: "p \<in> set ?D" "w \<in> set (r_Values p)" "u = trim_space w" "rr_FQDN s = r_FQDN p" "rr_Type s = r_Type p"
      using template_set(2) [OF D s] by blast
    obtain q where q: "q \<in> set compiled" "p = normalised_values q" using DeduplicateAndSort_from [OF ord p(1)] by blast
    have "w \<in> set (uniqueSorted (r_Values q))" using p(2) q(2) by simp
    from dns_values.uniq_from [OF this] obtain v where v: "v \<in> set (r_Values q)" "w = trim_space v" by blast
    have "u = trim_space v" "rr_FQDN s = r_FQDN q" "rr_Type s = r_Type q" using p q(2) v(2) by simp_all
    then show ?thesis using v(1) rendered_sources(2) [OF names zone n r zf keys q(1)] by blast
  qed
  show ?thesis
    unfolding stanza_serves_def using stanza served sound
    by (intro exI [of _ pre] exI [of _ ?sets] exI [of _ post]) blast
qed

section \<open>What CoreDNS is given\<close>

text \<open>A stored state serves a zone: by the template stanza of the Corefile, or by a stanza that names the
  zone file, which is mounted and stored.\<close>

definition zone_served :: "string \<Rightarrow> coredns_state \<Rightarrow> PrivateDNSZone \<Rightarrow> string \<Rightarrow> PrivateDNSRecord list \<Rightarrow> outcomes \<Rightarrow> bool" where
  "zone_served name s zone n records outs \<longleftrightarrow>
     (if effectivePolicy (zs_UnresolvedRecordPolicy (z_Spec zone)) = UnresolvedRecordPolicyForward then
        stanza_serves zone n records outs (corefile_of (fst s))
      else
        sublist ([nl, nl] @ trim_suffix n ''.'' @ '':53 {'' @ [nl] @ ''    errors'' @ [nl]
          @ ''    file /etc/coredns/'' @ ZoneFileKey n @ '' '' @ trim_suffix n ''.'' @ [nl]) (corefile_of (fst s))
        \<and> (case items_of name (snd s) of None \<Rightarrow> True | Some I \<Rightarrow> ZoneFileKey n \<in> I)
        \<and> (\<exists>content. map_of (cm_Data (fst s)) (ZoneFileKey n) = Some content \<and> zone_file_serves zone n records outs content))"

lemma contribution_rendered:
  assumes "contribution_of env records po zone = (res, ds, fs)" and "res_rendered res"
  obtains n compiled excluded zf where "NormalizeZone (zs_Zone (z_Spec zone)) = Inr n"
    "fst (recordsForZone zone n records []) = (compiled, excluded, [])"
    "RenderZone (env_Records env) zone compiled (env_Now env (z_Name zone))
        \<lparr>pr_Serial = zst_Serial (z_Status zone), pr_Hash = zst_LastAppliedHash (z_Status zone)\<rparr> = Inr zf"
    "zf_Key zf = ZoneFileKey n"
    "ds = [\<lparr>zd_Zone = n, zd_DBFile = zf_Key zf, zd_Policy = effectivePolicy (zs_UnresolvedRecordPolicy (z_Spec zone)),
        zd_Records = compiled, zd_Raw = []\<rparr>]"
    "fs = (if effectivePolicy (zs_UnresolvedRecordPolicy (z_Spec zone)) = UnresolvedRecordPolicyForward then []
        else [(zf_Key zf, zf_Content zf)])"
proof (cases "NormalizeZone (zs_Zone (z_Spec zone))")
  case (Inl err)
  then show ?thesis using assms by (auto simp: contribution_of_def failedResult_def)
next
  case (Inr n)
  obtain compiled excluded errs where r: "fst (recordsForZone zone n records []) = (compiled, excluded, errs)"
    by (metis prod.exhaust)
  note cb = assms(1) [unfolded contribution_of_def Inr r sum.case Let_def prod.case]
  have held: False if "held_contribution po zone n reason err = (res, ds, fs)" for reason err
    using held_contribution_spec [OF that] assms(2) by simp
  have ok: "errs = []" using cb held by (auto split: if_splits)
  show ?thesis
  proof (cases "RenderZone (env_Records env) zone compiled (env_Now env (z_Name zone))
      \<lparr>pr_Serial = zst_Serial (z_Status zone), pr_Hash = zst_LastAppliedHash (z_Status zone)\<rparr>")
    case (Inl err)
    then have "held_contribution po zone n reasonZoneRenderFailed err = (res, ds, fs)" using cb ok by simp
    from held [OF this] show ?thesis by simp
  next
    case zf: (Inr zf)
    then have "zf_Key zf = ZoneFileKey n" using Inr by (auto simp: RenderZone_Inr_iff)
    with that [OF Inr _ zf] r ok cb zf show ?thesis by simp
  qed
qed

lemma sublist_of_append: "sublist (a @ b) c \<Longrightarrow> sublist a c"
  by (auto simp: sublist_def)

lemma directive_in_patched:
  assumes "PatchCorefile ordD ordR cf ds = Inr patched" and "is_order ordD" and "d \<in> set ds"
  shows "sublist (directive_text ordR d) patched"
proof -
  have "d \<in> set (sort_slice ordD zd_Zone ds)" using assms(2,3) by simp
  then obtain xs ys where "sort_slice ordD zd_Zone ds = xs @ d # ys" by (auto dest: split_list)
  then have "patched = (outside_block cf @ [nl, nl] @ ManagedBlockStart @ concat (map (directive_text ordR) xs)) @ directive_text ordR d
      @ concat (map (directive_text ordR) ys) @ [nl] @ ManagedBlockEnd @ [nl]"
    by (simp add: patched_managed_file [OF assms(1)] managed_file_def stanzas_def)
  then show ?thesis unfolding sublist_def by blast
qed

lemma pass_serves:
  assumes names: "distinct (map z_Name (live zones))" and zone: "zone \<in> set (live zones)"
    and res: "map_of (rn_results (renderZones env records po zones)) (z_Name zone) = Some res" "res_rendered res"
    and keys: "distinct (map key_of records)" and plain: "plain_names zone records"
    and ord: "is_order (env_Records env)" "is_order (env_Directives env)" "is_order (env_Answers env)"
    and serial: "nl \<notin> set (zst_Serial (z_Status zone))"
    and own: "\<And>n. NormalizeZone (zs_Zone (z_Spec zone)) = Inr n \<Longrightarrow> own_key (live zones) zone n"
    and patched: "PatchCorefile (env_Directives env) (env_Answers env) cf (rn_directives (renderZones env records po zones)) = Inr patched"
    and settled: "settled name s patched (rn_zoneFiles (renderZones env records po zones))"
  shows "\<exists>n. NormalizeZone (zs_Zone (z_Spec zone)) = Inr n
    \<and> zone_served name s zone n records (rn_outcomes (renderZones env records po zones))"
proof -
  let ?rn = "renderZones env records po zones" and ?policy = "effectivePolicy (zs_UnresolvedRecordPolicy (z_Spec zone))"
  obtain res' ds fs where cb: "contribution_of env records po zone = (res', ds, fs)" by (metis prod.exhaust)
  have "res' = res" using res(1) find_unique(1) [OF names zone] cb by (simp add: renderZones_contributions(3) [OF names])
  then obtain n compiled excluded zf where n: "NormalizeZone (zs_Zone (z_Spec zone)) = Inr n"
    and r: "fst (recordsForZone zone n records []) = (compiled, excluded, [])"
    and zf: "RenderZone (env_Records env) zone compiled (env_Now env (z_Name zone))
        \<lparr>pr_Serial = zst_Serial (z_Status zone), pr_Hash = zst_LastAppliedHash (z_Status zone)\<rparr> = Inr zf"
    and key: "zf_Key zf = ZoneFileKey n"
    and ds: "ds = [\<lparr>zd_Zone = n, zd_DBFile = zf_Key zf, zd_Policy = ?policy, zd_Records = compiled, zd_Raw = []\<rparr>]"
    and fs: "fs = (if ?policy = UnresolvedRecordPolicyForward then [] else [(zf_Key zf, zf_Content zf)])"
    using contribution_rendered [OF cb] res(2) by metis
  let ?d = "\<lparr>zd_Zone = n, zd_DBFile = zf_Key zf, zd_Policy = ?policy, zd_Records = compiled, zd_Raw = []\<rparr>"
  have "?d \<in> set (rn_directives ?rn)" unfolding renderZones_contributions(1) using zone cb ds by fastforce
  from directive_in_patched [OF patched ord(2) this] have stanza: "sublist (directive_text (env_Answers env) ?d) (corefile_of (fst s))"
    using settled by (simp add: settled_def)
  have "zone_served name s zone n records (rn_outcomes ?rn)"
  proof (cases "?policy = UnresolvedRecordPolicyForward")
    case True
    have "stanza_serves zone n records (rn_outcomes ?rn) (corefile_of (fst s))"
      by (rule rendered_stanza_serves [OF names zone n r zf keys plain ord(3) stanza]) (use True in simp_all)
    then show ?thesis using True by (simp add: zone_served_def)
  next
    case False
    have stored_file: "map_of (rn_zoneFiles ?rn) (ZoneFileKey n) = Some (zf_Content zf)"
      by (rule own_file [OF own [OF n] zone]) (use cb fs False key in simp)
    then have "(ZoneFileKey n, zf_Content zf) \<in> set (rn_zoneFiles ?rn)" by (rule map_of_SomeD)
    with settled have "map_of (cm_Data (fst s)) (ZoneFileKey n) = Some (zf_Content zf)"
      "case items_of name (snd s) of None \<Rightarrow> True | Some I \<Rightarrow> ZoneFileKey n \<in> I"
      by (auto simp: settled_def split: option.splits)
    moreover have "zone_file_serves zone n records (rn_outcomes ?rn) (zf_Content zf)"
      by (rule rendered_file_serves [OF names zone n r zf keys plain ord(1) serial])
    moreover have "sublist ([nl, nl] @ trim_suffix n ''.'' @ '':53 {'' @ [nl] @ ''    errors'' @ [nl]
          @ ''    file /etc/coredns/'' @ ZoneFileKey n @ '' '' @ trim_suffix n ''.'' @ [nl]) (corefile_of (fst s))"
    proof -
      have "directive_text (env_Answers env) ?d = ([nl, nl] @ trim_suffix n ''.'' @ '':53 {'' @ [nl] @ ''    errors'' @ [nl]
          @ ''    file /etc/coredns/'' @ ZoneFileKey n @ '' '' @ trim_suffix n ''.'' @ [nl]) @ ''    cache 30'' @ [nl] @ ''}''"
        using False key by (simp add: directive_text_def Let_def)
      then show ?thesis using stanza sublist_of_append by metis
    qed
    ultimately show ?thesis using False by (simp add: zone_served_def)
  qed
  then show ?thesis using n by blast
qed

end
