(* ===== verification/Reconcile_Properties.thy ===== *)
theory Reconcile_Properties
  imports Controller_Failures Controller_Steady Controller_Served Records_Properties
begin

text \<open>
  The properties of whole passes of the reconciler, each followed by an application at a
  concrete input where it has hypotheses. The cluster of these inputs has one zone, one
  record that names it and a CoreDNS that serves nothing yet.
\<close>

section \<open>Concrete inputs\<close>

definition sample_cluster :: "fault list \<Rightarrow> sim" where
  "sample_cluster faults =
     (sample_sim faults)\<lparr>sim_zones := [sample_zone],
       sim_records := [sample_spec ''team-a'' ''web'' ''www'' ''10.0.0.1'']\<rparr>"

definition sample_reliable :: "sim PrivateDNSZoneReconciler" where
  "sample_reliable = sample_reconciler\<lparr>Client := reliable_client\<rparr>"

lemma sample_cluster_states [simp]: "hd (sim_states (sample_cluster faults)) = (sample_configmap, sample_coredns)"
  by (simp add: sample_cluster_def)

lemma sample_env_orders [simp]:
  "is_order (env_Directives sample_env)" "is_order (env_Answers sample_env)" "is_order (env_Items sample_env)"
  by (simp_all add: sample_env_def is_order_rev)

lemma sample_corefile: "corefile_of sample_configmap = ''.:53 { }''"
  by (simp add: sample_configmap_def corefileKey_def get_or_empty_def)

lemma sample_unmarked:
  "outside_block ''.:53 { }'' = ''.:53 { }''" "ExtractZoneBlocks ''.:53 { }'' = []" "markers_ok ''.:53 { }''"
  by code_simp+

lemma sample_coherent: "coherent ''coredns'' (sample_configmap, sample_coredns)"
proof -
  have name: "CoreDNSConfigMap sample_reconciler = ''coredns''" by (simp add: sample_reconciler_def)
  show ?thesis
    using sample_safe unfolding name
    by (simp add: coherent_def block_owned_def sample_corefile sample_unmarked sample_named sample_no_keys)
qed

lemma sample_names [simp]:
  "CoreDNSConfigMap sample_reconciler = ''coredns''" "CoreDNSConfigMap sample_reliable = ''coredns''"
  by (simp_all add: sample_reliable_def sample_reconciler_def)

section \<open>Safety of a pass\<close>

text \<open>C2. Whatever the zones and records are, however the API calls of a pass fail and wherever it stops:
  every state of the CoreDNS objects it stores is safe. Every mounted item exists, every
  file the Corefile names exists and is mounted, and every key recorded as managed exists.\<close>
theorem Reconcile_safe:
  assumes "lawful_store (Client r) states"
    and "is_order (env_Directives env)" and "is_order (env_Answers env)" and "is_order (env_Items env)"
    and "coherent (CoreDNSConfigMap r) (hd (states w))"
    and "Reconcile r env w = (res, w')"
  shows "\<exists>hs. states w' = hs @ states w \<and> (\<forall>s \<in> set hs. safe (layout_of (CoreDNSConfigMap r) s))"
  by (rule Reconcile_states_safe [OF assms])

theorem Reconcile_safe_witness:
  "\<exists>res w' hs. Reconcile sample_reconciler sample_env (sample_cluster [Works, Works, Works, Works, LostReply]) = (res, w')
     \<and> sim_states w' = hs @ sim_states (sample_cluster [Works, Works, Works, Works, LostReply])
     \<and> (\<forall>s \<in> set hs. safe (layout_of ''coredns'' s))"
proof -
  let ?w = "sample_cluster [Works, Works, Works, Works, LostReply]"
  obtain res w' where run: "Reconcile sample_reconciler sample_env ?w = (res, w')" by (rule prod.exhaust)
  have "coherent (CoreDNSConfigMap sample_reconciler) (hd (sim_states ?w))" using sample_coherent by simp
  from Reconcile_safe [OF sample_lawful sample_env_orders this run] run show ?thesis by auto
qed

text \<open>C9. A pass that returns no error has published: the Corefile is the one read, patched with the
  directives of this pass, every zone file of this pass is stored with its content and
  mounted, and exactly the keys of these files are recorded as managed.\<close>
theorem Reconcile_publishes:
  assumes "lawful_store (Client r) states"
    and "is_order (env_Directives env)" and "is_order (env_Answers env)" and "is_order (env_Items env)"
    and "coherent (CoreDNSConfigMap r) (hd (states w))"
    and "Reconcile r env w = (None, w')"
  shows "\<exists>zones records cm w1 w2 w3 zones' w4 patched.
      list_zones (Client r) w = (Inr zones, w1) \<and> list_records (Client r) w1 = (Inr records, w2)
    \<and> get_configmap (Client r) (CoreDNSNamespace r) (CoreDNSConfigMap r) w2 = (Inr cm, w3)
    \<and> cm = fst (hd (states w)) \<and> claimZones r zones w3 = (Inr zones', w4)
    \<and> PatchCorefile (env_Directives env) (env_Answers env) (corefile_of cm)
        (rn_directives (renderZones env records (previous_of cm) zones')) = Inr patched
    \<and> settled (CoreDNSConfigMap r) (hd (states w')) patched (rn_zoneFiles (renderZones env records (previous_of cm) zones'))"
  by (rule Reconcile_ok [OF assms])

theorem Reconcile_publishes_witness:
  "\<exists>w' patched files. Reconcile sample_reliable sample_env (sample_cluster []) = (None, w')
     \<and> settled ''coredns'' (hd (sim_states w')) patched files"
proof -
  have law: "lawful_store (Client sample_reliable) sim_states"
    by (simp add: sample_reliable_def lawful_reliable)
  have coh: "coherent (CoreDNSConfigMap sample_reliable) (hd (sim_states (sample_cluster [])))"
    using sample_coherent by simp
  have "mounts_it sample_reliable sim_states (sample_cluster [])"
    by (simp add: mounted_items_def mounts_def sample_coredns_def)
  moreover have "answers (Client sample_reliable)" by (simp add: sample_reliable_def answers_reliable)
  ultimately obtain w' where run: "Reconcile sample_reliable sample_env (sample_cluster []) = (None, w')"
    using Reconcile_answers [OF law, of "sample_cluster []" sample_env] by (auto simp: sample_corefile sample_unmarked)
  from Reconcile_publishes [OF law sample_env_orders coh run] run show ?thesis by auto
qed

section \<open>Progress\<close>

text \<open>C10. Nothing in the zones and records makes a pass fail by itself: when the Deployment mounts the
  ConfigMap and the Corefile exists with its markers in order, a pass that returns an error has
  a call in its log that failed, and so a pass whose calls all succeed ends without an error,
  whatever was listed. An object that the API refuses is such a call: a ConfigMap with a zone
  file key that is too long makes every pass fail, for all zones.\<close>
theorem Reconcile_live:
  assumes "lawful_store (Client r) states"
    and "mounted_items (snd (hd (states w))) (CoreDNSConfigMap r) \<noteq> None"
    and "corefile_of (fst (hd (states w))) \<noteq> []" and "markers_ok (corefile_of (fst (hd (states w))))"
    and "Reconcile (traced_reconciler r) env (w, []) = (res, (w', log))"
  shows "Reconcile r env w = (res, w') \<and> (res = None \<or> (\<exists>k \<in> set log. \<not> succeeded k))"
  using Reconcile_fails [OF assms(1-4)] assms(5) traced_pass [OF assms(5)]
  unfolding a_call_failed_def by (cases res) auto

theorem Reconcile_live_witness:
  "\<exists>res w' log. Reconcile (traced_reconciler sample_reconciler) sample_env (sample_cluster [Works, Works, Works, LostReply], [])
       = (res, (w', log))
     \<and> Reconcile sample_reconciler sample_env (sample_cluster [Works, Works, Works, LostReply]) = (res, w')
     \<and> (res = None \<or> (\<exists>k \<in> set log. \<not> succeeded k))"
proof -
  let ?w = "sample_cluster [Works, Works, Works, LostReply]"
  obtain res w' log where run: "Reconcile (traced_reconciler sample_reconciler) sample_env (?w, []) = (res, (w', log))"
    by (metis prod.exhaust)
  have "Reconcile sample_reconciler sample_env ?w = (res, w') \<and> (res = None \<or> (\<exists>k \<in> set log. \<not> succeeded k))"
    by (rule Reconcile_live [OF sample_lawful _ _ _ run])
      (simp_all add: sample_reconciler_def sample_corefile sample_unmarked mounted_items_def mounts_def sample_coredns_def)
  then show ?thesis using run by blast
qed

section \<open>The order of the calls\<close>

text \<open>C11. A terminating zone is released only when nothing of it is left in CoreDNS: in the log of a
  pass, no update of a terminating zone occurs at all, or every read and every write of the
  CoreDNS objects in the pass succeeded and came before the first release, or CoreDNS has
  no ConfigMap or no Corefile and the pass writes no CoreDNS object.\<close>
theorem finalizers_released_last:
  assumes "Reconcile (traced_reconciler r) env (w, []) = (res, (w', log))"
  shows "Reconcile r env w = (res, w')
    \<and> (list_all (\<lambda>k. \<not> is_release k) log \<or> released_last log \<or> coredns_absent log)"
  using traced_pass [OF assms] Reconcile_log [OF assms] by blast

theorem finalizers_released_last_witness:
  "\<exists>res w' log. Reconcile (traced_reconciler sample_reconciler) sample_env (sample_cluster [Works, Works, Refused], []) = (res, (w', log))
     \<and> Reconcile sample_reconciler sample_env (sample_cluster [Works, Works, Refused]) = (res, w')"
proof -
  obtain res w' log where
    run: "Reconcile (traced_reconciler sample_reconciler) sample_env (sample_cluster [Works, Works, Refused], []) = (res, (w', log))"
    by (metis prod.exhaust)
  from finalizers_released_last [OF run] run show ?thesis by blast
qed

section \<open>CoreDNS unavailable\<close>

text \<open>The message of the report.\<close>

definition unavailable_message :: "'w PrivateDNSZoneReconciler \<Rightarrow> (api_error + ConfigMap) \<Rightarrow> string" where
  "unavailable_message r read =
     (let where_it = ''CoreDNS ConfigMap '' @ CoreDNSNamespace r @ ''/'' @ CoreDNSConfigMap r in
      case read of
        Inl e \<Rightarrow> if api_IsNotFound e then where_it @ '' does not exist'' else api_Error e
      | Inr _ \<Rightarrow> where_it @ '' has no Corefile key'')"

lemma Reconcile_unread:
  assumes "lawful_store (Client r) states"
    and "list_zones (Client r) w = (Inr zones, w1)" and "list_records (Client r) w1 = (Inr records, w2)"
    and "get_configmap (Client r) (CoreDNSNamespace r) (CoreDNSConfigMap r) w2 = (read, w3)"
    and "case read of Inl e \<Rightarrow> True | Inr cm \<Rightarrow> corefile_of cm = []"
    and "Reconcile r env w = (res, w')"
  obtains release where "reportCoreDNSUnavailable r (env_Conditions env) zones records (unavailable_message r read) release w3 = (res, w')"
    and "states w' = states w"
proof -
  have s3: "states w3 = states w"
    using quietD [OF lawful_storeD(8) [OF assms(1)] assms(2)] quietD [OF lawful_storeD(9) [OF assms(1)] assms(3)]
      quietD [OF lawful_storeD(6) [OF assms(1)] assms(4)] by simp
  obtain release where
    run: "reportCoreDNSUnavailable r (env_Conditions env) zones records (unavailable_message r read) release w3 = (res, w')"
    using assms(2-6) by (cases read) (auto simp: Reconcile_def unavailable_message_def split: if_splits)
  show thesis using that [OF run] reportCoreDNSUnavailable_quiet [OF assms(1) run] s3 by simp
qed

text \<open>C18. When the ConfigMap cannot be read or has no Corefile, the pass returns an error and stores no
  CoreDNS object, so the request is tried again; if the reports of the pass go through, the
  error is the message every zone and every record was given.\<close>
theorem Reconcile_unavailable:
  assumes "lawful_store (Client r) states"
    and "list_zones (Client r) w = (Inr zones, w1)" and "list_records (Client r) w1 = (Inr records, w2)"
    and "get_configmap (Client r) (CoreDNSNamespace r) (CoreDNSConfigMap r) w2 = (read, w3)"
    and "case read of Inl e \<Rightarrow> True | Inr cm \<Rightarrow> corefile_of cm = []"
    and "Reconcile r env w = (res, w')"
  shows "states w' = states w \<and> res \<noteq> None
    \<and> (takes_reports (Client r) \<longrightarrow> res = Some (GoError (PlainError
        (case read of
           Inl e \<Rightarrow> if api_IsNotFound e
             then ''CoreDNS ConfigMap '' @ CoreDNSNamespace r @ ''/'' @ CoreDNSConfigMap r @ '' does not exist''
             else api_Error e
         | Inr _ \<Rightarrow> ''CoreDNS ConfigMap '' @ CoreDNSNamespace r @ ''/'' @ CoreDNSConfigMap r @ '' has no Corefile key''))))"
proof -
  obtain release where
    run: "reportCoreDNSUnavailable r (env_Conditions env) zones records (unavailable_message r read) release w3 = (res, w')"
    and s: "states w' = states w"
    by (rule Reconcile_unread [OF assms])
  from reportCoreDNSUnavailable_error [OF run] reportCoreDNSUnavailable_reports [OF _ run] s
  show ?thesis unfolding unavailable_message_def Let_def append_assoc by blast
qed

theorem Reconcile_unavailable_witness:
  "\<exists>res w'. Reconcile sample_reconciler sample_env (sample_cluster [Works, Works, Refused]) = (res, w')
     \<and> res \<noteq> None \<and> sim_states w' = [(sample_configmap, sample_coredns)]"
proof -
  let ?w = "sample_cluster [Works, Works, Refused]"
  obtain res w' where run: "Reconcile sample_reconciler sample_env ?w = (res, w')" by (rule prod.exhaust)
  have "sim_states w' = sim_states ?w \<and> res \<noteq> None"
    using Reconcile_unavailable [OF sample_lawful _ _ _ _ run,
        of "sim_zones ?w" "?w\<lparr>sim_faults := [Works, Refused]\<rparr>" "sim_records ?w" "?w\<lparr>sim_faults := [Refused]\<rparr>"
          "Inl sim_error" "?w\<lparr>sim_faults := []\<rparr>"]
    by (simp add: sample_reconciler_def sim_client_def sim_read_def sim_next_def sample_cluster_def sample_sim_def)
  then show ?thesis using run by (simp add: sim_states_def sample_cluster_def sample_sim_def)
qed

text \<open>C19. While CoreDNS is unavailable, each live zone is reported not ready with the message and keeps its
  serial and hash, and each record is told that its zone is not ready, or, when no live zone
  has the name it refers to, that there is no such zone.\<close>
theorem unavailable_reports:
  assumes "foldl (unavailable_step records message) ([], newRecordOutcomes records) zones = (results, outcomes)"
    and "distinct (map z_Name (live zones))" and "distinct (map key_of records)"
  shows "(zone \<in> set (live zones) \<longrightarrow> map_of results (z_Name zone) = Some (failedResult zone reasonCoreDNSUnavailable message))
    \<and> (e \<in> set records \<longrightarrow> map_of outcomes (key_of e) =
        Some (if \<exists>z \<in> set (live zones). z_Name z = zone_of e
          then rejected reasonZoneNotReady (''zone '' @ quote (zone_of e) @ '' is not ready: '' @ message)
          else rejected reasonZoneNotFound (''no PrivateDNSZone named '' @ quote (zone_of e) @ '' is available'')))"
proof (intro conjI impI)
  assume z: "zone \<in> set (live zones)"
  have "results = foldl (\<lambda>m z. AList.update (z_Name z) (failedResult z reasonCoreDNSUnavailable message) m) [] (live zones)"
    using unavailable_results [of records message "([], newRecordOutcomes records)" zones] assms(1) by simp
  then show "map_of results (z_Name zone) = Some (failedResult zone reasonCoreDNSUnavailable message)"
    using find_unique(2) [OF assms(2) z] by (simp add: map_of_fold_update)
next
  assume e: "e \<in> set records"
  have "map_of (newRecordOutcomes records) (key_of e)
      = Some (rejected reasonZoneNotFound (''no PrivateDNSZone named '' @ quote (zone_of e) @ '' is available''))"
    using find_unique(2) [OF assms(3) e] by (simp only: newRecordOutcomes_get option.case)
  from unavailable_outcome [OF assms(3) e this, of message "[]" zones] assms(1)
  show "map_of outcomes (key_of e) =
      Some (if \<exists>z \<in> set (live zones). z_Name z = zone_of e
        then rejected reasonZoneNotReady (''zone '' @ quote (zone_of e) @ '' is not ready: '' @ message)
        else rejected reasonZoneNotFound (''no PrivateDNSZone named '' @ quote (zone_of e) @ '' is available''))"
    by simp
qed

theorem unavailable_reports_witness:
  "\<exists>results outcomes. foldl (unavailable_step [sample_spec ''team-a'' ''web'' ''www'' ''10.0.0.1''] ''down'')
        ([], newRecordOutcomes [sample_spec ''team-a'' ''web'' ''www'' ''10.0.0.1'']) [sample_zone] = (results, outcomes)
     \<and> map_option ro_reason (map_of outcomes ''team-a/web'') = Some reasonZoneNotReady"
proof -
  let ?e = "sample_spec ''team-a'' ''web'' ''www'' ''10.0.0.1''"
  obtain results outcomes where f: "foldl (unavailable_step [?e] ''down'') ([], newRecordOutcomes [?e]) [sample_zone] = (results, outcomes)"
    by (rule prod.exhaust)
  have "key_of ?e = ''team-a/web''" "zone_of ?e = z_Name sample_zone"
    by (simp_all add: recordKey_def sample_spec_def sample_zone_def)
  with unavailable_reports [OF f, of sample_zone ?e] f show ?thesis
    by (simp add: rejected_def sample_zone_def)
qed

section \<open>Zones do not disturb each other\<close>

text \<open>C13. The loop over the zones, which threads the files, the directives, the results and the record
  outcomes, computes what each live zone gives on its own: a directive list in the order of
  the zones, the files of each zone, and for each zone the result it would have alone.\<close>
theorem renderZones_zonewise:
  assumes "distinct (map z_Name (live zones))" and "zone \<in> set (live zones)"
  shows "rn_directives (renderZones env records po zones)
      = concat (map (\<lambda>z. fst (snd (contribution_of env records po z))) (live zones))
    \<and> rn_zoneFiles (renderZones env records po zones)
      = add_files [] (concat (map (\<lambda>z. snd (snd (contribution_of env records po z))) (live zones)))
    \<and> map_of (rn_results (renderZones env records po zones)) (z_Name zone)
      = map_of (rn_results (renderZones env records po [zone])) (z_Name zone)"
proof -
  have "distinct (map z_Name (live [zone]))" "live [zone] = [zone]" using assms(2) by auto
  then show ?thesis
    using find_unique(1) [OF assms] renderZones_contributions(3) [OF assms(1), of env records po "z_Name zone"]
      renderZones_contributions(3) [of "[zone]" env records po "z_Name zone"]
    by (simp add: renderZones_contributions(1,2))
qed

theorem renderZones_zonewise_witness:
  "map_of (rn_results (renderZones sample_env [] sample_previous
      [sample_zone, sample_zone\<lparr>z_Meta := (z_Meta sample_zone)\<lparr>om_Name := ''other''\<rparr>\<rparr>])) ''example''
   = map_of (rn_results (renderZones sample_env [] sample_previous [sample_zone])) ''example''"
  using renderZones_zonewise [of "[sample_zone, sample_zone\<lparr>z_Meta := (z_Meta sample_zone)\<lparr>om_Name := ''other''\<rparr>\<rparr>]"
      sample_zone sample_env "[]" sample_previous]
  by (simp add: sample_zone_def)

text \<open>C12. A zone whose records or whose rendering fail keeps what was published for it: its stanza with
  the text of the previous Corefile, its zone file with the previous content, its serial and
  its hash, and it is not reported as rendered.\<close>
theorem failed_zone_keeps_output:
  assumes "distinct (map z_Name (live zones))" and "zone \<in> set (live zones)"
    and "NormalizeZone (zs_Zone (z_Spec zone)) = Inr n"
    and "fst (recordsForZone zone n records []) = (compiled, excluded, errs)"
    and "errs \<noteq> [] \<or> isl (RenderZone (env_Records env) zone compiled (env_Now env (z_Name zone))
        \<lparr>pr_Serial = zst_Serial (z_Status zone), pr_Hash = zst_LastAppliedHash (z_Status zone)\<rparr>)"
    and "map_of (po_Blocks po) (trim_suffix n ''.'') = Some raw"
    and "ZoneFileKey n \<in> set (po_ManagedKeys po)" and "map_of (cm_Data (po_ConfigMap po)) (ZoneFileKey n) = Some content"
    and "own_key (live zones) zone n"
  shows "(\<exists>result. map_of (rn_results (renderZones env records po zones)) (z_Name zone) = Some result
        \<and> res_serial result = zst_Serial (z_Status zone) \<and> res_lastAppliedHash result = zst_LastAppliedHash (z_Status zone)
        \<and> \<not> res_rendered result)
    \<and> (\<exists>d \<in> set (rn_directives (renderZones env records po zones)). zd_Zone d = n \<and> zd_Raw d = raw)
    \<and> map_of (rn_zoneFiles (renderZones env records po zones)) (ZoneFileKey n) = Some content"
proof -
  obtain reason err where "contribution_of env records po zone = held_contribution po zone n reason err"
    by (rule contribution_failed [OF assms(3-5)])
  note held = held_zone [OF assms(1,2) this]
  show ?thesis by (intro conjI held(1) held(2) [OF assms(6)] held(3) [OF assms(9,6-8)])
qed

definition sample_broken_zone :: PrivateDNSZone where
  "sample_broken_zone = sample_zone\<lparr>z_Spec := (z_Spec sample_zone)\<lparr>zs_TTL := Some 0\<rparr>\<rparr>"

definition sample_published :: previous_output where
  "sample_published =
     \<lparr>po_Blocks = [(''example.com'', ''example.com:53 {'')], po_ManagedKeys = [ZoneFileKey ''example.com.''],
      po_ConfigMap = sample_configmap\<lparr>cm_Data := [(ZoneFileKey ''example.com.'', ''content'')]\<rparr>\<rparr>"

theorem failed_zone_keeps_output_witness:
  "map_of (rn_zoneFiles (renderZones sample_env [] sample_published [sample_broken_zone])) (ZoneFileKey ''example.com.'')
   = Some ''content''"
proof -
  obtain compiled excluded errs where r: "fst (recordsForZone sample_broken_zone ''example.com.'' [] []) = (compiled, excluded, errs)"
    by (metis prod.exhaust)
  have n: "NormalizeZone (zs_Zone (z_Spec sample_broken_zone)) = Inr ''example.com.''"
    using sample_normalize by (simp add: sample_broken_zone_def sample_zone_def)
  have ttl: "sint (zone_ttl sample_broken_zone) = 0" by (simp add: sample_broken_zone_def zone_ttl_def)
  have "isl (RenderZone ord sample_broken_zone compiled now previous)" for ord now previous
    using RenderZone_Inr_iff [of ord sample_broken_zone compiled now previous] ttl
    by (cases "RenderZone ord sample_broken_zone compiled now previous") auto
  moreover have "live [sample_broken_zone] = [sample_broken_zone]" "trim_suffix ''example.com.'' ''.'' = ''example.com''"
    by (simp_all add: sample_broken_zone_def sample_zone_def trim_suffix_def suffix_def)
  ultimately show ?thesis
    using failed_zone_keeps_output [OF _ _ n r, of "[sample_broken_zone]" sample_env sample_published "''example.com:53 {''" "''content''"]
    by (simp add: sample_published_def own_key_def)
qed

section \<open>Any number of passes\<close>

lemma keeps_spec_sim: "keeps_spec sim_client"
  by (auto simp: keeps_spec_def sim_client_def sim_write_def split: prod.splits fault.splits)

lemma sample_stable: "stable ''coredns'' (sample_configmap, sample_coredns)"
proof -
  have "block_fit ''.:53 { }''" by code_simp
  then show ?thesis
    using sample_coherent by (simp add: stable_def sample_corefile sample_unmarked sample_named sample_no_keys)
qed

lemma sample_env_ok: "env_ok sample_env"
  by (simp add: env_ok_def)

lemma sample_clean: "inputs_clean sim_client (sample_cluster faults)"
proof -
  have A: "value_clean ''A'' ''10.0.0.1''" unfolding value_clean_def by code_simp
  have "spec_clean (z_Spec sample_zone)" by (simp add: spec_clean_def sample_zone_def)
  moreover have "record_clean_values (sample_spec ''team-a'' ''web'' ''www'' ''10.0.0.1'')"
    using A by (simp add: record_clean_values_def sample_spec_def)
  ultimately show ?thesis
    by (auto simp: inputs_clean_def sim_client_def sim_read_def sim_next_def sample_cluster_def
        split: list.splits if_splits)
qed

text \<open>C6. An invariant of the CoreDNS objects over whole passes, which lets a pass start from whatever
  the one before left behind, finished or not: the state is safe, the Corefile has at most
  one block with its markers in order, each stanza in it names at most the file of its own
  zone and that file is recorded as managed, and nothing outside the block is a zone file.
  Every state a pass stores satisfies it again, and the text outside the block is the one
  the pass found. The one demand on zones and records is that no value contains the end
  marker of the block.\<close>
theorem Reconcile_invariant:
  assumes "lawful_store (Client r) states" and "keeps_spec (Client r)" and "env_ok env"
    and "stable (CoreDNSConfigMap r) (hd (states w))" and "inputs_clean (Client r) w"
    and "Reconcile r env w = (res, w')"
  shows "\<exists>hs. states w' = hs @ states w \<and> (\<forall>s \<in> set hs. stable (CoreDNSConfigMap r) s
      \<and> outside_block (corefile_of (fst s)) = outside_block (corefile_of (fst (hd (states w)))))"
  by (rule Reconcile_states_stable [OF assms])

theorem Reconcile_invariant_witness:
  "\<exists>res w' hs. Reconcile sample_reconciler sample_env (sample_cluster [Works, Works, Works, Works, LostReply]) = (res, w')
     \<and> sim_states w' = hs @ [(sample_configmap, sample_coredns)]
     \<and> (\<forall>s \<in> set hs. outside_block (corefile_of (fst s)) = ''.:53 { }'')"
proof -
  let ?w = "sample_cluster [Works, Works, Works, Works, LostReply]"
  obtain res w' where run: "Reconcile sample_reconciler sample_env ?w = (res, w')" by (rule prod.exhaust)
  have c: "Client sample_reconciler = sim_client" by (simp add: sample_reconciler_def)
  have "sim_states ?w = [(sample_configmap, sample_coredns)]" by (simp add: sim_states_def sample_cluster_def sample_sim_def)
  with Reconcile_invariant [OF sample_lawful _ sample_env_ok _ _ run] run keeps_spec_sim sample_stable sample_clean
  show ?thesis by (auto simp: c sample_corefile sample_unmarked)
qed

text \<open>C7. Any history of passes, each with its own clock, iteration orders and API failures and each
  stopping anywhere, stores only safe states of the CoreDNS objects; and whatever it leaves
  behind, the next pass over an API server that answers publishes everything: it returns no
  error, and the Corefile, the zone files, their mounts and the managed keys are those of
  the zones and records it read. The values listed in the passes of the history hold no end marker
  (\<open>inputs_clean\<close>, in \<open>operates\<close>), and to answer includes to accept each object that is sent.\<close>
theorem operator_recovers:
  assumes "operates r states w0 w" and "lawful_store (Client r) states" and "keeps_spec (Client r)"
    and "stable (CoreDNSConfigMap r) (hd (states w0))"
    and "lawful_store (Client r') states" and "answers (Client r')" and "CoreDNSConfigMap r' = CoreDNSConfigMap r"
    and "mounted_items (snd (hd (states w))) (CoreDNSConfigMap r) \<noteq> None" and "env_ok env"
  shows "(\<exists>hs. states w = hs @ states w0 \<and> (\<forall>s \<in> set hs. safe (layout_of (CoreDNSConfigMap r) s)))
    \<and> (\<exists>w'. Reconcile r' env w = (None, w') \<and> published_by r' env w (hd (states w)) (hd (states w')))"
proof -
  have "\<forall>s. stable (CoreDNSConfigMap r) s \<longrightarrow> safe (layout_of (CoreDNSConfigMap r) s)"
    by (simp add: stable_def coherent_def)
  moreover note past = operates_stable [OF assms(1-4)]
  moreover have "\<exists>w'. Reconcile r' env w = (None, w') \<and> published_by r' env w (hd (states w)) (hd (states w'))"
    by (rule stable_recovers [OF assms(5,6,9)]) (use past assms(7,8) in simp_all)
  ultimately show ?thesis by blast
qed

theorem operator_recovers_witness:
  "\<exists>res w w'. Reconcile sample_reconciler sample_env (sample_cluster [Works, Works, Refused]) = (res, w)
     \<and> Reconcile sample_reliable sample_env w = (None, w')"
proof -
  let ?w0 = "sample_cluster [Works, Works, Refused]"
  obtain res w where run: "Reconcile sample_reconciler sample_env ?w0 = (res, w)" by (rule prod.exhaust)
  have c: "Client sample_reconciler = sim_client" by (simp add: sample_reconciler_def)
  have ops: "operates sample_reconciler sim_states ?w0 w"
    by (rule operates_pass [OF operates_start sample_env_ok _ run]) (simp add: c sample_clean)
  have "sim_states w = sim_states ?w0"
    by (rule Reconcile_unread [of sample_reconciler sim_states ?w0 "sim_zones ?w0" "?w0\<lparr>sim_faults := [Works, Refused]\<rparr>"
          "sim_records ?w0" "?w0\<lparr>sim_faults := [Refused]\<rparr>" "Inl sim_error" "?w0\<lparr>sim_faults := []\<rparr>",
        OF sample_lawful _ _ _ _ run])
      (simp_all add: sample_reconciler_def sim_client_def sim_read_def sim_next_def sample_cluster_def sample_sim_def)
  then have "mounted_items (snd (hd (sim_states w))) ''coredns'' \<noteq> None"
    by (simp add: mounted_items_def mounts_def sample_coredns_def)
  with operator_recovers [OF ops sample_lawful _ _ _ _ _ _ sample_env_ok, of sample_reliable] run keeps_spec_sim sample_stable
  show ?thesis by (auto simp: c sample_reliable_def lawful_reliable answers_reliable)
qed

section \<open>Convergence\<close>

text \<open>C8. One pass is enough: after a pass that returns no error, with the statuses of its live zones
  and records stored and its terminating zones gone or released, the next pass over the same
  zones and records makes no write call at all, at any later date and in whatever orders Go visits
  its maps and leaves ties this time. All it does after its three reads is to read the Deployment,
  so the operator comes to rest and its own writes do not keep it going. This asks that no two
  zones share a name or a file key, and that the records of a zone have no ties (\<open>untied\<close>): no two
  with the same name, type and source name and different deduplication keys, whose order would
  be random. The values of the first pass hold no end marker (\<open>inputs_clean\<close>).\<close>
theorem Reconcile_converges:
  assumes "lawful_store (Client r) states" and "keeps_spec (Client r)"
    and "env_ok env" and "env_ok env'" and "lawful_conditions (env_Conditions env)" and "lawful_conditions (env_Conditions env')"
    and "is_order (env_Records env)" and "is_order (env_Records env')"
    and "stable (CoreDNSConfigMap r) (hd (states w))" and "inputs_clean (Client r) w"
    and "list_zones (Client r) w = (Inr zones0, w1)" and "list_records (Client r) w1 = (Inr records, w2)"
    and "get_configmap (Client r) (CoreDNSNamespace r) (CoreDNSConfigMap r) w2 = (Inr cm, w3)"
    and "claimZones r zones0 w3 = (Inr zones, w4)" and "Reconcile r env w = (None, w')"
    and "PatchCorefile (env_Directives env) (env_Answers env) (corefile_of cm)
        (rn_directives (renderZones env records (previous_of cm) zones)) = Inr patched"
    and "\<forall>z \<in> set (live zones). untied records z" and "own_keys zones" and "distinct (map z_Name (live zones))"
    and "\<forall>z \<in> set zones. one_each (zst_Conditions (z_Status z))" and "\<forall>e \<in> set records. one_each (rst_Conditions (rec_Status e))"
    and "hd (states v) = hd (states w')" and "list_zones (Client r) v = (Inr zones', v1)"
    and "list_records (Client r) v1 =
        (Inr (stored_records (env_Conditions env) (rn_outcomes (renderZones env records (previous_of cm) zones)) records), v2)"
    and "get_configmap (Client r) (CoreDNSNamespace r) (CoreDNSConfigMap r) v2 = (Inr cm', v3)"
    and "stored_zones (env_Conditions env) (rn_results (renderZones env records (previous_of cm) zones))
        (HasReloadPlugin patched) zones zones'"
    and "Reconcile r env' v = (res, v')"
  shows "v' = deployment_read r v3 \<or> v' = deployment_read r (deployment_read r v3)"
  by (rule Reconcile_again [OF assms])

text \<open>A server with one zone of two records, whose status is the one a pass reports.\<close>

definition sample_busy :: PrivateDNSZone where
  "sample_busy = sample_zone
     \<lparr>z_Meta := (z_Meta sample_zone)\<lparr>om_Finalizers := [privateDNSZoneFinalizer]\<rparr>,
      z_Spec := (z_Spec sample_zone)\<lparr>zs_Records :=
        [\<lparr>in_Name = ''www'', in_Type = ''A'', in_TTL = None, in_Values = [''10.0.0.1'']\<rparr>,
         \<lparr>in_Name = ''api'', in_Type = ''A'', in_TTL = None, in_Values = [''10.0.0.2'']\<rparr>]\<rparr>\<rparr>"

lemma sample_busy_untied: "untied [] sample_busy"
  unfolding untied_def by code_simp

lemma sample_busy_clean: "spec_clean (z_Spec sample_busy)"
proof -
  have "value_clean ''A'' ''10.0.0.1''" "value_clean ''A'' ''10.0.0.2''" unfolding value_clean_def by code_simp+
  then show ?thesis by (simp add: spec_clean_def sample_busy_def)
qed

lemma sample_busy_frame [simp]:
  "om_Finalizers (z_Meta sample_busy) = [privateDNSZoneFinalizer]" "om_DeletionTimestamp (z_Meta sample_busy) = None"
  "z_Name sample_busy = ''example''" "zst_Conditions (z_Status sample_busy) = []"
  by (simp_all add: sample_busy_def sample_zone_def)

definition sample_rendering :: rendering where
  "sample_rendering = renderZones sample_env [] (previous_of sample_configmap)
     [sample_busy]"

definition sample_patched :: string where
  "sample_patched = (case PatchCorefile rev rev ''.:53 { }'' (rn_directives sample_rendering) of Inl e \<Rightarrow> [] | Inr cf \<Rightarrow> cf)"

definition sample_reported :: PrivateDNSZone where
  "sample_reported = reported_zone (clock_lib 7) (rn_results sample_rendering) (HasReloadPlugin sample_patched)
     sample_busy"

definition sample_quiescent :: "sim PrivateDNSZoneReconciler" where
  "sample_quiescent = sample_reliable\<lparr>Client := reliable_client\<lparr>list_zones := (\<lambda>w. (Inr [sample_reported], w)),
     list_records := (\<lambda>w. (Inr [], w))\<rparr>\<rparr>"

lemma sample_reported_frame:
  "z_Spec sample_reported = z_Spec sample_busy" "z_Meta sample_reported = z_Meta sample_busy"
  "untied [] sample_reported"
  using sample_busy_untied by (simp_all add: sample_reported_def reported_zone_def untied_status split: option.split)

lemma sample_reported_status:
  "renderZones sample_env [] (previous_of sample_configmap) [sample_reported] = sample_rendering"
  "one_each (zst_Conditions (z_Status sample_reported))"
  "reported_zone (clock_lib 7) (rn_results sample_rendering) (HasReloadPlugin sample_patched) sample_reported = sample_reported"
proof -
  let ?z = sample_busy
  let ?po = "previous_of sample_configmap" and ?b = "HasReloadPlugin sample_patched"
  have live: "live [?z] = [?z]" "live [sample_reported] = [sample_reported]"
    by (simp_all add: sample_reported_frame)
  show again: "renderZones sample_env [] ?po [sample_reported] = sample_rendering"
    using renderZones_again [of sample_env sample_env "[?z]" "[]" "[sample_reported]" "clock_lib 7" ?po ?b ?po]
      sample_busy_untied
    unfolding live by (simp add: sample_reported_def sample_rendering_def sample_env_def)
  obtain result where result: "map_of (rn_results sample_rendering) ''example'' = Some result"
    using renderZones_contributions(3) [of "[?z]" sample_env "[]" ?po "''example''"] unfolding live sample_rendering_def
    by simp
  have "list_all (\<lambda>(k, res). conditions_ok res) (rn_results sample_rendering)"
    unfolding sample_rendering_def by (rule renderZones_conditions)
  then have ones: "one_each (desired_conditions ?z result ?b)"
    using map_of_SomeD [OF result] by (fastforce simp: list_all_iff)
  have rep: "sample_reported = ?z\<lparr>z_Status := zone_status (clock_lib 7) ?z result ?b\<rparr>"
    using result by (simp add: sample_reported_def reported_zone_def)
  show "one_each (zst_Conditions (z_Status sample_reported))"
    unfolding rep by (simp add: zone_status_def applyConditions_one_each [OF lawful_clock])
  have "zone_status (clock_lib 7) sample_reported result ?b = z_Status sample_reported"
    unfolding rep using zone_status_again [OF lawful_clock lawful_clock _ ones, of 7 7] by simp
  then show "reported_zone (clock_lib 7) (rn_results sample_rendering) ?b sample_reported = sample_reported"
    using result by (simp add: reported_zone_def sample_reported_frame)
qed

lemma sample_patched_ok:
  "PatchCorefile rev rev ''.:53 { }'' (rn_directives sample_rendering) = Inr sample_patched"
  using PatchCorefile_error_iff [of rev rev "''.:53 { }''" "rn_directives sample_rendering"] sample_unmarked(3)
  by (auto simp: sample_patched_def split: sum.split)

lemma sample_quiescent_server:
  "lawful_store (Client sample_quiescent) sim_states" "answers (Client sample_quiescent)"
  "keeps_spec (Client sample_quiescent)" "inputs_clean (Client sample_quiescent) w"
proof -
  have c: "Client sample_quiescent = reliable_client\<lparr>list_zones := (\<lambda>w. (Inr [sample_reported], w)),
     list_records := (\<lambda>w. (Inr [], w))\<rparr>" by (simp add: sample_quiescent_def)
  show "lawful_store (Client sample_quiescent) sim_states"
    using lawful_reliable unfolding c lawful_store_def quiet_def by simp
  show "answers (Client sample_quiescent)"
    using answers_reliable unfolding c answers_def takes_reports_def by simp
  show "keeps_spec (Client sample_quiescent)"
    using keeps_spec_sim unfolding c keeps_spec_def by (simp add: reliable_client_def)
  show "inputs_clean (Client sample_quiescent) w"
    unfolding c by (simp add: inputs_clean_def sample_reported_frame sample_busy_clean)
qed

text \<open>The second pass is on another day and visits all maps in the opposite order.\<close>

definition sample_later :: environment where
  "sample_later =
     \<lparr>env_Now = (\<lambda>name. \<lparr>d_year = 2027, d_month = 1, d_day = 1\<rparr>), env_Records = (\<lambda>xs. xs), env_Directives = (\<lambda>xs. xs),
      env_Answers = (\<lambda>xs. xs), env_Items = (\<lambda>xs. xs), env_Conditions = clock_lib 8\<rparr>"

theorem Reconcile_converges_witness:
  "\<exists>w' res v'. Reconcile sample_quiescent sample_env (sample_cluster []) = (None, w')
     \<and> Reconcile sample_quiescent sample_later w' = (res, v')
     \<and> sim_states v' = sim_states w'"
proof -
  let ?r = sample_quiescent and ?w = "sample_cluster []"
  note server = sample_quiescent_server
  have name: "CoreDNSConfigMap ?r = ''coredns''" by (simp add: sample_quiescent_def)
  have reads: "list_zones (Client ?r) w = (Inr [sample_reported], w)" "list_records (Client ?r) w = (Inr [], w)"
    "get_configmap (Client ?r) ns n w = (Inr (fst (hd (sim_states w))), w\<lparr>sim_faults := []\<rparr>)" for w ns n
    by (simp_all add: sample_quiescent_def reliable_client_def sim_client_def sim_read_def sim_next_def)
  have "\<exists>w'. Reconcile ?r sample_env ?w = (None, w')"
    by (rule Reconcile_answers [OF server(1,2)])
      (simp_all add: name sample_corefile sample_unmarked mounted_items_def mounts_def sample_coredns_def)
  then obtain w' where run: "Reconcile ?r sample_env ?w = (None, w')" by blast
  obtain res v' where run': "Reconcile ?r sample_later w' = (res, v')" by (rule prod.exhaust)
  have live: "live [sample_reported] = [sample_reported]" by (simp add: sample_reported_frame sample_zone_def)
  have later: "env_ok sample_later" "is_order (env_Records sample_later)" "env_Conditions sample_later = clock_lib 8"
    by (simp_all add: env_ok_def sample_later_def)
  have env: "is_order (env_Records sample_env)" "env_Conditions sample_env = clock_lib 7" "env_Directives sample_env = rev" "env_Answers sample_env = rev"
    by (simp_all add: sample_env_def)
  let ?v = "w'\<lparr>sim_faults := []\<rparr>"
  have "v' = deployment_read ?r ?v \<or> v' = deployment_read ?r (deployment_read ?r ?v)"
  proof (rule Reconcile_converges [OF server(1,3) sample_env_ok later(1) _ _ env(1) later(2) _ server(4) reads(1,2) _ _ run _ _ _ _ _ _ refl reads(1) _ reads(3) _ run'])
    show "stable (CoreDNSConfigMap ?r) (hd (sim_states ?w))" using sample_stable by (simp add: name)
    show "get_configmap (Client ?r) (CoreDNSNamespace ?r) (CoreDNSConfigMap ?r) ?w = (Inr sample_configmap, ?w\<lparr>sim_faults := []\<rparr>)"
      by (simp add: reads(3))
    show "claimZones ?r [sample_reported] (?w\<lparr>sim_faults := []\<rparr>) = (Inr [sample_reported], ?w\<lparr>sim_faults := []\<rparr>)"
      by (simp add: sample_reported_frame)
    show "PatchCorefile (env_Directives sample_env) (env_Answers sample_env) (corefile_of sample_configmap)
        (rn_directives (renderZones sample_env [] (previous_of sample_configmap) [sample_reported])) = Inr sample_patched"
      unfolding env(2-4) sample_reported_status(1) using sample_patched_ok by (simp add: sample_corefile)
    show "own_keys [sample_reported]" by (simp add: own_keys_def own_key_def)
    show "stored_zones (env_Conditions sample_env) (rn_results (renderZones sample_env [] (previous_of sample_configmap) [sample_reported]))
        (HasReloadPlugin sample_patched) [sample_reported] [sample_reported]"
      by (simp add: stored_zones_def env sample_reported_status sample_reported_frame)
  qed (simp_all add: env later lawful_clock sample_reported_frame sample_reported_status reads stored_records_def)
  then have "sim_states v' = sim_states w'"
    using deployment_read_quiet [OF server(1)] by auto
  then show ?thesis using run run' by blast
qed

section \<open>From a record to what CoreDNS is given\<close>

text \<open>C1. End to end: after a pass without error, each zone it reports as rendered is served by what is
  stored. For a strict zone the Corefile has a stanza that names the zone file, which is mounted
  and stored, and after its header this file has a line for each value of each delegated record
  that was told it is accepted (up to case and surrounding space), and no line that is not a
  value of an inline record of the zone or of such an accepted record. For a forwarding zone
  the same holds of the RRsets of its template stanza. The names of the objects are those the
  API allows, and no other live zone has the file key of this one.\<close>
theorem accepted_records_served:
  assumes "lawful_store (Client r) states" and "env_ok env" and "is_order (env_Records env)"
    and "coherent (CoreDNSConfigMap r) (hd (states w))"
    and "list_zones (Client r) w = (Inr zones0, w1)" and "list_records (Client r) w1 = (Inr records, w2)"
    and "get_configmap (Client r) (CoreDNSNamespace r) (CoreDNSConfigMap r) w2 = (Inr cm, w3)"
    and "claimZones r zones0 w3 = (Inr zones, w4)" and "Reconcile r env w = (None, w')"
    and "distinct (map z_Name (live zones))" and "zone \<in> set (live zones)"
    and "map_of (rn_results (renderZones env records (previous_of cm) zones)) (z_Name zone) = Some res" and "res_rendered res"
    and "distinct (map key_of records)" and "plain_names zone records" and "nl \<notin> set (zst_Serial (z_Status zone))"
    and "\<And>n. NormalizeZone (zs_Zone (z_Spec zone)) = Inr n \<Longrightarrow> own_key (live zones) zone n"
  shows "\<exists>n. NormalizeZone (zs_Zone (z_Spec zone)) = Inr n
    \<and> zone_served (CoreDNSConfigMap r) (hd (states w')) zone n records
        (rn_outcomes (renderZones env records (previous_of cm) zones))"
proof -
  note ord = assms(2) [unfolded env_ok_def]
  from Reconcile_ok [OF assms(1) _ _ _ assms(4,9)] ord assms(5-8) obtain patched where p:
    "PatchCorefile (env_Directives env) (env_Answers env) (corefile_of cm)
        (rn_directives (renderZones env records (previous_of cm) zones)) = Inr patched"
    "settled (CoreDNSConfigMap r) (hd (states w')) patched (rn_zoneFiles (renderZones env records (previous_of cm) zones))"
    by auto
  show ?thesis by (rule pass_serves [OF assms(10-15,3) _ _ assms(16,17) p]) (use ord in simp_all)
qed

text \<open>A server with one zone and a record that the zone accepts.\<close>

definition sample_owner :: PrivateDNSRecord where
  "sample_owner = sample_spec ''team-a'' ''web'' ''www'' ''10.0.0.1''"

definition sample_claimed :: PrivateDNSZone where
  "sample_claimed = sample_zone\<lparr>z_Meta := (z_Meta sample_zone)\<lparr>om_Finalizers := [privateDNSZoneFinalizer]\<rparr>\<rparr>"

definition sample_serving :: "sim PrivateDNSZoneReconciler" where
  "sample_serving = sample_reliable\<lparr>Client := reliable_client\<lparr>list_zones := (\<lambda>w. (Inr [sample_claimed], w)),
     list_records := (\<lambda>w. (Inr [sample_owner], w))\<rparr>\<rparr>"

lemma sample_claimed_frame [simp]:
  "z_Spec sample_claimed = z_Spec sample_zone" "z_Name sample_claimed = ''example''"
  "om_DeletionTimestamp (z_Meta sample_claimed) = None" "z_Status sample_claimed = z_Status sample_zone"
  "om_Finalizers (z_Meta sample_claimed) = [privateDNSZoneFinalizer]"
  by (simp_all add: sample_claimed_def sample_zone_def)

lemma sample_serving_server:
  "lawful_store (Client sample_serving) sim_states" "answers (Client sample_serving)"
proof -
  have c: "Client sample_serving = reliable_client\<lparr>list_zones := (\<lambda>w. (Inr [sample_claimed], w)),
     list_records := (\<lambda>w. (Inr [sample_owner], w))\<rparr>" by (simp add: sample_serving_def)
  show "lawful_store (Client sample_serving) sim_states"
    using lawful_reliable unfolding c lawful_store_def quiet_def by simp
  show "answers (Client sample_serving)"
    using answers_reliable unfolding c answers_def takes_reports_def by simp
qed

text \<open>The zone of these inputs is rendered whatever the records are.\<close>

lemma sample_spec_rendered:
  assumes spec: "z_Spec z = z_Spec sample_zone"
  shows "res_rendered (fst (contribution_of sample_env records po z))"
proof -
  have n: "NormalizeZone (zs_Zone (z_Spec z)) = Inr ''example.com.''"
    using sample_normalize by (simp add: spec) (simp add: sample_zone_def)
  obtain compiled excluded blocking outs where r: "recordsForZone z ''example.com.'' records []
      = ((compiled, excluded, blocking), outs)" by (metis prod.exhaust)
  have "inline_errors z ''example.com.'' = []" "inline_records z ''example.com.'' = []"
    by (simp_all add: inline_errors_def inline_records_def spec) (simp_all add: sample_zone_def)
  moreover from this(2) have "\<not> from_spec q" if "q \<in> set (admitted_records z ''example.com.'' records)" for q
    using from_spec_admitted [OF that] by simp
  ultimately have b: "blocking = []" using recordsForZone_result(3) [OF r] by (auto simp: filter_empty_conv)
  have "0 < sint (zone_ttl z)" by (simp add: zone_ttl_def spec) (simp add: sample_zone_def DefaultTTL_def)
  moreover have "ValidateRecords (DeduplicateAndSort (env_Records sample_env) compiled) = []"
    by (rule ValidateRecords_DeduplicateAndSort [OF _ compiled_valid(1) [OF r]]) (simp add: sample_env_def is_order_rev)
  ultimately obtain zf where "RenderZone (env_Records sample_env) z compiled (env_Now sample_env (z_Name z))
      \<lparr>pr_Serial = zst_Serial (z_Status z), pr_Hash = zst_LastAppliedHash (z_Status z)\<rparr> = Inr zf"
    using n unfolding RenderZone_Inr_iff by blast
  then show ?thesis using n r b by (simp add: contribution_of_def renderedResult_def Let_def)
qed

lemma sample_claimed_rendered:
  "\<exists>res. map_of (rn_results (renderZones sample_env [sample_owner] po [sample_claimed])) ''example'' = Some res \<and> res_rendered res"
proof -
  have "live [sample_claimed] = [sample_claimed]" by simp
  then show ?thesis
    using renderZones_contributions(3) [of "[sample_claimed]" sample_env "[sample_owner]" po "''example''"]
      sample_spec_rendered [of sample_claimed "[sample_owner]" po] by simp
qed

theorem accepted_records_served_witness:
  "\<exists>w' n. Reconcile sample_serving sample_env (sample_cluster []) = (None, w')
     \<and> NormalizeZone ''Example.com'' = Inr n
     \<and> zone_served ''coredns'' (hd (sim_states w')) sample_claimed n [sample_owner]
         (rn_outcomes (renderZones sample_env [sample_owner] (previous_of sample_configmap) [sample_claimed]))"
proof -
  let ?r = sample_serving and ?w = "sample_cluster []"
  note server = sample_serving_server
  have name: "CoreDNSConfigMap ?r = ''coredns''" by (simp add: sample_serving_def)
  have reads: "list_zones (Client ?r) w = (Inr [sample_claimed], w)" "list_records (Client ?r) w = (Inr [sample_owner], w)"
    "get_configmap (Client ?r) ns n w = (Inr (fst (hd (sim_states w))), w\<lparr>sim_faults := []\<rparr>)" for w ns n
    by (simp_all add: sample_serving_def reliable_client_def sim_client_def sim_read_def sim_next_def)
  have "\<exists>w'. Reconcile ?r sample_env ?w = (None, w')"
    by (rule Reconcile_answers [OF server])
      (simp_all add: name sample_corefile sample_unmarked mounted_items_def mounts_def sample_coredns_def)
  then obtain w' where run: "Reconcile ?r sample_env ?w = (None, w')" by blast
  obtain res where res: "map_of (rn_results (renderZones sample_env [sample_owner] (previous_of sample_configmap) [sample_claimed]))
      (z_Name sample_claimed) = Some res" "res_rendered res" using sample_claimed_rendered by auto
  have "\<exists>n. NormalizeZone (zs_Zone (z_Spec sample_claimed)) = Inr n
    \<and> zone_served (CoreDNSConfigMap ?r) (hd (sim_states w')) sample_claimed n [sample_owner]
        (rn_outcomes (renderZones sample_env [sample_owner] (previous_of sample_configmap) [sample_claimed]))"
  proof (rule accepted_records_served [OF server(1) sample_env_ok _ _ reads(1,2) _ _ run _ _ res])
    show "is_order (env_Records sample_env)" by (simp add: sample_env_def is_order_rev)
    show "coherent (CoreDNSConfigMap ?r) (hd (sim_states ?w))" using sample_coherent by (simp add: name)
    show "get_configmap (Client ?r) (CoreDNSNamespace ?r) (CoreDNSConfigMap ?r) ?w = (Inr sample_configmap, ?w\<lparr>sim_faults := []\<rparr>)"
      by (simp add: reads(3))
    show "claimZones ?r [sample_claimed] (?w\<lparr>sim_faults := []\<rparr>) = (Inr [sample_claimed], ?w\<lparr>sim_faults := []\<rparr>)" by simp
    show "plain_names sample_claimed [sample_owner]" by (simp add: plain_names_def bar_free_def sample_owner_def sample_spec_def)
    show "nl \<notin> set (zst_Serial (z_Status sample_claimed))" by (simp add: sample_zone_def)
  qed (simp_all add: own_key_def)
  then show ?thesis using run by (auto simp: name sample_zone_def)
qed

end
