(* ===== verification/Shared_Store.thy ===== *)
theory Shared_Store
  imports Kube_Api
begin

text \<open>
  The CoreDNS objects as they are shared with other writers: an administrator who edits the
  Corefile, a controller that scales the Deployment. Between any two calls of the client others may
  have written. The API server stores an update only if the object has the version its sender was last
  given (optimistic concurrency); the code never touches \<^verbatim>\<open>resourceVersion\<close>, and always sends back
  the object it was given last. \<open>shared_store\<close> states this of the history of what is stored and
  of what the client was given, with the writes of others restricted by a relation, in the way of
  rely and guarantee. A client with scheduled edits of others satisfies it (\<open>shared_client\<close>).
\<close>

section \<open>Histories with several writers\<close>

datatype writer = Operator | Other

text \<open>An entry of the history: who acted, the objects stored now, and each object as the client was last given it.\<close>

record 's view =
  v_by :: writer
  v_now :: 's
  v_seen :: 's

definition shared_step :: "('s \<Rightarrow> 's \<Rightarrow> bool) \<Rightarrow> ('s \<Rightarrow> 's \<Rightarrow> bool) \<Rightarrow> 's view \<Rightarrow> 's view \<Rightarrow> bool" where
  "shared_step rely own v v' \<longleftrightarrow>
     (case v_by v' of
        Other \<Rightarrow> rely (v_now v) (v_now v') \<and> v_seen v' = v_seen v
      | Operator \<Rightarrow> own (v_now v) (v_now v'))"

definition drifts :: "('s \<Rightarrow> 's \<Rightarrow> bool) \<Rightarrow> 's view list \<Rightarrow> 's view list \<Rightarrow> bool" where
  "drifts rely = grows (\<lambda>v v'. v_by v' = Other \<and> rely (v_now v) (v_now v') \<and> v_seen v' = v_seen v)"

lemma drifts_refl [simp, intro]: "drifts rely h h"
  by (simp add: drifts_def)

lemma drifts_trans: "drifts rely h h' \<Longrightarrow> drifts rely h' h'' \<Longrightarrow> drifts rely h h''"
  unfolding drifts_def by (rule grows_trans)

lemma drifts_step: "drifts rely h h' \<Longrightarrow> rely (v_now (hd h')) s \<Longrightarrow>
    drifts rely h (\<lparr>v_by = Other, v_now = s, v_seen = v_seen (hd h')\<rparr> # h')"
  unfolding drifts_def by (rule grows_step) simp_all

lemma grows_mono: "grows R h h' \<Longrightarrow> (\<And>s s'. R s s' \<Longrightarrow> R' s s') \<Longrightarrow> grows R' h h'"
  by (induction rule: grows.induct) (auto intro: grows_step)

lemma drifts_seen: "drifts rely h h' \<Longrightarrow> v_seen (hd h') = v_seen (hd h)"
  unfolding drifts_def by (induction rule: grows.induct) auto

lemma drifts_grows: "drifts rely h h' \<Longrightarrow> grows (shared_step rely own) h h'"
  unfolding drifts_def by (erule grows_mono) (simp add: shared_step_def)

text \<open>An assertion that no step of the others breaks survives a drift.\<close>

lemma drifts_stable:
  "drifts rely h h' \<Longrightarrow> Q (v_now (hd h)) \<Longrightarrow> (\<And>s s'. Q s \<Longrightarrow> rely s s' \<Longrightarrow> Q s') \<Longrightarrow> Q (v_now (hd h'))"
  unfolding drifts_def by (induction rule: grows.induct) auto

section \<open>What the code relies on\<close>

definition shared_reads ::
    "('w \<Rightarrow> 's view list) \<Rightarrow> ('s \<Rightarrow> 's \<Rightarrow> bool) \<Rightarrow> ('s \<Rightarrow> 'a) \<Rightarrow> ('a \<Rightarrow> 's \<Rightarrow> 's) \<Rightarrow> ('w \<Rightarrow> ('e + 'a) \<times> 'w) \<Rightarrow> bool" where
  "shared_reads states rely part put f \<longleftrightarrow>
     (\<forall>w. \<exists>h. drifts rely (states w) h \<and>
        (case f w of
           (Inl _, w') \<Rightarrow> states w' = h
         | (Inr x, w') \<Rightarrow> x = part (v_now (hd h)) \<and>
             (states w' = \<lparr>v_by = Operator, v_now = v_now (hd h), v_seen = put x (v_seen (hd h))\<rparr> # h
              \<or> (states w' = h \<and> put x (v_seen (hd h)) = v_seen (hd h)))))"

text \<open>A write takes effect only if the object is the one the client was given; one that reports an error may
  have taken effect, and nothing is said of what the client was given then.\<close>

definition shared_writes ::
    "('w \<Rightarrow> 's view list) \<Rightarrow> ('s \<Rightarrow> 's \<Rightarrow> bool) \<Rightarrow> ('s \<Rightarrow> 'a) \<Rightarrow> ('a \<Rightarrow> 's \<Rightarrow> 's) \<Rightarrow> ('a \<Rightarrow> 'w \<Rightarrow> ('e + 'a) \<times> 'w) \<Rightarrow> bool" where
  "shared_writes states rely part put f \<longleftrightarrow>
     (\<forall>x w. \<exists>h. drifts rely (states w) h \<and>
        (case f x w of
           (Inl _, w') \<Rightarrow> states w' = h \<or>
             (part (v_now (hd h)) = part (v_seen (hd h)) \<and>
              (\<exists>given. states w' = \<lparr>v_by = Operator, v_now = put x (v_now (hd h)), v_seen = given\<rparr> # h))
         | (Inr y, w') \<Rightarrow> y = x \<and> part (v_now (hd h)) = part (v_seen (hd h)) \<and>
              states w' = \<lparr>v_by = Operator, v_now = put x (v_now (hd h)), v_seen = put x (v_seen (hd h))\<rparr> # h))"

type_synonym shared_history = "coredns_state view list"

definition shared_store ::
    "'w client \<Rightarrow> ('w \<Rightarrow> shared_history) \<Rightarrow> (coredns_state \<Rightarrow> coredns_state \<Rightarrow> bool) \<Rightarrow> bool" where
  "shared_store c states rely \<longleftrightarrow>
     (\<forall>w. states w \<noteq> [])
     \<and> (\<forall>ns n. shared_reads states rely fst (\<lambda>cm s. (cm, snd s)) (get_configmap c ns n))
     \<and> (\<forall>ns n. shared_reads states rely snd (\<lambda>d s. (fst s, d)) (get_deployment c ns n))
     \<and> shared_writes states rely fst (\<lambda>cm s. (cm, snd s)) (update_configmap c)
     \<and> shared_writes states rely snd (\<lambda>d s. (fst s, d)) (update_deployment c)
     \<and> carries (drifts rely) states (list_zones c) \<and> carries (drifts rely) states (list_records c)
     \<and> (\<forall>z. carries (drifts rely) states (update_zone c z))
     \<and> (\<forall>z. carries (drifts rely) states (patch_zone_status c z))
     \<and> (\<forall>r. carries (drifts rely) states (patch_record_status c r))"

lemma shared_storeD:
  assumes "shared_store c states rely"
  shows "states w \<noteq> []"
    and "shared_reads states rely fst (\<lambda>cm s. (cm, snd s)) (get_configmap c ns n)"
    and "shared_reads states rely snd (\<lambda>d s. (fst s, d)) (get_deployment c ns n)"
    and "shared_writes states rely fst (\<lambda>cm s. (cm, snd s)) (update_configmap c)"
    and "shared_writes states rely snd (\<lambda>d s. (fst s, d)) (update_deployment c)"
    and "carries (drifts rely) states (list_zones c)" and "carries (drifts rely) states (list_records c)"
    and "carries (drifts rely) states (update_zone c z)" and "carries (drifts rely) states (patch_zone_status c z)"
    and "carries (drifts rely) states (patch_record_status c r)"
  using assms unfolding shared_store_def by blast+

lemma shared_carries: "shared_store c states rely \<Longrightarrow> carries_status (drifts rely) states c"
  unfolding shared_store_def carries_status_def using drifts_trans by blast

lemma shared_own: "own (v_now (hd h)) s' \<Longrightarrow> grows (shared_step rely own) h0 h \<Longrightarrow>
    grows (shared_step rely own) h0 (\<lparr>v_by = Operator, v_now = s', v_seen = e\<rparr> # h)"
  by (rule grows_step) (simp_all add: shared_step_def)

lemma shared_readsE:
  assumes "shared_reads states rely part put f" and "f w = (r, w')"
  obtains h e where "drifts rely (states w) h" "r = Inl e" "states w' = h"
  | h x where "drifts rely (states w) h" "r = Inr x" "x = part (v_now (hd h))"
      "v_now (hd (states w')) = v_now (hd h)" "v_seen (hd (states w')) = put x (v_seen (hd h))"
      "\<And>own. own (v_now (hd h)) (v_now (hd h)) \<Longrightarrow> grows (shared_step rely own) (states w) (states w')"
proof -
  obtain h where h: "drifts rely (states w) h"
    "case r of Inl _ \<Rightarrow> states w' = h
     | Inr x \<Rightarrow> x = part (v_now (hd h)) \<and>
         (states w' = \<lparr>v_by = Operator, v_now = v_now (hd h), v_seen = put x (v_seen (hd h))\<rparr> # h
          \<or> (states w' = h \<and> put x (v_seen (hd h)) = v_seen (hd h)))"
    using assms(1) [unfolded shared_reads_def, THEN spec [of _ w]] unfolding assms(2) prod.case sum.case
    by (cases r) auto
  have g: "grows (shared_step rely own) (states w) (\<lparr>v_by = Operator, v_now = v_now (hd h), v_seen = e\<rparr> # h)"
    if "own (v_now (hd h)) (v_now (hd h))" for own e
    by (rule shared_own, rule that, rule drifts_grows, rule h(1))
  show ?thesis
  proof (cases r)
    case (Inl e)
    then show ?thesis using that(1) h by simp
  next
    case (Inr x)
    have x: "x = part (v_now (hd h))" using h(2) by (simp add: Inr)
    have "states w' = \<lparr>v_by = Operator, v_now = v_now (hd h), v_seen = put x (v_seen (hd h))\<rparr> # h
        \<or> (states w' = h \<and> put x (v_seen (hd h)) = v_seen (hd h))"
      using h(2) unfolding Inr sum.case by (rule conjunct2)
    then show ?thesis
    proof
      assume w': "states w' = \<lparr>v_by = Operator, v_now = v_now (hd h), v_seen = put x (v_seen (hd h))\<rparr> # h"
      show ?thesis by (rule that(2) [OF h(1) Inr x]) (use g in \<open>simp_all add: w'\<close>)
    next
      assume w': "states w' = h \<and> put x (v_seen (hd h)) = v_seen (hd h)"
      show ?thesis by (rule that(2) [OF h(1) Inr x]) (use w' drifts_grows [OF h(1)] in simp_all)
    qed
  qed
qed

lemma shared_writesE:
  assumes "shared_writes states rely part put f" and "f x w = (r, w')"
  obtains h e where "drifts rely (states w) h" "r = Inl e" "states w' = h"
  | h given where "drifts rely (states w) h" "part (v_now (hd h)) = part (v_seen (hd h))"
      "states w' = \<lparr>v_by = Operator, v_now = put x (v_now (hd h)), v_seen = given\<rparr> # h"
      "\<And>y. r = Inr y \<Longrightarrow> y = x \<and> given = put x (v_seen (hd h))"
proof -
  obtain h where h: "drifts rely (states w) h"
    "case r of Inl _ \<Rightarrow> states w' = h \<or> (part (v_now (hd h)) = part (v_seen (hd h)) \<and>
              (\<exists>given. states w' = \<lparr>v_by = Operator, v_now = put x (v_now (hd h)), v_seen = given\<rparr> # h))
     | Inr y \<Rightarrow> y = x \<and> part (v_now (hd h)) = part (v_seen (hd h)) \<and>
              states w' = \<lparr>v_by = Operator, v_now = put x (v_now (hd h)), v_seen = put x (v_seen (hd h))\<rparr> # h"
    using assms(1) [unfolded shared_writes_def, THEN spec [of _ x], THEN spec [of _ w]] unfolding assms(2) prod.case
    by (cases r) auto
  show ?thesis using that h by (cases r) auto
qed

section \<open>Without others\<close>

text \<open>The history of a client no one interferes with, in which what is stored is what the client was given.\<close>

definition unshared :: "('w \<Rightarrow> 's list) \<Rightarrow> 'w \<Rightarrow> 's view list" where
  "unshared states w = map (\<lambda>s. \<lparr>v_by = Operator, v_now = s, v_seen = s\<rparr>) (states w)"

lemma hd_unshared: "states w \<noteq> [] \<Longrightarrow> hd (unshared states w) = \<lparr>v_by = Operator, v_now = hd (states w), v_seen = hd (states w)\<rparr>"
  by (cases "states w") (simp_all add: unshared_def)

lemma quiet_unshared: "quiet states f \<Longrightarrow> carries (drifts rely) (unshared states) f"
  by (simp add: carries_def quiet_def unshared_def)

lemma reads_unshared:
  assumes "reads states part f" and "\<And>w. states w \<noteq> []" and "\<And>s. put (part s) s = s"
  shows "shared_reads (unshared states) rely part put f"
  unfolding shared_reads_def
proof
  fix w
  obtain r w' where f: "f w = (r, w')" by (rule prod.exhaust)
  have "states w' = states w" using assms(1) f unfolding reads_def by (metis quietD)
  then have w': "unshared states w' = unshared states w" by (simp add: unshared_def)
  have "x = part (hd (states w))" if "r = Inr x" for x using assms(1) f that unfolding reads_def by (metis fst_conv)
  then show "\<exists>h. drifts rely (unshared states w) h \<and>
        (case f w of
           (Inl _, w') \<Rightarrow> unshared states w' = h
         | (Inr x, w') \<Rightarrow> x = part (v_now (hd h)) \<and>
             (unshared states w' = \<lparr>v_by = Operator, v_now = v_now (hd h), v_seen = put x (v_seen (hd h))\<rparr> # h
              \<or> (unshared states w' = h \<and> put x (v_seen (hd h)) = v_seen (hd h))))"
    by (intro exI [of _ "unshared states w"], cases r)
      (simp_all add: f w' hd_unshared [where states = states, OF assms(2)] assms(3))
qed

lemma writes_unshared:
  assumes "writes states put f" and "\<And>w. states w \<noteq> []"
  shows "shared_writes (unshared states) rely part put f"
  unfolding shared_writes_def
proof (intro allI)
  fix x w
  obtain r w' where f: "f x w = (r, w')" by (rule prod.exhaust)
  note W = writesD [OF assms(1) f]
  have w': "unshared states w' = unshared states w \<and> isl r
      \<or> unshared states w' = \<lparr>v_by = Operator, v_now = put x (hd (states w)), v_seen = put x (hd (states w))\<rparr> # unshared states w"
    using W by (auto simp: stored_def unshared_def)
  show "\<exists>h. drifts rely (unshared states w) h \<and>
        (case f x w of
           (Inl _, w') \<Rightarrow> unshared states w' = h \<or>
             (part (v_now (hd h)) = part (v_seen (hd h)) \<and>
              (\<exists>given. unshared states w' = \<lparr>v_by = Operator, v_now = put x (v_now (hd h)), v_seen = given\<rparr> # h))
         | (Inr y, w') \<Rightarrow> y = x \<and> part (v_now (hd h)) = part (v_seen (hd h)) \<and>
              unshared states w' = \<lparr>v_by = Operator, v_now = put x (v_now (hd h)), v_seen = put x (v_seen (hd h))\<rparr> # h)"
    by (intro exI [of _ "unshared states w"]) (use w' W in \<open>auto simp: f hd_unshared [where states = states, OF assms(2)] split: sum.split\<close>)
qed

text \<open>A store that no one else writes is a shared store, whatever the others would be allowed to do.\<close>

lemma lawful_shared:
  assumes "lawful_store c states"
  shows "shared_store c (unshared states) rely"
  using assms unfolding lawful_store_def shared_store_def
  by (auto intro!: quiet_unshared reads_unshared writes_unshared simp: unshared_def [of states])

end
