(* ===== verification/Shared_Commit.thy ===== *)
theory Shared_Commit
  imports Controller_History Shared_Store
begin

text \<open>
  \<^verbatim>\<open>commitCoreDNS\<close> while others write the same two objects. The others are asked to leave alone what
  the operator owns and not to break the mounts themselves (\<open>respectful\<close>); the operator in
  turn leaves alone what it does not own (\<open>leaves_others\<close>), so that no edit of the others is lost. The
  assertions between the writes are ones the others cannot break (\<open>in_step\<close>).
\<close>

section \<open>The others\<close>

abbreviation managed_of :: "ConfigMap \<Rightarrow> string set" where
  "managed_of cm \<equiv> set (ManagedZoneKeys cm)"

abbreviation annotation_of :: "ConfigMap \<Rightarrow> string" where
  "annotation_of cm \<equiv> get_or_empty (cm_Annotations cm) ManagedZoneKeysAnnotation"

text \<open>The explicit items, as far as the keys of a set are concerned.\<close>

definition same_items :: "string set \<Rightarrow> string set option \<Rightarrow> string set option \<Rightarrow> bool" where
  "same_items M items items' \<longleftrightarrow>
     (case (items, items') of
        (None, None) \<Rightarrow> True
      | (Some I, Some J) \<Rightarrow> I \<inter> M = J \<inter> M
      | _ \<Rightarrow> False)"

text \<open>
  What another writer may do: it leaves the annotation, the managed keys and the stanzas of the block,
  names no zone file in the Corefile and no file that is not there, mounts no key that is not
  there, and does not change which managed keys are mounted.
\<close>

definition respectful :: "string \<Rightarrow> coredns_state \<Rightarrow> coredns_state \<Rightarrow> bool" where
  "respectful name s s' \<longleftrightarrow>
     annotation_of (fst s') = annotation_of (fst s)
     \<and> (\<forall>k \<in> managed_of (fst s). map_of (cm_Data (fst s')) k = map_of (cm_Data (fst s)) k)
     \<and> corefile_of (fst s') \<noteq> [] \<and> block_fit (corefile_of (fst s'))
     \<and> ExtractZoneBlocks (corefile_of (fst s')) = ExtractZoneBlocks (corefile_of (fst s))
     \<and> (\<forall>f \<in> named_files (corefile_of (fst s')).
          (f \<in> named_files (corefile_of (fst s)) \<or> \<not> zone_key f)
          \<and> (f \<in> managed_of (fst s) \<or> visible (layout_of name s') f))
     \<and> (\<forall>f \<in> named_files (outside_block (corefile_of (fst s'))). \<not> zone_key f \<and> visible (layout_of name s') f)
     \<and> same_items (managed_of (fst s)) (items_of name (snd s)) (items_of name (snd s'))
     \<and> (\<forall>J. items_of name (snd s') = Some J \<longrightarrow> J \<subseteq> dom (map_of (cm_Data (fst s'))))"

definition cautious :: "string \<Rightarrow> coredns_state \<Rightarrow> coredns_state \<Rightarrow> bool" where
  "cautious name s s' \<longleftrightarrow> (stable name s \<longrightarrow> respectful name s s')"

lemma ManagedZoneKeys_annotation: "annotation_of cm' = annotation_of cm \<Longrightarrow> ManagedZoneKeys cm' = ManagedZoneKeys cm"
  by (simp add: ManagedZoneKeys_def)

lemma layout_simps [simp]:
  "l_data (layout_of name s) = dom (map_of (cm_Data (fst s)))" "l_items (layout_of name s) = items_of name (snd s)"
  "l_text (layout_of name s) = corefile_of (fst s)" "l_managed (layout_of name s) = managed_of (fst s)"
  by (simp_all add: layout_of_def)

lemma visible_iff:
  "visible (layout_of name s) f \<longleftrightarrow> f \<in> dom (map_of (cm_Data (fst s))) \<and> (\<forall>I. items_of name (snd s) = Some I \<longrightarrow> f \<in> I)"
  by (simp add: visible_def split: option.splits)

lemma stableD:
  assumes "stable name s"
  shows "safe (layout_of name s)" and "coherent name s" and "block_fit (corefile_of (fst s))" and "corefile_of (fst s) \<noteq> []"
    and "k \<in> managed_of (fst s) \<Longrightarrow> zone_key k"
    and "f \<in> named_files (outside_block (corefile_of (fst s))) \<Longrightarrow> \<not> zone_key f \<and> visible (layout_of name s) f"
  using assms unfolding stable_def coherent_def by blast+

text \<open>What a safe layout says of the stored objects.\<close>

lemma safe_layout_iff:
  "safe (layout_of name s) \<longleftrightarrow>
     (\<forall>I. items_of name (snd s) = Some I \<longrightarrow> I \<subseteq> dom (map_of (cm_Data (fst s))))
     \<and> (\<forall>f \<in> named_files (corefile_of (fst s)). visible (layout_of name s) f)
     \<and> managed_of (fst s) \<subseteq> dom (map_of (cm_Data (fst s)))"
  by (simp add: safe_def)

lemma respectful_stable:
  assumes "stable name s" and "respectful name s s'"
  shows "stable name s'"
proof -
  have m: "ManagedZoneKeys (fst s') = ManagedZoneKeys (fst s)"
    using assms(2) by (intro ManagedZoneKeys_annotation) (simp add: respectful_def)
  note safe = stableD(1) [OF assms(1), unfolded safe_layout_iff]
  have R: "\<forall>k \<in> managed_of (fst s). map_of (cm_Data (fst s')) k = map_of (cm_Data (fst s)) k"
    "corefile_of (fst s') \<noteq> []" "block_fit (corefile_of (fst s'))"
    "ExtractZoneBlocks (corefile_of (fst s')) = ExtractZoneBlocks (corefile_of (fst s))"
    "\<forall>f \<in> named_files (corefile_of (fst s')). (f \<in> named_files (corefile_of (fst s)) \<or> \<not> zone_key f)
          \<and> (f \<in> managed_of (fst s) \<or> visible (layout_of name s') f)"
    "\<forall>f \<in> named_files (outside_block (corefile_of (fst s'))). \<not> zone_key f \<and> visible (layout_of name s') f"
    "same_items (managed_of (fst s)) (items_of name (snd s)) (items_of name (snd s'))"
    "\<forall>J. items_of name (snd s') = Some J \<longrightarrow> J \<subseteq> dom (map_of (cm_Data (fst s')))"
    using assms(2) unfolding respectful_def by blast+
  have data: "managed_of (fst s) \<subseteq> dom (map_of (cm_Data (fst s')))"
    using safe R(1) by (auto simp: dom_def)
  have "visible (layout_of name s') f" if f: "f \<in> named_files (corefile_of (fst s'))" for f
  proof (cases "f \<in> managed_of (fst s)")
    case True
    then have "f \<in> named_files (corefile_of (fst s))" using R(5) f stableD(5) [OF assms(1)] by blast
    then have "visible (layout_of name s) f" using safe by blast
    then show ?thesis using True R(7) data by (auto simp: visible_iff same_items_def split: option.splits)
  qed (use R(5) f in blast)
  then have s': "safe (layout_of name s')" using data R(8) unfolding safe_layout_iff m by blast
  have "block_owned (fst s')" "corefileKey \<notin> managed_of (fst s')"
    using stableD(2) [OF assms(1)] R(4) by (simp_all add: coherent_def block_owned_def m)
  moreover have "\<forall>f \<in> named_files (outside_block (corefile_of (fst s'))). f \<notin> managed_of (fst s') \<and> visible (layout_of name s') f"
    using R(6) stableD(5) [OF assms(1)] unfolding m by blast
  ultimately show ?thesis
    using s' R(2,3,6) stableD(5) [OF assms(1)] unfolding stable_def coherent_def m by blast
qed

section \<open>The operator\<close>

text \<open>
  What the operator leaves alone: the keys that are not zone files, the text outside the block, the other
  annotations, the other volumes, and it unmounts no key that is not a zone file.
\<close>

definition leaves_others :: "string \<Rightarrow> coredns_state \<Rightarrow> coredns_state \<Rightarrow> bool" where
  "leaves_others name s s' \<longleftrightarrow>
     (\<forall>k. k \<noteq> corefileKey \<longrightarrow> \<not> zone_key k \<longrightarrow> map_of (cm_Data (fst s')) k = map_of (cm_Data (fst s)) k)
     \<and> outside_block (corefile_of (fst s')) = outside_block (corefile_of (fst s))
     \<and> (map_of (cm_Annotations (fst s')))(ManagedZoneKeysAnnotation := None)
         = (map_of (cm_Annotations (fst s)))(ManagedZoneKeysAnnotation := None)
     \<and> filter (\<lambda>v. \<not> mounts name v) (dp_Volumes (snd s')) = filter (\<lambda>v. \<not> mounts name v) (dp_Volumes (snd s))
     \<and> (\<forall>I J. items_of name (snd s) = Some I \<longrightarrow> items_of name (snd s') = Some J \<longrightarrow> {k \<in> I. \<not> zone_key k} \<subseteq> J)"

definition own_step :: "string \<Rightarrow> coredns_state \<Rightarrow> coredns_state \<Rightarrow> bool" where
  "own_step name s s' \<longleftrightarrow> stable name s' \<and> leaves_others name s s'"

lemma own_step_refl: "stable name s \<Longrightarrow> own_step name s s"
  unfolding own_step_def leaves_others_def by (intro conjI allI impI) simp_all

section \<open>Assertions the others cannot break\<close>

text \<open>The operator's part of the stored ConfigMap is the one of a given ConfigMap.\<close>

definition agrees :: "ConfigMap \<Rightarrow> ConfigMap \<Rightarrow> bool" where
  "agrees cm c \<longleftrightarrow>
     annotation_of c = annotation_of cm
     \<and> (\<forall>k \<in> managed_of cm. map_of (cm_Data c) k = map_of (cm_Data cm) k)
     \<and> ExtractZoneBlocks (corefile_of c) = ExtractZoneBlocks (corefile_of cm)
     \<and> (\<forall>f \<in> named_files (corefile_of c). zone_key f \<longrightarrow> f \<in> named_files (corefile_of cm))"

lemma agrees_refl [simp]: "agrees cm cm"
  by (simp add: agrees_def)

lemma agrees_managed: "agrees cm c \<Longrightarrow> ManagedZoneKeys c = ManagedZoneKeys cm"
  by (rule ManagedZoneKeys_annotation) (simp add: agrees_def)

lemma agrees_respectful: "agrees cm (fst s) \<Longrightarrow> respectful name s s' \<Longrightarrow> agrees cm (fst s')"
  using agrees_managed [of cm "fst s"] unfolding agrees_def respectful_def by (metis (no_types, lifting))

text \<open>Between the writes: a stable state with the operator's part of \<open>cm\<close> and, if \<open>X\<close> is given, exactly the
  managed keys \<open>X\<close> among the explicit items.\<close>

definition in_step :: "string \<Rightarrow> ConfigMap \<Rightarrow> string set option \<Rightarrow> coredns_state \<Rightarrow> bool" where
  "in_step name cm X s \<longleftrightarrow>
     stable name s \<and> agrees cm (fst s)
     \<and> (\<forall>Y I. X = Some Y \<longrightarrow> items_of name (snd s) = Some I \<longrightarrow> I \<inter> managed_of cm = Y)"

lemma in_step_cautious:
  assumes "in_step name cm X s" and "cautious name s s'"
  shows "in_step name cm X s'"
proof -
  have st: "stable name s" "agrees cm (fst s)" and r: "respectful name s s'"
    using assms by (simp_all add: in_step_def cautious_def)
  have "same_items (managed_of cm) (items_of name (snd s)) (items_of name (snd s'))"
    using r unfolding respectful_def agrees_managed [OF st(2)] by blast
  then show ?thesis
    using assms(1) respectful_stable [OF st(1) r] agrees_respectful [OF st(2) r]
    by (auto simp: in_step_def same_items_def split: option.splits)
qed

abbreviation sees :: "ConfigMap \<Rightarrow> (coredns_state \<Rightarrow> bool) \<Rightarrow> coredns_state view \<Rightarrow> bool" where
  "sees cm Q v \<equiv> fst (v_seen v) = cm \<and> Q (v_now v)"

section \<open>The two kinds of write\<close>

lemma updateIfChanged_shared:
  assumes law: "shared_store (Client r) states rely"
    and stab: "\<And>s s'. Q s \<Longrightarrow> rely s s' \<Longrightarrow> Q s'"
    and put: "\<And>d. Q (cm, d) \<Longrightarrow> own (cm, d) (cm', d) \<and> Q' (cm', d)"
    and skip: "\<not> ch \<Longrightarrow> cm' = cm \<and> (\<forall>s. Q s \<longrightarrow> Q' s)"
  shows "follows states (shared_step rely own) (sees cm Q) (updateIfChanged r ch cm') (\<lambda>x v. x = cm' \<and> sees cm' Q' v)"
  unfolding follows_def
proof (intro allI impI)
  fix w res w'
  assume pre: "sees cm Q (hd (states w))" and run: "updateIfChanged r ch cm' w = (res, w')"
  show "grows (shared_step rely own) (states w) (states w') \<and> (\<forall>x. res = Inr x \<longrightarrow> x = cm' \<and> sees cm' Q' (hd (states w')))"
  proof (cases ch)
    case False
    then have "res = Inr cm'" "w' = w" using run by (simp_all add: updateIfChanged_def)
    then show ?thesis using pre skip [OF False] by blast
  next
    case True
    obtain u w1 where u: "update_configmap (Client r) cm' w = (u, w1)" by (rule prod.exhaust)
    have r: "w' = w1" "res = (case u of Inl e \<Rightarrow> Inl (ApiError e) | Inr x \<Rightarrow> Inr x)"
      using run True u by (auto simp: updateIfChanged_def split: sum.splits)
    show ?thesis
    proof (rule shared_writesE [OF shared_storeD(4) [OF law] u])
      fix h e assume h: "drifts rely (states w) h" and "u = Inl e" "states w1 = h"
      then show ?thesis using drifts_grows [OF h] by (simp add: r)
    next
      fix h given assume h: "drifts rely (states w) h" and now: "fst (v_now (hd h)) = fst (v_seen (hd h))"
        and w1: "states w1 = \<lparr>v_by = Operator, v_now = (cm', snd (v_now (hd h))), v_seen = given\<rparr> # h"
        and y: "\<And>y. u = Inr y \<Longrightarrow> y = cm' \<and> given = (cm', snd (v_seen (hd h)))"
      have q: "Q (v_now (hd h))" by (rule drifts_stable [where Q = Q, OF h]) (use pre stab in blast)+
      have "fst (v_now (hd h)) = cm" using now drifts_seen [OF h] pre by simp
      then have eq: "v_now (hd h) = (cm, snd (v_now (hd h)))" by (metis prod.collapse)
      then have "own (v_now (hd h)) (cm', snd (v_now (hd h))) \<and> Q' (cm', snd (v_now (hd h)))"
        using put q by metis
      then show ?thesis using shared_own [OF _ drifts_grows [OF h]] y unfolding r w1 by (cases u) auto
    qed
  qed
qed

lemma setVolumeItems_shared:
  assumes law: "shared_store (Client r) states rely" and ordK: "is_order ordK" and name: "name = CoreDNSConfigMap r"
    and stab: "\<And>s s'. Q s \<Longrightarrow> rely s s' \<Longrightarrow> Q s'"
    and refl: "\<And>s. Q s \<Longrightarrow> own s s"
    and same: "\<And>c d. Q (c, d) \<Longrightarrow> items_of name d = remount (set M) (set P) (items_of name d) \<Longrightarrow> Q' (c, d)"
    and put: "\<And>c d d'. Q (c, d) \<Longrightarrow> items_of name d' = remount (set M) (set P) (items_of name d) \<Longrightarrow>
        filter (\<lambda>v. \<not> mounts name v) (dp_Volumes d') = filter (\<lambda>v. \<not> mounts name v) (dp_Volumes d) \<Longrightarrow>
        own (c, d) (c, d') \<and> Q' (c, d')"
  shows "follows states (shared_step rely own) (sees cm Q) (setVolumeItems r ordK M P restart hash) (\<lambda>_. sees cm Q')"
  unfolding follows_def
proof (intro allI impI)
  fix w res w'
  assume pre: "sees cm Q (hd (states w))" and run: "setVolumeItems r ordK M P restart hash w = (res, w')"
  obtain g w1 where g: "get_deployment (Client r) (CoreDNSNamespace r) (CoreDNSDeployment r) w = (g, w1)" by (rule prod.exhaust)
  show "grows (shared_step rely own) (states w) (states w') \<and> (\<forall>x. res = Inr x \<longrightarrow> sees cm Q' (hd (states w')))"
  proof (rule shared_readsE [OF shared_storeD(3) [OF law] g])
    fix h e assume h: "drifts rely (states w) h" and "g = Inl e" "states w1 = h"
    moreover from this have "setVolumeItems r ordK M P restart hash w = (Inl (ApiError e), w1)"
      using g by (simp add: setVolumeItems_def)
    ultimately show ?thesis using drifts_grows [OF h] run by auto
  next
    fix h d assume h: "drifts rely (states w) h" and gd: "g = Inr d" "d = snd (v_now (hd h))"
      and w1: "v_now (hd (states w1)) = v_now (hd h)" "v_seen (hd (states w1)) = (fst (v_seen (hd h)), d)"
        "\<And>own. own (v_now (hd h)) (v_now (hd h)) \<Longrightarrow> grows (shared_step rely own) (states w) (states w1)"
    have q: "Q (v_now (hd h))" by (rule drifts_stable [where Q = Q, OF h]) (use pre stab in blast)+
    note seen = drifts_seen [OF h]
    have g1: "grows (shared_step rely own) (states w) (states w1)"
      by (rule w1(3), rule refl, rule q)
    have now1: "v_now (hd (states w1)) = (fst (v_now (hd h)), d)" "v_seen (hd (states w1)) = (cm, d)"
      using gd seen pre by (simp_all add: w1)
    show ?thesis
    proof (cases "EnsureZoneVolumeItems ordK d name M P")
      case (Inl e)
      then have "setVolumeItems r ordK M P restart hash w = (Inl (GoError e), w1)"
        using g gd by (simp add: setVolumeItems_def name)
      then show ?thesis using g1 run by auto
    next
      case E: (Inr p)
      obtain ch d1 where p: "p = (ch, d1)" by (rule prod.exhaust)
      note items = items_of_ensure [OF E [unfolded p] ordK]
      obtain its where vols: "filter (\<lambda>v. \<not> mounts name v) (dp_Volumes d1) = filter (\<lambda>v. \<not> mounts name v) (dp_Volumes d)"
        using EnsureZoneVolumeItems_Inr [OF E [unfolded p]] by metis
      define ch' d2 where "ch' = (restart \<or> ch)"
        and "d2 = (if restart then MarkRolloutRestart d1 ''private-dns-zone-change'' hash else d1)"
      have d2: "items_of name d2 = remount (set M) (set P) (items_of name d)"
        "filter (\<lambda>v. \<not> mounts name v) (dp_Volumes d2) = filter (\<lambda>v. \<not> mounts name v) (dp_Volumes d)"
        using items(1) vols by (simp_all add: d2_def items_of_def frame_simps)
      show ?thesis
      proof (cases ch')
        case False
        then have r: "res = Inr (d2, ch')" "w' = w1"
          using run g gd E p by (auto simp: setVolumeItems_def name ch'_def d2_def)
        have "items_of name d = remount (set M) (set P) (items_of name d)" using False items(2) by (simp add: ch'_def)
        then have "Q' (v_now (hd (states w1)))" using same q gd(2) unfolding now1 by (metis prod.collapse)
        then show ?thesis using g1 now1(2) by (simp add: r)
      next
        case True
        obtain u w2 where u: "update_deployment (Client r) d2 w1 = (u, w2)" by (rule prod.exhaust)
        have r: "w' = w2" "res = (case u of Inl e \<Rightarrow> Inl (ApiError e) | Inr x \<Rightarrow> Inr (x, ch'))"
          using run g gd E p u True by (cases restart; auto simp: setVolumeItems_def name ch'_def d2_def split: sum.splits)+
        have q1: "Q (v_now (hd (states w1)))" using q gd by (simp add: w1)
        show ?thesis
        proof (rule shared_writesE [OF shared_storeD(5) [OF law] u])
          fix h2 e assume h2: "drifts rely (states w1) h2" and "u = Inl e" "states w2 = h2"
          then show ?thesis using grows_trans [OF g1 drifts_grows [OF h2]] by (simp add: r)
        next
          fix h2 given assume h2: "drifts rely (states w1) h2" and now: "snd (v_now (hd h2)) = snd (v_seen (hd h2))"
            and w2: "states w2 = \<lparr>v_by = Operator, v_now = (fst (v_now (hd h2)), d2), v_seen = given\<rparr> # h2"
            and y: "\<And>y. u = Inr y \<Longrightarrow> y = d2 \<and> given = (fst (v_seen (hd h2)), d2)"
          have q2: "Q (v_now (hd h2))" by (rule drifts_stable [where Q = Q, OF h2 q1]) (rule stab)
          note seen2 = drifts_seen [OF h2]
          have eq: "v_now (hd h2) = (fst (v_now (hd h2)), d)" using now seen2 now1(2) by (metis prod.collapse snd_conv)
          then have "own (v_now (hd h2)) (fst (v_now (hd h2)), d2) \<and> Q' (fst (v_now (hd h2)), d2)"
            using put [OF _ d2] q2 by metis
          then show ?thesis
            using shared_own [OF _ grows_trans [OF g1 drifts_grows [OF h2]]] seen2 now1(2) y unfolding r w2 by (cases u) auto
        qed
      qed
    qed
  qed
qed

section \<open>The next output\<close>

text \<open>What a pass over \<open>cm\<close> commits: zone files, and a Corefile that names them or what was named outside the
  block; a layout on the way to it (\<open>passing\<close>) is the layout of a stable state.\<close>

definition next_output :: "string \<Rightarrow> ConfigMap \<Rightarrow> string \<Rightarrow> (string, string) gomap \<Rightarrow> bool" where
  "next_output name cm corefile zoneFiles \<longleftrightarrow>
     corefile \<noteq> [] \<and> distinct (map fst zoneFiles) \<and> (\<forall>k \<in> keys_of zoneFiles. zone_key k)
     \<and> (\<forall>k \<in> managed_of cm. zone_key k)
     \<and> (\<forall>f \<in> named_files (outside_block (corefile_of cm)). \<not> zone_key f)
     \<and> named_files corefile \<subseteq> named_files (outside_block (corefile_of cm)) \<union> keys_of zoneFiles
     \<and> outside_block corefile = outside_block (corefile_of cm)
     \<and> (\<forall>s. passing (managed_of cm) (keys_of zoneFiles) (corefile_of cm) corefile
              (named_files (outside_block (corefile_of cm))) (layout_of name s) \<longrightarrow>
            stable name s \<and> outside_block (corefile_of (fst s)) = outside_block (corefile_of cm))"

lemma next_outputD:
  assumes "next_output name cm corefile zoneFiles"
  shows "corefile \<noteq> []" and "distinct (map fst zoneFiles)" and "\<forall>k \<in> keys_of zoneFiles. zone_key k"
    and "\<forall>k \<in> managed_of cm. zone_key k"
    and "\<forall>f \<in> named_files (outside_block (corefile_of cm)). \<not> zone_key f"
    and "named_files corefile \<subseteq> named_files (outside_block (corefile_of cm)) \<union> keys_of zoneFiles"
    and "outside_block corefile = outside_block (corefile_of cm)"
    and "passing (managed_of cm) (keys_of zoneFiles) (corefile_of cm) corefile
              (named_files (outside_block (corefile_of cm))) (layout_of name s) \<Longrightarrow>
            stable name s \<and> outside_block (corefile_of (fst s)) = outside_block (corefile_of cm)"
  using assms by (simp_all add: next_output_def del: split_paired_All)

lemma zone_key_listable: "zone_key k \<Longrightarrow> listable_key k" "\<not> zone_key corefileKey"
  unfolding zone_key_def using ZoneFileKey_listable ZoneFileKey_not_corefile by metis+

text \<open>A write of the ConfigMap that is a protocol step leads to a stable state again.\<close>

lemma next_output_step:
  assumes "next_output name cm corefile zoneFiles" and "stable name (c, d)"
    and "managed_of c \<subseteq> managed_of cm \<union> keys_of zoneFiles"
    and "outside_block (corefile_of c) = outside_block (corefile_of cm)"
    and "(corefile_of c = corefile_of cm \<and> managed_of cm \<subseteq> managed_of c) \<or> (corefile_of c = corefile \<and> keys_of zoneFiles \<subseteq> managed_of c)"
    and "proto (managed_of cm) (keys_of zoneFiles) corefile (layout_of name (c, d)) (layout_of name (c', d))"
  shows "stable name (c', d) \<and> outside_block (corefile_of c') = outside_block (corefile_of c)"
proof -
  let ?F = "named_files (outside_block (corefile_of cm))"
  note N = next_outputD [OF assms(1)]
  have disj: "?F \<inter> (managed_of cm \<union> keys_of zoneFiles) = {}" using N(3-5) by (meson Int_emptyI UnE)
  have "\<forall>f \<in> ?F. visible (layout_of name (c, d)) f"
    using stableD(6) [OF assms(2)] unfolding fst_conv assms(4) by blast
  then have "passing (managed_of cm) (keys_of zoneFiles) (corefile_of cm) corefile ?F (layout_of name (c, d))"
    unfolding passing_def layout_simps fst_conv using stableD(1) [OF assms(2)] assms(3,5) by blast
  from N(8) [OF proto_passing [OF assms(6) disj this]] show ?thesis by (simp add: assms(4))
qed

text \<open>A remounted volume leaves a stable state, when what is mounted exists and what is unmounted is not named.\<close>

lemma stable_remount:
  assumes "stable name (c, d)" and "items_of name d' = remount M (managed_of c) (items_of name d)"
    and "M \<subseteq> managed_of c" and "named_files (corefile_of c) \<inter> (managed_of c - M) = {}"
  shows "stable name (c, d')"
proof -
  note S = stableD [OF assms(1), unfolded fst_conv]
  have lay: "layout_of name (c, d') = (layout_of name (c, d))\<lparr>l_items := remount M (managed_of c) (l_items (layout_of name (c, d)))\<rparr>"
    using assms(2) by (simp add: layout_of_def)
  have "managed_of c \<subseteq> dom (map_of (cm_Data c))" using S(1) by (simp add: safe_def)
  then have safe: "safe (layout_of name (c, d'))"
    unfolding lay using assms(3,4) by (intro safe_remount [OF S(1)]) auto
  have "visible (layout_of name (c, d')) f" if "f \<in> named_files (outside_block (corefile_of c))" for f
    unfolding lay using S(5,6) that by (intro visible_remount) blast+
  then show ?thesis
    using assms(1) safe S(6) unfolding stable_def coherent_def by simp
qed

lemma remount_leaves:
  assumes "remount M P (Some I) = Some J" and "\<forall>k \<in> P. zone_key k"
  shows "{k \<in> I. \<not> zone_key k} \<subseteq> J"
  using assms by (auto simp: remount_def Let_def split: if_splits)

lemma own_remount:
  assumes "stable name (c, d)" and "items_of name d' = remount M (managed_of c) (items_of name d)"
    and "filter (\<lambda>v. \<not> mounts name v) (dp_Volumes d') = filter (\<lambda>v. \<not> mounts name v) (dp_Volumes d)"
    and "M \<subseteq> managed_of c" and "named_files (corefile_of c) \<inter> (managed_of c - M) = {}"
  shows "own_step name (c, d) (c, d')"
  unfolding own_step_def leaves_others_def
  using stable_remount [OF assms(1,2,4,5)] assms(2,3) stableD(5) [OF assms(1)] remount_leaves by fastforce

text \<open>What a write of the ConfigMap leaves alone.\<close>

lemma own_configmap:
  assumes "stable name (c', d) \<and> outside_block (corefile_of c') = outside_block (corefile_of c)"
    and "\<And>k. k \<noteq> corefileKey \<Longrightarrow> \<not> zone_key k \<Longrightarrow> map_of (cm_Data c') k = map_of (cm_Data c) k"
    and "(map_of (cm_Annotations c'))(ManagedZoneKeysAnnotation := None)
         = (map_of (cm_Annotations c))(ManagedZoneKeysAnnotation := None)"
  shows "own_step name (c, d) (c', d)"
  using assms by (auto simp: own_step_def leaves_others_def)

lemma remount_items:
  "remount M P items = Some J \<Longrightarrow> \<exists>I. items = Some I \<and> J = (I \<union> M) - (P - M)"
  by (auto simp: remount_def Let_def split: option.splits if_splits)

lemma SetManagedZoneKeys_other:
  "(map_of (cm_Annotations (snd (SetManagedZoneKeys cm ks))))(ManagedZoneKeysAnnotation := None)
     = (map_of (cm_Annotations cm))(ManagedZoneKeysAnnotation := None)"
  by (simp add: SetManagedZoneKeys_def Let_def fun_eq_iff)

section \<open>commitCoreDNS among other writers\<close>

lemma in_stepD:
  assumes "in_step name cm X s"
  shows "stable name s" and "agrees cm (fst s)" and "managed_of (fst s) = managed_of cm"
    and "X = Some Y \<Longrightarrow> items_of name (snd s) = Some I \<Longrightarrow> I \<inter> managed_of cm = Y"
  using assms agrees_managed unfolding in_step_def by auto

text \<open>Mounting among the managed keys exactly \<open>M\<close>.\<close>

lemma setVolumeItems_in_step:
  assumes law: "shared_store (Client r) states (cautious name)" and ordK: "is_order ordK" and name: "name = CoreDNSConfigMap r"
    and M: "set M \<subseteq> managed_of cm" and P: "set P \<subseteq> managed_of cm" "managed_of cm \<subseteq> set M \<union> set P"
    and X: "X = None \<and> set P \<subseteq> set M \<or> X = Some (managed_of cm)"
    and named: "\<And>f. f \<in> named_files (corefile_of cm) \<Longrightarrow> zone_key f \<Longrightarrow> f \<notin> set P - set M"
  shows "follows states (shared_step (cautious name) (own_step name)) (sees cm (in_step name cm X))
    (setVolumeItems r ordK M P restart hash) (\<lambda>_. sees cm (in_step name cm (Some (set M))))"
proof (rule setVolumeItems_shared [OF law ordK name])
  show "in_step name cm X s'" if "in_step name cm X s" "cautious name s s'" for s s'
    by (rule in_step_cautious [OF that])
  show "own_step name s s" if "in_step name cm X s" for s by (rule own_step_refl [OF in_stepD(1) [OF that]])
  have after: "J \<inter> managed_of cm = set M"
    if "in_step name cm X (c, d)" "remount (set M) (set P) (items_of name d) = Some J" for c d J
    using remount_items [OF that(2)] M P by auto
  have move: "remount (set M) (set P) items = remount (set M) (managed_of cm) items" for items
    using P by (auto simp: remount_def Let_def split: option.splits)
  show "in_step name cm (Some (set M)) (c, d)"
    if "in_step name cm X (c, d)" "items_of name d = remount (set M) (set P) (items_of name d)" for c d
    using that(1) after [OF that(1)] that(2) by (simp add: in_step_def)
  show "own_step name (c, d) (c, d') \<and> in_step name cm (Some (set M)) (c, d')"
    if q: "in_step name cm X (c, d)" and items: "items_of name d' = remount (set M) (set P) (items_of name d)"
      and vols: "filter (\<lambda>v. \<not> mounts name v) (dp_Volumes d') = filter (\<lambda>v. \<not> mounts name v) (dp_Volumes d)" for c d d'
  proof -
    note D = in_stepD [OF q, unfolded fst_conv snd_conv]
    have items': "items_of name d' = remount (set M) (managed_of c) (items_of name d)"
      unfolding items move D(3) by (rule refl)
    have "f \<notin> managed_of c - set M" if "f \<in> named_files (corefile_of c)" for f
      using named P that D(2,3) stableD(5) [OF D(1)] unfolding agrees_def fst_conv by blast
    then have own: "own_step name (c, d) (c, d')"
      using M by (intro own_remount [OF D(1) items' vols]) (auto simp: D(3))
    then show ?thesis
      using D(2) after [OF q] items by (auto simp: own_step_def in_step_def)
  qed
qed

text \<open>The ConfigMap after the first write and after the second.\<close>

definition widened :: "ConfigMap \<Rightarrow> (string, string) gomap \<Rightarrow> ConfigMap" where
  "widened cm zoneFiles =
     snd (SetManagedZoneKeys (snd (SetZoneFiles cm zoneFiles)) (unionKeys (ManagedZoneKeys cm) (mapKeys zoneFiles)))"

definition redirected :: "ConfigMap \<Rightarrow> string \<Rightarrow> (string, string) gomap \<Rightarrow> ConfigMap" where
  "redirected cm corefile zoneFiles = snd (SetCorefile (widened cm zoneFiles) corefile)"

lemma committed_redirected:
  "committed cm corefile zoneFiles (ManagedZoneKeys cm) =
     snd (SetManagedZoneKeys (snd (RemoveZoneFiles (redirected cm corefile zoneFiles)
       (subtractKeys (ManagedZoneKeys cm) (mapKeys zoneFiles)))) (mapKeys zoneFiles))"
  by (simp add: committed_def redirected_def widened_def Let_def)

lemma next_output_keys:
  assumes "next_output name cm corefile zoneFiles"
  shows "\<forall>k \<in> managed_of cm \<union> keys_of zoneFiles. listable_key k"
    and "corefileKey \<notin> keys_of zoneFiles" and "corefileKey \<notin> managed_of cm"
    and "f \<in> named_files corefile \<Longrightarrow> zone_key f \<Longrightarrow> f \<in> keys_of zoneFiles"
  using next_outputD(3-6) [OF assms] zone_key_listable by (blast, metis, metis, blast)

lemma write_layouts:
  assumes "next_output name cm corefile zoneFiles"
  shows "layout_of name (widened cm zoneFiles, d) = (layout_of name (cm, d))
      \<lparr>l_data := l_data (layout_of name (cm, d)) \<union> keys_of zoneFiles, l_managed := managed_of cm \<union> keys_of zoneFiles\<rparr>"
    and "layout_of name (redirected cm corefile zoneFiles, d) = (layout_of name (widened cm zoneFiles, d))
      \<lparr>l_data := insert corefileKey (l_data (layout_of name (widened cm zoneFiles, d))), l_text := corefile\<rparr>"
    and "layout_of name (committed cm corefile zoneFiles (ManagedZoneKeys cm), d) = (layout_of name (redirected cm corefile zoneFiles, d))
      \<lparr>l_data := l_data (layout_of name (redirected cm corefile zoneFiles, d)) - (managed_of cm - keys_of zoneFiles),
       l_managed := keys_of zoneFiles\<rparr>"
proof -
  note N = next_outputD [OF assms] and K = next_output_keys [OF assms]
  have keys: "\<forall>k \<in> set (unionKeys (ManagedZoneKeys cm) (mapKeys zoneFiles)). listable_key k" "\<forall>k \<in> set (mapKeys zoneFiles). listable_key k"
    "corefileKey \<notin> set (subtractKeys (ManagedZoneKeys cm) (mapKeys zoneFiles))"
    using K by simp_all
  show "layout_of name (widened cm zoneFiles, d) = (layout_of name (cm, d))
      \<lparr>l_data := l_data (layout_of name (cm, d)) \<union> keys_of zoneFiles, l_managed := managed_of cm \<union> keys_of zoneFiles\<rparr>"
    using layout_expand [OF N(2) K(2) keys(1), of name cm d] by (simp add: widened_def)
  show "layout_of name (redirected cm corefile zoneFiles, d) = (layout_of name (widened cm zoneFiles, d))
      \<lparr>l_data := insert corefileKey (l_data (layout_of name (widened cm zoneFiles, d))), l_text := corefile\<rparr>"
    using layout_switch [OF N(1), of name "widened cm zoneFiles" d] by (simp add: redirected_def)
  show "layout_of name (committed cm corefile zoneFiles (ManagedZoneKeys cm), d) = (layout_of name (redirected cm corefile zoneFiles, d))
      \<lparr>l_data := l_data (layout_of name (redirected cm corefile zoneFiles, d)) - (managed_of cm - keys_of zoneFiles),
       l_managed := keys_of zoneFiles\<rparr>"
    using layout_contract [OF keys(3,2), of name "redirected cm corefile zoneFiles" d] by (simp add: committed_redirected)
qed

text \<open>What the operator owns in the ConfigMaps it writes.\<close>

lemma write_parts:
  assumes "next_output name cm corefile zoneFiles"
  shows "managed_of (widened cm zoneFiles) = managed_of cm \<union> keys_of zoneFiles"
    and "managed_of (redirected cm corefile zoneFiles) = managed_of cm \<union> keys_of zoneFiles"
    and "managed_of (committed cm corefile zoneFiles (ManagedZoneKeys cm)) = keys_of zoneFiles"
    and "corefile_of (widened cm zoneFiles) = corefile_of cm"
    and "corefile_of (redirected cm corefile zoneFiles) = corefile"
  using write_layouts [OF assms, THEN arg_cong, of l_managed] write_layouts(1,2) [OF assms, THEN arg_cong, of l_text] by simp_all

text \<open>What it leaves alone.\<close>

lemma write_others:
  assumes "next_output name cm corefile zoneFiles" and "k \<noteq> corefileKey" and "\<not> zone_key k"
  shows "map_of (cm_Data (widened cm zoneFiles)) k = map_of (cm_Data cm) k"
    and "map_of (cm_Data (redirected cm corefile zoneFiles)) k = map_of (cm_Data (widened cm zoneFiles)) k"
    and "map_of (cm_Data (committed cm corefile zoneFiles (ManagedZoneKeys cm))) k = map_of (cm_Data (redirected cm corefile zoneFiles)) k"
proof -
  note N = next_outputD [OF assms(1)]
  have "map_of zoneFiles k = None" "k \<notin> set (subtractKeys (ManagedZoneKeys cm) (mapKeys zoneFiles))"
    using assms(3) N(3,4) by (auto simp: map_of_eq_None_iff)
  then show "map_of (cm_Data (widened cm zoneFiles)) k = map_of (cm_Data cm) k"
    "map_of (cm_Data (redirected cm corefile zoneFiles)) k = map_of (cm_Data (widened cm zoneFiles)) k"
    "map_of (cm_Data (committed cm corefile zoneFiles (ManagedZoneKeys cm))) k = map_of (cm_Data (redirected cm corefile zoneFiles)) k"
    using assms(2) unfolding committed_redirected
    by (simp_all add: widened_def redirected_def frame_simps SetZoneFiles_data(1) [OF N(2)] SetCorefile_data(1)
        RemoveZoneFiles_data(1) map_add_def)
qed

abbreviation other_of :: "ConfigMap \<Rightarrow> string \<Rightarrow> string option" where
  "other_of c \<equiv> (map_of (cm_Annotations c))(ManagedZoneKeysAnnotation := None)"

lemma write_annotations:
  "other_of (widened cm zoneFiles) = other_of cm"
  "other_of (redirected cm corefile zoneFiles) = other_of (widened cm zoneFiles)"
  "other_of (committed cm corefile zoneFiles (ManagedZoneKeys cm)) = other_of (redirected cm corefile zoneFiles)"
  unfolding committed_redirected by (simp_all add: widened_def redirected_def SetManagedZoneKeys_other frame_simps)

text \<open>Each of the three writes of the ConfigMap is a step of the operator.\<close>

lemma widened_own:
  assumes out: "next_output name cm corefile zoneFiles" and q: "in_step name cm None (cm, d)"
  shows "own_step name (cm, d) (widened cm zoneFiles, d) \<and> in_step name (widened cm zoneFiles) None (widened cm zoneFiles, d)"
proof -
  note st = in_stepD(1) [OF q]
  have "proto (managed_of cm) (keys_of zoneFiles) corefile (layout_of name (cm, d)) (layout_of name (widened cm zoneFiles, d))"
    unfolding write_layouts(1) [OF out] by (rule proto.expand_data) (use stableD(1) [OF st] in \<open>auto simp: safe_def\<close>)
  from next_output_step [OF out st _ _ _ this]
  have s: "stable name (widened cm zoneFiles, d) \<and> outside_block (corefile_of (widened cm zoneFiles)) = outside_block (corefile_of cm)"
    by simp
  show ?thesis
    using own_configmap [OF s write_others(1) [OF out] write_annotations(1)] s by (simp add: in_step_def)
qed

lemma redirected_own:
  assumes out: "next_output name cm corefile zoneFiles"
    and q: "in_step name (widened cm zoneFiles) (Some (managed_of cm \<union> keys_of zoneFiles)) (widened cm zoneFiles, d)"
  shows "own_step name (widened cm zoneFiles, d) (redirected cm corefile zoneFiles, d)
    \<and> in_step name (redirected cm corefile zoneFiles) (Some (managed_of cm \<union> keys_of zoneFiles)) (redirected cm corefile zoneFiles, d)"
proof -
  let ?P = "managed_of cm" and ?D = "keys_of zoneFiles" and ?c = "widened cm zoneFiles" and ?c' = "redirected cm corefile zoneFiles"
  note st = in_stepD(1) [OF q] and P = write_parts [OF out] and N = next_outputD [OF out]
  have m: "l_managed (layout_of name (?c, d)) = ?P \<union> ?D" by (simp add: P)
  have "visible (layout_of name (?c, d)) f" if f: "f \<in> named_files corefile" for f
  proof (cases "f \<in> ?D")
    case True
    moreover have "?P \<union> ?D \<subseteq> dom (map_of (cm_Data ?c))" using stableD(1) [OF st] by (simp add: safe_def P)
    ultimately show ?thesis using in_stepD(4) [OF q refl] unfolding visible_iff P fst_conv snd_conv by blast
  next
    case False
    then show ?thesis using stableD(6) [OF st, unfolded fst_conv P(4)] N(6) f by blast
  qed
  then have "proto ?P ?D corefile (layout_of name (?c, d)) (layout_of name (?c', d))"
    unfolding write_layouts(2) [OF out] by (intro proto.switch m ballI)
  from next_output_step [OF out st _ _ _ this]
  have s: "stable name (?c', d) \<and> outside_block (corefile_of ?c') = outside_block (corefile_of ?c)" by (simp add: P)
  show ?thesis
    using own_configmap [OF s write_others(2) [OF out] write_annotations(2)] s in_stepD(4) [OF q refl] by (simp add: in_step_def P)
qed

lemma committed_own:
  assumes out: "next_output name cm corefile zoneFiles"
    and q: "in_step name (redirected cm corefile zoneFiles) (Some (keys_of zoneFiles)) (redirected cm corefile zoneFiles, d)"
  defines "c' \<equiv> committed cm corefile zoneFiles (ManagedZoneKeys cm)"
  shows "own_step name (redirected cm corefile zoneFiles, d) (c', d) \<and> in_step name c' (Some (keys_of zoneFiles)) (c', d)"
proof -
  let ?P = "managed_of cm" and ?D = "keys_of zoneFiles" and ?c = "redirected cm corefile zoneFiles"
  note st = in_stepD(1) [OF q] and P = write_parts [OF out, folded c'_def] and items = in_stepD(4) [OF q refl, unfolded P snd_conv]
  have "?P \<union> ?D \<subseteq> dom (map_of (cm_Data ?c))" using stableD(1) [OF st] by (simp add: safe_def P)
  moreover have "named_files corefile \<inter> (?P - ?D) = {}" using next_output_keys(4) [OF out] next_outputD(4) [OF out] by blast
  ultimately have "proto ?P ?D corefile (layout_of name (?c, d)) (layout_of name (c', d))"
    unfolding c'_def write_layouts(3) [OF out] by (intro proto.contract_data) (use items in \<open>auto simp: P\<close>)
  from next_output_step [OF out st _ _ _ this]
  have s: "stable name (c', d) \<and> outside_block (corefile_of c') = outside_block (corefile_of ?c)"
    by (simp add: P next_outputD(7) [OF out])
  show ?thesis
    using own_configmap [OF s write_others(3) [OF out, folded c'_def] write_annotations(3) [of cm corefile zoneFiles, folded c'_def]] s items
    unfolding in_step_def P fst_conv snd_conv option.inject by (auto simp del: layout_simps)
qed

text \<open>
  The whole sequence: each entry of the history is a step of the others or a step of the operator
  that leaves the others' part alone and ends in a stable state; without an error the stored
  ConfigMap has the operator's part of the ConfigMap that was committed, and of the managed keys
  exactly the zone files are mounted.
\<close>

lemma commitCoreDNS_shared:
  assumes law: "shared_store (Client r) states (cautious name)" and ordK: "is_order ordK"
    and name: "name = CoreDNSConfigMap r" and out: "next_output name cm corefile zoneFiles"
  shows "concludes states (shared_step (cautious name) (own_step name)) (sees cm (in_step name cm None))
    (commitCoreDNS r ordK cm corefile zoneFiles (ManagedZoneKeys cm) reloadable hash)
    (\<lambda>v. in_step name (committed cm corefile zoneFiles (ManagedZoneKeys cm)) (Some (keys_of zoneFiles)) (v_now v))"
proof -
  let ?P = "managed_of cm" and ?D = "keys_of zoneFiles" and ?prev = "ManagedZoneKeys cm" and ?desired = "mapKeys zoneFiles"
  let ?stale = "subtractKeys ?prev ?desired" and ?all = "unionKeys ?prev ?desired"
    and ?R = "shared_step (cautious name) (own_step name)"
  let ?cm2 = "widened cm zoneFiles" and ?cm3 = "redirected cm corefile zoneFiles" and ?cm5 = "committed cm corefile zoneFiles ?prev"
  obtain c1 cm1 where sz: "SetZoneFiles cm zoneFiles = (c1, cm1)" by (rule prod.exhaust)
  obtain c2 where sk: "SetManagedZoneKeys cm1 ?all = (c2, ?cm2)" using sz by (metis prod.collapse snd_conv widened_def)
  obtain c3 where sc: "SetCorefile ?cm2 corefile = (c3, ?cm3)" by (metis prod.collapse redirected_def)
  obtain c4 cm4 where sr: "RemoveZoneFiles ?cm3 ?stale = (c4, cm4)" by (rule prod.exhaust)
  obtain c5 where sd: "SetManagedZoneKeys cm4 ?desired = (c5, ?cm5)" using sr by (metis prod.collapse snd_conv committed_redirected)
  have unchanged: "\<not> (c1 \<or> c2) \<Longrightarrow> ?cm2 = cm" "\<not> c3 \<Longrightarrow> ?cm3 = ?cm2" "\<not> (c4 \<or> c5) \<Longrightarrow> ?cm5 = ?cm3"
    using SetZoneFiles_unchanged [of cm zoneFiles] RemoveZoneFiles_unchanged [of ?cm3 ?stale] sz sk sc sr sd
    by (auto simp: SetManagedZoneKeys_def SetCorefile_def Let_def split: if_splits)
  have F1: "follows states ?R (sees cm (in_step name cm None)) (updateIfChanged r (c1 \<or> c2) ?cm2)
      (\<lambda>x v. x = ?cm2 \<and> sees ?cm2 (in_step name ?cm2 None) v)"
    by (rule updateIfChanged_shared [OF law], erule (1) in_step_cautious, erule widened_own [OF out]) (use unchanged(1) in simp)
  have F2: "follows states ?R (sees ?cm2 (in_step name ?cm2 None)) (setVolumeItems r ordK ?all ?prev False [])
      (\<lambda>_. sees ?cm2 (in_step name ?cm2 (Some (?P \<union> ?D))))"
    using setVolumeItems_in_step [OF law ordK name, of ?all ?cm2 ?prev None False "[]"] by (simp add: write_parts [OF out])
  have F3: "follows states ?R (sees ?cm2 (in_step name ?cm2 (Some (?P \<union> ?D)))) (updateIfChanged r c3 ?cm3)
      (\<lambda>x v. x = ?cm3 \<and> sees ?cm3 (in_step name ?cm3 (Some (?P \<union> ?D))) v)"
    by (rule updateIfChanged_shared [OF law], erule (1) in_step_cautious, erule redirected_own [OF out]) (use unchanged(2) in simp)
  have F4: "follows states ?R (sees ?cm3 (in_step name ?cm3 (Some (?P \<union> ?D)))) (setVolumeItems r ordK ?desired ?prev restart hash)
      (\<lambda>_. sees ?cm3 (in_step name ?cm3 (Some ?D)))" for restart
    using setVolumeItems_in_step [OF law ordK name, of ?desired ?cm3 ?prev "Some (?P \<union> ?D)" restart hash] next_output_keys(4) [OF out]
    by (simp add: write_parts [OF out])
  have F5: "follows states ?R (sees ?cm3 (in_step name ?cm3 (Some ?D))) (updateIfChanged r (c4 \<or> c5) ?cm5)
      (\<lambda>x v. x = ?cm5 \<and> sees ?cm5 (in_step name ?cm5 (Some ?D)) v)"
    by (rule updateIfChanged_shared [OF law], erule (1) in_step_cautious, erule committed_own [OF out]) (use unchanged(3) in simp)
  show ?thesis
    unfolding commitCoreDNS_def [abs_def] unfolding Let_def sz sk prod.case
    apply (rule concludes_then [OF F1])
    apply (rule concludes_value, hypsubst)
    apply (rule concludes_then [OF F2])
    apply (rule concludes_pair)
    apply (unfold sc prod.case)
    apply (rule concludes_then [OF F3])
    apply (rule concludes_value, hypsubst)
    apply (rule concludes_then [OF F4])
    apply (unfold sr sd prod.case)
    apply (rule concludes_then [OF F5])
    apply (rule concludes_value)
    apply (simp add: concludes_def)
    done
qed

end
