(* ===== verification/Shared_Pass.thy ===== *)
theory Shared_Pass
  imports Shared_Commit
begin

text \<open>
  A pass of the reconciler while others write the CoreDNS objects, before it, between any two of its
  calls and after it: what \<^verbatim>\<open>Reconcile\<close> computes from the ConfigMap it has read is a next output, so the
  guarantees of the commit hold of the pass, and of any number of passes.
\<close>

section \<open>What a pass commits\<close>

lemma pass_next_output:
  assumes st: "stable name (cm, d)" and ords: "is_order (env_Directives env)" "is_order (env_Answers env)"
    and rn: "rendering_ok (previous_of cm) rn"
    and plain: "\<And>dir r. dir \<in> set (rn_directives rn) \<Longrightarrow> r \<in> set (zd_Records dir) \<Longrightarrow> record_plain r"
    and patched: "PatchCorefile (env_Directives env) (env_Answers env) (corefile_of cm) (rn_directives rn) = Inr patched"
  shows "next_output name cm patched (rn_zoneFiles rn)"
proof -
  note S = stableD [OF st, unfolded fst_conv]
  have ready: "commit_ready name cm d patched (rn_zoneFiles rn) (ManagedZoneKeys cm)"
    by (rule pass_commit_ready [OF S(2) ords rn patched])
  have keys: "\<forall>k \<in> keys_of (rn_zoneFiles rn). zone_key k" using rn unfolding rendering_ok_def zone_key_def by blast
  have "directive_files (env_Answers env) dir \<subseteq> keys_of (rn_zoneFiles rn)" if "dir \<in> set (rn_directives rn)" for dir
    using directive_files_covered [OF S(2) ords(2) rn that] by blast
  then have named: "named_files patched \<subseteq> named_files (outside_block (corefile_of cm)) \<union> keys_of (rn_zoneFiles rn)"
    unfolding PatchCorefile_files [OF patched ords(1)] by blast
  show ?thesis
    unfolding next_output_def
  proof (intro conjI allI impI)
    show "patched \<noteq> []" "distinct (map fst (rn_zoneFiles rn))" using ready by (simp_all add: commit_ready_def)
    show "outside_block patched = outside_block (corefile_of cm)"
      by (rule patched_block_owned(2) [OF S(2) ords S(3) rn plain patched])
    show "named_files patched \<subseteq> named_files (outside_block (corefile_of cm)) \<union> keys_of (rn_zoneFiles rn)" by (rule named)
    show "\<forall>k \<in> keys_of (rn_zoneFiles rn). zone_key k" by (rule keys)
    show "\<forall>k \<in> managed_of cm. zone_key k" using S(5) by blast
    show "\<forall>f \<in> named_files (outside_block (corefile_of cm)). \<not> zone_key f" using S(6) by blast
    fix s
    assume "passing (managed_of cm) (keys_of (rn_zoneFiles rn)) (corefile_of cm) patched
      (named_files (outside_block (corefile_of cm))) (layout_of name s)"
    from passing_stable [OF st ords rn plain patched this]
    show "stable name s" "outside_block (corefile_of (fst s)) = outside_block (corefile_of cm)" by simp_all
  qed
qed

section \<open>A pass\<close>

lemma cautious_stable: "stable name s \<Longrightarrow> cautious name s s' \<Longrightarrow> stable name s'"
  by (auto simp: cautious_def intro: respectful_stable)

text \<open>The operator's part of what a pass without error has published.\<close>

definition published_among ::
    "string \<Rightarrow> string \<Rightarrow> (string, string) gomap \<Rightarrow> coredns_state \<Rightarrow> bool" where
  "published_among name patched files s \<longleftrightarrow>
     stable name s
     \<and> (\<forall>(k, c) \<in> set files. map_of (cm_Data (fst s)) k = Some c \<and> visible (layout_of name s) k)
     \<and> managed_of (fst s) = keys_of files
     \<and> ExtractZoneBlocks (corefile_of (fst s)) = ExtractZoneBlocks patched"

lemma in_step_published:
  assumes out: "next_output name cm patched files"
    and q: "in_step name (committed cm patched files (ManagedZoneKeys cm)) (Some (keys_of files)) s"
  shows "published_among name patched files s"
proof -
  let ?c = "committed cm patched files (ManagedZoneKeys cm)"
  note D = in_stepD [OF q] and N = next_outputD [OF out] and M = write_parts(3) [OF out]
  have cf: "corefile_of ?c = patched"
    using arg_cong [OF write_layouts(3) [OF out], of l_text] write_parts(5) [OF out] by simp
  have stored: "map_of (cm_Data ?c) k = Some c" if "(k, c) \<in> set files" for k c
    by (rule committed_file [OF N(1,2) next_output_keys(2,3) [OF out] that])
  have "map_of (cm_Data (fst s)) k = Some c \<and> visible (layout_of name s) k" if "(k, c) \<in> set files" for k c
  proof -
    have "k \<in> keys_of files" using that by force
    moreover from this have "map_of (cm_Data (fst s)) k = Some c" using D(2) stored [OF that] unfolding agrees_def M by metis
    ultimately show ?thesis using D(4) [OF refl] unfolding visible_iff M by blast
  qed
  then show ?thesis
    using D(1-3) M cf unfolding published_among_def agrees_def by auto
qed

text \<open>The output of a pass over the ConfigMap \<open>cm\<close> and the claimed zones.\<close>

definition published_from ::
    "environment \<Rightarrow> PrivateDNSRecord list \<Rightarrow> ConfigMap \<Rightarrow> PrivateDNSZone list \<Rightarrow> string \<Rightarrow> coredns_state \<Rightarrow> bool" where
  "published_from env records cm zones name s \<longleftrightarrow>
     (\<exists>patched. PatchCorefile (env_Directives env) (env_Answers env) (corefile_of cm)
          (rn_directives (renderZones env records (previous_of cm) zones)) = Inr patched
        \<and> published_among name patched (rn_zoneFiles (renderZones env records (previous_of cm) zones)) s)"

text \<open>The calls of a pass after its commit, and the reports of a pass that has nothing to commit.\<close>

lemma among_drift:
  assumes "drifts (cautious name) h h'" and "stable name (v_now (hd h))"
  shows "stable name (v_now (hd h'))"
  by (rule drifts_stable [where Q = "stable name", OF assms]) (rule cautious_stable)

lemma publish_among:
  assumes law: "shared_store (Client r) states (cautious name)" and name: "name = CoreDNSConfigMap r"
    and env: "env_ok env" and w: "sees cm (in_step name cm None) (hd (states w))" and st: "stable name (cm, d)"
    and clean: "\<And>zones' w1. claimZones r zones w = (Inr zones', w1) \<Longrightarrow>
      (\<forall>z \<in> set zones'. spec_clean (z_Spec z)) \<and> (\<forall>e \<in> set records. record_clean_values e)"
    and run: "publish r env zones records cm (corefile_of cm) w = (res, w')"
  shows "grows (shared_step (cautious name) (own_step name)) (states w) (states w')
    \<and> (res = None \<longrightarrow> (\<exists>zones' w1. claimZones r zones w = (Inr zones', w1)
         \<and> published_from env records cm zones' name (v_now (hd (states w')))))"
proof (rule publish_carries [OF shared_carries [OF law] run])
  assume "drifts (cautious name) (states w) (states w')" "res \<noteq> None"
  then show ?thesis using drifts_grows by blast
next
  fix zones' w1 patched res2 w2
  let ?rn = "renderZones env records (previous_of cm) zones'" and ?R = "shared_step (cautious name) (own_step name)"
  let ?Q = "in_step name (committed cm patched (rn_zoneFiles ?rn) (ManagedZoneKeys cm)) (Some (keys_of (rn_zoneFiles ?rn)))"
  assume claim: "claimZones r zones w = (Inr zones', w1)" and d1: "drifts (cautious name) (states w) (states w1)"
    and patched: "PatchCorefile (env_Directives env) (env_Answers env) (corefile_of cm) (rn_directives ?rn) = Inr patched"
    and commit: "commitCoreDNS r (env_Items env) cm patched (rn_zoneFiles ?rn) (ManagedZoneKeys cm)
        (HasReloadPlugin patched) (combinedHash (rn_results ?rn)) w1 = (res2, w2)"
    and d2: "drifts (cautious name) (states w2) (states w')" and err: "res2 \<noteq> None \<Longrightarrow> res = res2 \<and> w' = w2"
  have ords: "is_order (env_Directives env)" "is_order (env_Answers env)" "is_order (env_Items env)"
    using env by (simp_all add: env_ok_def)
  have out: "next_output name cm patched (rn_zoneFiles ?rn)"
    using rendered_records [OF _ conjunct1 [OF clean [OF claim]] conjunct2 [OF clean [OF claim]]]
    by (intro pass_next_output [OF st ords(1,2) renderZones_ok _ patched]) blast
  have "in_step name cm None (v_now (hd (states w1)))"
    by (rule drifts_stable [where Q = "in_step name cm None", OF d1 conjunct2 [OF w]]) (rule in_step_cautious)
  then have "sees cm (in_step name cm None) (hd (states w1))" using w drifts_seen [OF d1] by simp
  note C = concludesD [OF commitCoreDNS_shared [OF law ords(3) name out] this commit]
  have "grows ?R (states w) (states w')"
    by (rule grows_trans [OF drifts_grows [OF d1] grows_trans [OF C(1) drifts_grows [OF d2]]])
  moreover have "?Q (v_now (hd (states w')))" if "res = None"
  proof (rule drifts_stable [where Q = ?Q, OF d2])
    show "?Q (v_now (hd (states w2)))" using C(2) err that by blast
  qed (rule in_step_cautious)
  ultimately show ?thesis
    using claim patched in_step_published [OF out] unfolding published_from_def by blast
qed

text \<open>What a pass has published for what it has read.\<close>

definition published_for ::
    "'w PrivateDNSZoneReconciler \<Rightarrow> environment \<Rightarrow> 'w \<Rightarrow> coredns_state \<Rightarrow> bool" where
  "published_for r env w s \<longleftrightarrow>
     (\<exists>zones records cm w1 w2 w3 zones' w4.
        list_zones (Client r) w = (Inr zones, w1) \<and> list_records (Client r) w1 = (Inr records, w2)
      \<and> get_configmap (Client r) (CoreDNSNamespace r) (CoreDNSConfigMap r) w2 = (Inr cm, w3)
      \<and> claimZones r zones w3 = (Inr zones', w4)
      \<and> published_from env records cm zones' (CoreDNSConfigMap r) s)"

lemma Reconcile_among:
  assumes law: "shared_store (Client r) states (cautious name)" and name: "name = CoreDNSConfigMap r"
    and spec: "keeps_spec (Client r)" and env: "env_ok env" and clean: "inputs_clean (Client r) w"
    and st: "stable name (v_now (hd (states w)))" and run: "Reconcile r env w = (res, w')"
  shows "grows (shared_step (cautious name) (own_step name)) (states w) (states w')
    \<and> (res = None \<longrightarrow> published_for r env w (v_now (hd (states w'))))"
proof -
  let ?R = "shared_step (cautious name) (own_step name)"
  obtain lz w1 where lz: "list_zones (Client r) w = (lz, w1)" by (rule prod.exhaust)
  obtain lr w2 where lr: "list_records (Client r) w1 = (lr, w2)" by (rule prod.exhaust)
  obtain gc w3 where gc: "get_configmap (Client r) (CoreDNSNamespace r) (CoreDNSConfigMap r) w2 = (gc, w3)" by (rule prod.exhaust)
  note gc' = gc
  note d1 = carriesD [OF shared_storeD(6) [OF law] lz] and d2 = carriesD [OF shared_storeD(7) [OF law] lr]
  note run = run [unfolded Reconcile_def Let_def, simplified lz lr gc prod.case]
  have report: "grows ?R (states w3) (states w') \<and> res \<noteq> None"
    if "reportCoreDNSUnavailable r lib zones records message release w3 = (res, w')" for lib zones records message release
    using drifts_grows [OF reportCoreDNSUnavailable_carries [OF shared_carries [OF law] that]]
      reportCoreDNSUnavailable_error [OF that] by blast
  show ?thesis
  proof (cases "\<exists>e. lz = Inl e \<or> lr = Inl e")
    case True
    then have "(w' = w1 \<or> w' = w2) \<and> res \<noteq> None" using run by (auto split: sum.splits)
    then show ?thesis using drifts_grows [OF d1] drifts_grows [OF drifts_trans [OF d1 d2]] by blast
  next
    case False
    then obtain zones records where in_: "lz = Inr zones" "lr = Inr records" by (metis sum.exhaust)
    note run = run [unfolded in_ sum.case]
    show ?thesis
    proof (rule shared_readsE [OF shared_storeD(2) [OF law] gc])
      fix h e assume h: "drifts (cautious name) (states w2) h" and gc: "gc = Inl e" and w3: "states w3 = h"
      have "grows ?R (states w3) (states w') \<and> res \<noteq> None" using run report by (auto simp: gc split: if_splits)
      then show ?thesis
        using grows_trans [OF drifts_grows [OF drifts_trans [OF drifts_trans [OF d1 d2] h]]] unfolding w3 by blast
    next
      fix h cm assume h: "drifts (cautious name) (states w2) h" and gc: "gc = Inr cm" "cm = fst (v_now (hd h))"
        and w3: "v_now (hd (states w3)) = v_now (hd h)" "v_seen (hd (states w3)) = (cm, snd (v_seen (hd h)))"
          "\<And>own. own (v_now (hd h)) (v_now (hd h)) \<Longrightarrow> grows (shared_step (cautious name) own) (states w2) (states w3)"
      note dh = drifts_trans [OF drifts_trans [OF d1 d2] h]
      have sth: "stable name (v_now (hd h))" by (rule among_drift [OF dh st])
      have g3: "grows ?R (states w) (states w3)"
        by (rule grows_trans, rule drifts_grows, rule drifts_trans, rule d1, rule d2, rule w3(3), rule own_step_refl, rule sth)
      show ?thesis
      proof (cases "corefile_of cm = []")
        case True
        then have "grows ?R (states w3) (states w') \<and> res \<noteq> None" using run report by (simp add: gc(1))
        then show ?thesis using grows_trans [OF g3] by blast
      next
        case False
        then have p: "publish r env zones records cm (corefile_of cm) w3 = (res, w')" using run by (simp add: gc(1))
        have now: "sees cm (in_step name cm None) (hd (states w3))"
          using sth by (simp add: w3 in_step_def gc(2))
        have st3: "stable name (cm, snd (v_now (hd h)))" using sth by (simp add: gc(2))
        note clean = claimed_clean [OF spec clean lz [unfolded in_] lr [unfolded in_]]
        have "grows ?R (states w3) (states w') \<and> (res = None \<longrightarrow> (\<exists>zones' w4. claimZones r zones w3 = (Inr zones', w4)
            \<and> published_from env records cm zones' name (v_now (hd (states w')))))"
          by (rule publish_among [OF law name env now st3 _ p]) (intro conjI; rule clean)
        moreover have "published_for r env w (v_now (hd (states w')))"
          if "claimZones r zones w3 = (Inr zones', w4)" "published_from env records cm zones' name (v_now (hd (states w')))" for zones' w4
          unfolding published_for_def
          by (intro exI conjI) (use lz lr gc' that in \<open>simp_all add: in_ gc(1) name\<close>)
        ultimately show ?thesis using grows_trans [OF g3] by blast
      qed
    qed
  qed
qed

section \<open>Any number of passes\<close>

text \<open>Passes of the operator, each with its own clock, orders and failures. The others write at any time:
  their writes are part of the history, before, between and after the calls of each pass.\<close>

inductive operates_among :: "'w PrivateDNSZoneReconciler \<Rightarrow> 'w \<Rightarrow> 'w \<Rightarrow> bool" for r where
  among_start [intro]: "operates_among r w w"
| among_pass: "operates_among r w0 w \<Longrightarrow> env_ok env \<Longrightarrow> inputs_clean (Client r) w \<Longrightarrow> Reconcile r env w = (res, w')
    \<Longrightarrow> operates_among r w0 w'"

lemma shared_step_stable: "shared_step (cautious name) (own_step name) v v' \<Longrightarrow> stable name (v_now v) \<Longrightarrow> stable name (v_now v')"
  by (cases "v_by v'") (auto simp: shared_step_def own_step_def intro: cautious_stable)

lemma among_stable:
  assumes "grows (shared_step (cautious name) (own_step name)) h h'" and "stable name (v_now (hd h))"
  shows "stable name (v_now (hd h')) \<and> (\<exists>hs. h' = hs @ h \<and> (\<forall>v \<in> set hs. stable name (v_now v)))"
  using grows_invariant [where P = "\<lambda>v. stable name (v_now v)", OF assms shared_step_stable] .

lemma operates_among_grows:
  assumes "operates_among r w0 w" and "shared_store (Client r) states (cautious (CoreDNSConfigMap r))" and "keeps_spec (Client r)"
    and "stable (CoreDNSConfigMap r) (v_now (hd (states w0)))"
  shows "grows (shared_step (cautious (CoreDNSConfigMap r)) (own_step (CoreDNSConfigMap r))) (states w0) (states w)"
  using assms
proof (induction rule: operates_among.induct)
  case (among_pass w0 w env res w')
  note past = among_pass.IH [OF among_pass.prems]
  have "stable (CoreDNSConfigMap r) (v_now (hd (states w)))" using among_stable [OF past among_pass.prems(3)] by blast
  from Reconcile_among [OF among_pass.prems(1) refl among_pass.prems(2) among_pass.hyps(2,3) this among_pass.hyps(4)]
  show ?case using grows_trans [OF past] by blast
qed simp

end
