(* ===== verification/Shared_Cluster.thy ===== *)
theory Shared_Cluster
  imports Shared_Pass
begin

text \<open>
  A simulated API server with other writers: a plan says, for each coming call of the client, which edits of
  others come before it and whether the call works, fails, or (for a write) takes effect and
  reports a failure. An update of an object that has changed since the client was given it is a conflict.
  The server satisfies \<open>shared_store\<close>, with others that are \<open>cautious\<close>.
\<close>

section \<open>Edits of others\<close>

text \<open>Someone puts a key into the ConfigMap that the operator does not manage, or restarts CoreDNS.\<close>

datatype edit = PutKey string string | RestartPods string

fun apply_edit :: "edit \<Rightarrow> coredns_state \<Rightarrow> coredns_state" where
  "apply_edit (PutKey k c) (cm, d) =
     (if k = corefileKey \<or> containsString (ManagedZoneKeys cm) k then (cm, d)
      else (cm\<lparr>cm_Data := AList.update k c (cm_Data cm)\<rparr>, d))"
| "apply_edit (RestartPods h) (cm, d) = (cm, MarkRolloutRestart d ''restarted'' h)"

lemma respectful_refl: "stable name s \<Longrightarrow> respectful name s s"
  using stableD [of name s] by (auto simp: respectful_def safe_layout_iff same_items_def split: option.splits)

lemma apply_edit_cautious: "cautious name s (apply_edit e s)"
  unfolding cautious_def
proof
  assume st: "stable name s"
  obtain cm d where s: "s = (cm, d)" by (rule prod.exhaust)
  note S = stableD [OF st, unfolded s fst_conv]
  show "respectful name s (apply_edit e s)"
  proof (cases e)
    case (PutKey k c)
    let ?cm = "cm\<lparr>cm_Data := AList.update k c (cm_Data cm)\<rparr>"
    show ?thesis
    proof (cases "k = corefileKey \<or> k \<in> managed_of cm")
      case True
      then show ?thesis using respectful_refl [OF st] by (simp add: PutKey s)
    next
      case False
      have data: "map_of (cm_Data ?cm) = (map_of (cm_Data cm))(k \<mapsto> c)" by (simp add: update_conv')
      have cf: "corefile_of ?cm = corefile_of cm" using False by (auto simp: get_or_empty_def update_conv')
      have m: "ManagedZoneKeys ?cm = ManagedZoneKeys cm" by (simp add: ManagedZoneKeys_def)
      have vis: "visible (layout_of name (?cm, d)) f" if "visible (layout_of name (cm, d)) f" for f
        using that unfolding visible_iff fst_conv snd_conv data by auto
      have "respectful name (cm, d) (?cm, d)"
        unfolding respectful_def fst_conv snd_conv cf data
        using respectful_refl [OF st, unfolded s] vis False S(1)
        unfolding respectful_def fst_conv snd_conv by auto
      then show ?thesis using False by (simp add: PutKey s)
    qed
  next
    case (RestartPods h)
    have items: "items_of name (MarkRolloutRestart d ''restarted'' h) = items_of name d" by (simp add: items_of_def frame_simps)
    have lay: "layout_of name (cm, MarkRolloutRestart d ''restarted'' h) = layout_of name (cm, d)" by (simp add: layout_of_def items)
    then show ?thesis
      using respectful_refl [OF st] by (simp add: RestartPods s respectful_def items lay)
  qed
qed

section \<open>The server\<close>

record shared_cluster =
  sc_zones :: "PrivateDNSZone list"
  sc_records :: "PrivateDNSRecord list"
  sc_views :: shared_history
  sc_plan :: "(edit list \<times> fault) list"

definition empty_view :: "coredns_state view" where
  "empty_view = (let s = (ConfigMap.make [] [] [] [], Deployment.make [] [] [] []) in \<lparr>v_by = Other, v_now = s, v_seen = s\<rparr>)"

definition sc_history :: "shared_cluster \<Rightarrow> shared_history" where
  "sc_history w = (case sc_views w of [] \<Rightarrow> [empty_view] | v # h \<Rightarrow> v # h)"

fun edit_views :: "edit list \<Rightarrow> shared_history \<Rightarrow> shared_history" where
  "edit_views [] h = h"
| "edit_views (e # es) h =
     edit_views es (\<lparr>v_by = Other, v_now = apply_edit e (v_now (hd h)), v_seen = v_seen (hd h)\<rparr> # h)"

definition sc_next :: "shared_cluster \<Rightarrow> fault \<times> shared_cluster" where
  "sc_next w =
     (case sc_plan w of
        [] \<Rightarrow> (Works, w)
      | (es, f) # plan \<Rightarrow> (f, w\<lparr>sc_plan := plan, sc_views := edit_views es (sc_history w)\<rparr>))"

definition sc_status :: "(shared_cluster \<Rightarrow> 'a \<times> shared_cluster) \<Rightarrow> shared_cluster \<Rightarrow> (api_error + 'a) \<times> shared_cluster" where
  "sc_status f w =
     (let (flt, w) = sc_next w in
      case flt of
        Works \<Rightarrow> (case f w of (x, w) \<Rightarrow> (Inr x, w))
      | Refused \<Rightarrow> (Inl sim_error, w)
      | LostReply \<Rightarrow> (Inl sim_error, snd (f w)))"

definition sc_read ::
    "(coredns_state \<Rightarrow> 'a) \<Rightarrow> ('a \<Rightarrow> coredns_state \<Rightarrow> coredns_state) \<Rightarrow> shared_cluster \<Rightarrow> (api_error + 'a) \<times> shared_cluster" where
  "sc_read part put w =
     (let (flt, w) = sc_next w; h = sc_history w; x = part (v_now (hd h)) in
      if flt = Works then
        (Inr x, w\<lparr>sc_views := \<lparr>v_by = Operator, v_now = v_now (hd h), v_seen = put x (v_seen (hd h))\<rparr> # h\<rparr>)
      else (Inl sim_error, w))"

definition sc_write ::
    "(coredns_state \<Rightarrow> 'a) \<Rightarrow> ('a \<Rightarrow> coredns_state \<Rightarrow> coredns_state) \<Rightarrow> 'a \<Rightarrow> shared_cluster \<Rightarrow> (api_error + 'a) \<times> shared_cluster" where
  "sc_write part put x w =
     (let (flt, w) = sc_next w; h = sc_history w in
      if flt = Refused then (Inl sim_error, w)
      else if part (v_now (hd h)) \<noteq> part (v_seen (hd h)) then (Inl (ApiFailure ''the object has been modified''), w)
      else if flt = Works then
        (Inr x, w\<lparr>sc_views := \<lparr>v_by = Operator, v_now = put x (v_now (hd h)), v_seen = put x (v_seen (hd h))\<rparr> # h\<rparr>)
      else (Inl sim_error, w\<lparr>sc_views := \<lparr>v_by = Operator, v_now = put x (v_now (hd h)), v_seen = v_seen (hd h)\<rparr> # h\<rparr>))"

definition shared_client :: "shared_cluster client" where
  "shared_client =
     \<lparr>list_zones = sc_status (\<lambda>w. (sc_zones w, w)),
      list_records = sc_status (\<lambda>w. (sc_records w, w)),
      get_configmap = (\<lambda>ns n. sc_read fst (\<lambda>cm s. (cm, snd s))),
      get_deployment = (\<lambda>ns n. sc_read snd (\<lambda>d s. (fst s, d))),
      update_zone = (\<lambda>z. sc_status (\<lambda>w.
        (z, w\<lparr>sc_zones := map (\<lambda>y. if z_Name y = z_Name z then z else y) (sc_zones w)\<rparr>))),
      update_configmap = sc_write fst (\<lambda>cm s. (cm, snd s)),
      update_deployment = sc_write snd (\<lambda>d s. (fst s, d)),
      patch_zone_status = (\<lambda>z. sc_status (\<lambda>w.
        (z, w\<lparr>sc_zones := map (\<lambda>y. if z_Name y = z_Name z then z else y) (sc_zones w)\<rparr>))),
      patch_record_status = (\<lambda>r. sc_status (\<lambda>w. (r, w\<lparr>sc_records :=
        map (\<lambda>q. if rec_Namespace q = rec_Namespace r \<and> rec_Name q = rec_Name r then r else q) (sc_records w)\<rparr>)))\<rparr>"

lemma edit_views_drift: "drifts (cautious name) h (edit_views es h)"
proof (induction es arbitrary: h)
  case (Cons e es)
  have "drifts (cautious name) h (\<lparr>v_by = Other, v_now = apply_edit e (v_now (hd h)), v_seen = v_seen (hd h)\<rparr> # h)"
    by (rule drifts_step, rule drifts_refl, rule apply_edit_cautious)
  then show ?case using Cons.IH drifts_trans by simp blast
qed simp

lemma edit_views_nonempty: "h \<noteq> [] \<Longrightarrow> edit_views es h \<noteq> []"
  by (induction es arbitrary: h) simp_all

lemma sc_history_nonempty [simp]: "sc_history w \<noteq> []"
  by (simp add: sc_history_def split: list.split)

lemma sc_history_cons [simp]: "sc_history (w\<lparr>sc_views := v # h\<rparr>) = v # h"
  by (simp add: sc_history_def)

lemma sc_history_frame [simp]:
  "sc_history (w\<lparr>sc_zones := zs\<rparr>) = sc_history w" "sc_history (w\<lparr>sc_records := rs\<rparr>) = sc_history w"
  by (simp_all add: sc_history_def)

lemma sc_next_drift: "drifts (cautious name) (sc_history w) (sc_history (snd (sc_next w)))"
proof (cases "sc_plan w")
  case (Cons p plan)
  obtain es f where p: "p = (es, f)" by (rule prod.exhaust)
  have "sc_history (w\<lparr>sc_plan := plan, sc_views := edit_views es (sc_history w)\<rparr>) = edit_views es (sc_history w)"
    using edit_views_nonempty [OF sc_history_nonempty] by (auto simp: sc_history_def [of "w\<lparr>sc_plan := plan, sc_views := _\<rparr>"] split: list.split)
  then show ?thesis using edit_views_drift by (simp add: sc_next_def Cons p)
qed (simp add: sc_next_def)

lemma sc_status_carries:
  assumes "\<And>w. sc_history (snd (f w)) = sc_history w"
  shows "carries (drifts (cautious name)) sc_history (sc_status f)"
  unfolding carries_def
proof
  fix w
  obtain flt w1 where n: "sc_next w = (flt, w1)" by (rule prod.exhaust)
  have "sc_history (snd (sc_status f w)) = sc_history w1"
    using assms [of w1] by (cases flt) (auto simp: sc_status_def n split: prod.split)
  then show "drifts (cautious name) (sc_history w) (sc_history (snd (sc_status f w)))"
    using sc_next_drift [of name w] by (simp add: n)
qed

lemma sc_read_reads: "shared_reads sc_history (cautious name) part put (sc_read part put)"
  unfolding shared_reads_def
proof
  fix w
  obtain flt w1 where n: "sc_next w = (flt, w1)" by (rule prod.exhaust)
  show "\<exists>h. drifts (cautious name) (sc_history w) h \<and>
        (case sc_read part put w of
           (Inl _, w') \<Rightarrow> sc_history w' = h
         | (Inr x, w') \<Rightarrow> x = part (v_now (hd h)) \<and>
             (sc_history w' = \<lparr>v_by = Operator, v_now = v_now (hd h), v_seen = put x (v_seen (hd h))\<rparr> # h
              \<or> (sc_history w' = h \<and> put x (v_seen (hd h)) = v_seen (hd h))))"
    by (rule exI [of _ "sc_history w1"]) (use sc_next_drift [of name w] in \<open>simp add: sc_read_def n Let_def\<close>)
qed

lemma sc_write_writes: "shared_writes sc_history (cautious name) part put (sc_write part put)"
  unfolding shared_writes_def
proof (intro allI)
  fix x w
  obtain flt w1 where n: "sc_next w = (flt, w1)" by (rule prod.exhaust)
  show "\<exists>h. drifts (cautious name) (sc_history w) h \<and>
        (case sc_write part put x w of
           (Inl _, w') \<Rightarrow> sc_history w' = h \<or>
             (part (v_now (hd h)) = part (v_seen (hd h)) \<and>
              (\<exists>given. sc_history w' = \<lparr>v_by = Operator, v_now = put x (v_now (hd h)), v_seen = given\<rparr> # h))
         | (Inr y, w') \<Rightarrow> y = x \<and> part (v_now (hd h)) = part (v_seen (hd h)) \<and>
              sc_history w' = \<lparr>v_by = Operator, v_now = put x (v_now (hd h)), v_seen = put x (v_seen (hd h))\<rparr> # h)"
    by (rule exI [of _ "sc_history w1"]) (use sc_next_drift [of name w] in \<open>cases flt; simp add: sc_write_def n Let_def\<close>)
qed

lemma shared_client_store: "shared_store shared_client sc_history (cautious name)"
  unfolding shared_store_def
  by (simp add: shared_client_def sc_read_reads sc_write_writes sc_status_carries)

lemma keeps_spec_shared: "keeps_spec shared_client"
  by (auto simp: keeps_spec_def shared_client_def sc_status_def split: prod.splits fault.splits)

end
