(* ===== verification/Shared_Health.thy ===== *)
theory Shared_Health
  imports Shared_Cluster
begin

text \<open>
  A server with polite others: they write before any call that lists, reads the ConfigMap or reports a
  status, but not between the operator's read of an object and its update, and no call fails. A
  pass over it ends without an error, so that what a pass publishes among other writers can be
  seen on it.
\<close>

section \<open>The server\<close>

text \<open>A call that comes after the edits that are planned for it, and one that comes before them.\<close>

definition after_edits :: "(shared_cluster \<Rightarrow> 'r \<times> shared_cluster) \<Rightarrow> shared_cluster \<Rightarrow> 'r \<times> shared_cluster" where
  "after_edits f w = f (w\<lparr>sc_plan := map (\<lambda>(es, flt). (es, Works)) (sc_plan w)\<rparr>)"

definition undisturbed :: "(shared_cluster \<Rightarrow> 'r \<times> shared_cluster) \<Rightarrow> shared_cluster \<Rightarrow> 'r \<times> shared_cluster" where
  "undisturbed f w = f (w\<lparr>sc_plan := ([], Works) # sc_plan w\<rparr>)"

definition polite_client :: "shared_cluster client" where
  "polite_client =
     \<lparr>list_zones = after_edits (list_zones shared_client),
      list_records = after_edits (list_records shared_client),
      get_configmap = (\<lambda>ns n. after_edits (get_configmap shared_client ns n)),
      get_deployment = (\<lambda>ns n. undisturbed (get_deployment shared_client ns n)),
      update_zone = (\<lambda>z. undisturbed (update_zone shared_client z)),
      update_configmap = (\<lambda>cm. undisturbed (update_configmap shared_client cm)),
      update_deployment = (\<lambda>d. undisturbed (update_deployment shared_client d)),
      patch_zone_status = (\<lambda>z. after_edits (patch_zone_status shared_client z)),
      patch_record_status = (\<lambda>q. after_edits (patch_record_status shared_client q))\<rparr>"

text \<open>A change of the plan does not change the history, so the contract of the calls is kept.\<close>

lemma sc_history_plan [simp]: "sc_history (w\<lparr>sc_plan := p\<rparr>) = sc_history w"
  by (simp add: sc_history_def)

lemma shared_reads_planned:
  assumes "shared_reads sc_history rely part put f"
  shows "shared_reads sc_history rely part put (after_edits f)" and "shared_reads sc_history rely part put (undisturbed f)"
  unfolding shared_reads_def after_edits_def undisturbed_def
  using assms [unfolded shared_reads_def, THEN spec, of "_\<lparr>sc_plan := _\<rparr>", unfolded sc_history_plan] by (rule allI)+

lemma shared_writes_planned:
  assumes "shared_writes sc_history rely part put f"
  shows "shared_writes sc_history rely part put (\<lambda>x. undisturbed (f x))"
  unfolding shared_writes_def undisturbed_def
  using assms [unfolded shared_writes_def, THEN spec, THEN spec, of "_\<lparr>sc_plan := _\<rparr>", unfolded sc_history_plan]
  by (intro allI)

lemma carries_planned:
  assumes "carries Q sc_history f"
  shows "carries Q sc_history (after_edits f)" and "carries Q sc_history (undisturbed f)"
  using assms unfolding carries_def after_edits_def undisturbed_def by (metis sc_history_plan)+

lemma polite_client_store: "shared_store polite_client sc_history (cautious name)"
  using shared_client_store [of name] unfolding shared_store_def polite_client_def
  by (simp add: shared_reads_planned shared_writes_planned carries_planned)

lemma keeps_spec_polite: "keeps_spec polite_client"
  using keeps_spec_shared unfolding keeps_spec_def polite_client_def undisturbed_def by simp

section \<open>Its calls\<close>

lemma status_after_edits: "\<exists>x w'. after_edits (sc_status f) w = (Inr x, w')"
  by (auto simp: after_edits_def sc_status_def sc_next_def Let_def split: list.split prod.split)

lemma sc_next_undisturbed:
  "sc_next (w\<lparr>sc_plan := ([], Works) # sc_plan w\<rparr>) = (Works, w\<lparr>sc_views := sc_history w\<rparr>)"
  by (simp add: sc_next_def)

lemma sc_history_views [simp]: "sc_history (w\<lparr>sc_views := sc_history w\<rparr>) = sc_history w"
  using sc_history_nonempty [of w] by (simp add: sc_history_def split: list.splits)

lemma status_undisturbed: "\<exists>x w'. undisturbed (sc_status f) w = (Inr x, w')"
  by (simp add: undisturbed_def sc_status_def sc_next_undisturbed split: prod.split)

lemma status_taken [simp]: "\<not> isl (fst (after_edits (sc_status f) w))" "\<not> isl (fst (undisturbed (sc_status f) w))"
  using status_after_edits [of f w] status_undisturbed [of f w] by auto

lemma polite_reports: "takes_reports polite_client"
  by (simp add: takes_reports_def polite_client_def shared_client_def)

text \<open>The edits do not touch the volumes of the Deployment.\<close>

lemma apply_edit_mounts: "mounted_items (snd (apply_edit e s)) name = mounted_items (snd s) name"
  by (cases "(e, s)" rule: apply_edit.cases) (simp_all add: mounted_items_def frame_simps)

lemma edit_views_mounts:
  "mounted_items (snd (v_now (hd (edit_views es h)))) name = mounted_items (snd (v_now (hd h))) name"
  by (induction es arbitrary: h) (simp_all add: apply_edit_mounts)

lemma sc_history_edited: "sc_history (w\<lparr>sc_plan := plan, sc_views := edit_views es (sc_history w)\<rparr>) = edit_views es (sc_history w)"
  using edit_views_nonempty [OF sc_history_nonempty]
  by (auto simp: sc_history_def [of "w\<lparr>sc_plan := plan, sc_views := _\<rparr>"] split: list.split)

abbreviation mounts_now :: "string \<Rightarrow> shared_cluster \<Rightarrow> bool" where
  "mounts_now name w \<equiv> mounted_items (snd (v_now (hd (sc_history w)))) name \<noteq> None"

lemma sc_next_mounts: "sc_next w = (flt, w') \<Longrightarrow> mounts_now name w' \<longleftrightarrow> mounts_now name w"
  by (auto simp: sc_next_def sc_history_edited edit_views_mounts split: list.splits)

section \<open>The commit\<close>

text \<open>What a commit needs: the ConfigMap is the one that was given last, and it is mounted.\<close>

abbreviation in_hand :: "string \<Rightarrow> shared_cluster \<Rightarrow> bool" where
  "in_hand name w \<equiv> fst (v_now (hd (sc_history w))) = fst (v_seen (hd (sc_history w))) \<and> mounts_now name w"

lemma polite_update_configmap:
  "in_hand name w \<Longrightarrow> \<exists>x w'. update_configmap polite_client cm w = (Inr x, w') \<and> in_hand name w'"
  by (simp add: polite_client_def shared_client_def undisturbed_def sc_write_def sc_next_undisturbed Let_def)

lemma polite_get_deployment:
  "\<exists>w'. get_deployment polite_client ns n w = (Inr (snd (v_now (hd (sc_history w)))), w')
     \<and> v_now (hd (sc_history w')) = v_now (hd (sc_history w))
     \<and> v_seen (hd (sc_history w')) = (fst (v_seen (hd (sc_history w))), snd (v_now (hd (sc_history w))))"
  by (simp add: polite_client_def shared_client_def undisturbed_def sc_read_def sc_next_undisturbed Let_def)

lemma polite_update_deployment:
  "in_hand name w \<Longrightarrow> snd (v_now (hd (sc_history w))) = snd (v_seen (hd (sc_history w))) \<Longrightarrow> mounted_items d name \<noteq> None
     \<Longrightarrow> \<exists>x w'. update_deployment polite_client d w = (Inr x, w') \<and> in_hand name w'"
  by (simp add: polite_client_def shared_client_def undisturbed_def sc_write_def sc_next_undisturbed Let_def)

lemma polite_updateIfChanged:
  assumes "Client r = polite_client" and "in_hand name w"
  shows "\<exists>cm' w'. updateIfChanged r ch cm w = (Inr cm', w') \<and> in_hand name w'"
  using polite_update_configmap [OF assms(2), of cm] assms by (cases ch) (auto simp: updateIfChanged_def)

lemma polite_setVolumeItems:
  assumes "Client r = polite_client" and "in_hand (CoreDNSConfigMap r) w"
  shows "\<exists>p w'. setVolumeItems r ordK M P restart h w = (Inr p, w') \<and> in_hand (CoreDNSConfigMap r) w'"
proof -
  let ?now = "\<lambda>w. v_now (hd (sc_history w))" and ?seen = "\<lambda>w. v_seen (hd (sc_history w))"
  obtain w1 where g: "get_deployment (Client r) (CoreDNSNamespace r) (CoreDNSDeployment r) w = (Inr (snd (?now w)), w1)"
    and now: "?now w1 = ?now w" and seen: "?seen w1 = (fst (?seen w), snd (?now w))"
    using polite_get_deployment unfolding assms(1) by blast
  have hand: "in_hand (CoreDNSConfigMap r) w1" using assms(2) by (simp add: now seen)
  show ?thesis
  proof (rule setVolumeItems_serves [OF g])
    show "mounted_items (snd (?now w)) (CoreDNSConfigMap r) \<noteq> None" using assms(2) by blast
    show "\<exists>x w2. update_deployment (Client r) d w1 = (Inr x, w2) \<and> in_hand (CoreDNSConfigMap r) w2"
      if "mounted_items d (CoreDNSConfigMap r) \<noteq> None" for d
      unfolding assms(1) by (rule polite_update_deployment [OF hand _ that]) (simp add: now seen)
  qed (rule hand)
qed

lemma polite_commitCoreDNS:
  assumes "Client r = polite_client" and "in_hand (CoreDNSConfigMap r) w"
  shows "\<exists>w'. commitCoreDNS r ordK cm corefile files prev reloadable h w = (None, w')"
  by (rule commitCoreDNS_steps [where G = "in_hand (CoreDNSConfigMap r)"])
    (rule polite_updateIfChanged [OF assms(1)] polite_setVolumeItems [OF assms(1)] assms(2); assumption)+

section \<open>The pass\<close>

lemma polite_update_zone: "sc_history (snd (update_zone polite_client z w)) = sc_history w"
  by (simp add: polite_client_def shared_client_def undisturbed_def sc_status_def sc_next_undisturbed)

lemma polite_claimZones:
  "Client r = polite_client \<Longrightarrow> claimZones r zones w = (res, w') \<Longrightarrow> sc_history w' = sc_history w"
proof (induction zones arbitrary: w res w')
  case (Cons z zs)
  have u: "update_zone (Client r) y w = (x, w1) \<Longrightarrow> sc_history w1 = sc_history w" for y x w1
    using polite_update_zone [of y w] by (simp add: Cons.prems(1))
  show ?case
    using Cons.prems(2) Cons.IH [OF Cons.prems(1)] u by (auto split: if_splits prod.splits sum.splits)
qed simp

text \<open>A call that comes after edits ends in a history that was drifted to, with the mounts of before.\<close>

lemma edits_next:
  obtains w1 where "sc_next (w\<lparr>sc_plan := map (\<lambda>(es, flt). (es, Works)) (sc_plan w)\<rparr>) = (Works, w1)"
    and "drifts (cautious name) (sc_history w) (sc_history w1)" and "mounts_now name w1 \<longleftrightarrow> mounts_now name w"
proof -
  let ?w = "w\<lparr>sc_plan := map (\<lambda>(es, flt). (es, Works)) (sc_plan w)\<rparr>"
  obtain flt w1 where n: "sc_next ?w = (flt, w1)" by (rule prod.exhaust)
  have "flt = Works" using n by (auto simp: sc_next_def split: list.splits prod.splits)
  then show ?thesis using that [of w1] n sc_next_drift [of name ?w] sc_next_mounts [OF n, of name] by simp
qed

lemma polite_lists:
  assumes "list_zones polite_client w = (res, w') \<or> list_records polite_client w = (res', w')"
  shows "drifts (cautious name) (sc_history w) (sc_history w') \<and> (mounts_now name w \<longrightarrow> mounts_now name w')"
proof -
  obtain w1 where n: "sc_next (w\<lparr>sc_plan := map (\<lambda>(es, flt). (es, Works)) (sc_plan w)\<rparr>) = (Works, w1)"
    and d: "drifts (cautious name) (sc_history w) (sc_history w1)" and m: "mounts_now name w1 \<longleftrightarrow> mounts_now name w"
    by (rule edits_next)
  have "w' = w1" using assms by (auto simp: polite_client_def shared_client_def after_edits_def sc_status_def n)
  then show ?thesis using d m by simp
qed

lemma polite_get_configmap:
  "\<exists>h w'. get_configmap polite_client ns n w = (Inr (fst (v_now (hd h))), w')
     \<and> drifts (cautious name) (sc_history w) h \<and> v_now (hd (sc_history w')) = v_now (hd h)
     \<and> fst (v_seen (hd (sc_history w'))) = fst (v_now (hd h)) \<and> (mounts_now name w \<longrightarrow> mounts_now name w')"
proof -
  obtain w1 where next1: "sc_next (w\<lparr>sc_plan := map (\<lambda>(es, flt). (es, Works)) (sc_plan w)\<rparr>) = (Works, w1)"
    and d: "drifts (cautious name) (sc_history w) (sc_history w1)" and m: "mounts_now name w1 \<longleftrightarrow> mounts_now name w"
    by (rule edits_next)
  show ?thesis
    by (rule exI [of _ "sc_history w1"]) (use d m in \<open>simp add: polite_client_def shared_client_def after_edits_def sc_read_def next1 Let_def\<close>)
qed

lemma polite_Reconcile:
  assumes c: "Client r = polite_client" and st: "stable (CoreDNSConfigMap r) (v_now (hd (sc_history w)))"
    and m: "mounts_now (CoreDNSConfigMap r) w"
  shows "\<exists>w'. Reconcile r env w = (None, w')"
proof -
  let ?name = "CoreDNSConfigMap r" and ?now = "\<lambda>w. v_now (hd (sc_history w))"
  obtain zones w1 where k1: "list_zones polite_client w = (Inr zones, w1)"
    using status_after_edits by (fastforce simp: polite_client_def shared_client_def)
  obtain records w2 where k2: "list_records polite_client w1 = (Inr records, w2)"
    using status_after_edits by (fastforce simp: polite_client_def shared_client_def)
  obtain h w3 where k3: "get_configmap polite_client (CoreDNSNamespace r) ?name w2 = (Inr (fst (v_now (hd h))), w3)"
    and d: "drifts (cautious ?name) (sc_history w2) h" and now: "?now w3 = v_now (hd h)"
    and seen: "fst (v_seen (hd (sc_history w3))) = fst (v_now (hd h))" and m3: "mounts_now ?name w2 \<longrightarrow> mounts_now ?name w3"
    using polite_get_configmap [where ns = "CoreDNSNamespace r" and n = ?name and w = w2 and name = ?name] by metis
  note L1 = polite_lists [OF disjI1 [OF k1], of ?name] and L2 = polite_lists [OF disjI2 [OF k2], of ?name]
  have "drifts (cautious ?name) (sc_history w) h" using L1 L2 d drifts_trans by blast
  from among_drift [OF this st] have "stable ?name (v_now (hd h))" .
  note S = stableD [OF this]
  have hand: "in_hand ?name w3" using L1 L2 m m3 by (simp add: now seen)
  show ?thesis
  proof (rule Reconcile_commits [OF _ k1 [folded c] k2 [folded c] k3 [folded c]])
    show "takes_reports (Client r)" by (simp add: c polite_reports)
    show "corefile_of (fst (v_now (hd h))) \<noteq> []" by (rule S(4))
    show "markers_ok (corefile_of (fst (v_now (hd h))))" using S(3) by (simp add: block_fit_def)
    show "\<exists>w5. commitCoreDNS r (env_Items env) cm patched files prev reloadable g w4 = (None, w5)"
      if "claimZones r zones w3 = (Inr zones', w4)" for zones' w4 cm patched files prev reloadable g
      using polite_commitCoreDNS [OF c] hand unfolding polite_claimZones [OF c that, symmetric] by blast
  qed
qed

end
