(* ===== verification/Shared_Properties.thy ===== *)
theory Shared_Properties
  imports Shared_Health Reconcile_Properties
begin

text \<open>
  The properties of the reconciler among other writers, each followed by an application to a
  simulated server whose plan has edits of others between the calls of a pass.
\<close>

section \<open>Concrete inputs\<close>

definition sample_shared :: "(edit list \<times> fault) list \<Rightarrow> shared_cluster" where
  "sample_shared plan =
     \<lparr>sc_zones = [sample_zone], sc_records = [sample_spec ''team-a'' ''web'' ''www'' ''10.0.0.1''],
      sc_views = [\<lparr>v_by = Other, v_now = (sample_configmap, sample_coredns), v_seen = (sample_configmap, sample_coredns)\<rparr>],
      sc_plan = plan\<rparr>"

definition sample_among :: "shared_cluster PrivateDNSZoneReconciler" where
  "sample_among =
     \<lparr>Client = shared_client, CoreDNSNamespace = ''kube-system'', CoreDNSConfigMap = ''coredns'',
      CoreDNSDeployment = ''coredns''\<rparr>"

text \<open>Someone puts a note into the ConfigMap between two writes of the commit; a reply is lost; someone
  restarts CoreDNS.\<close>

definition sample_plan :: "(edit list \<times> fault) list" where
  "sample_plan =
     [([], Works), ([PutKey ''notes'' ''by hand''], Works), ([], Works), ([], Works), ([RestartPods ''1''], Works),
      ([], Works), ([PutKey ''notes'' ''changed'', RestartPods ''2''], Works), ([], LostReply)]"

lemma sample_shared_start: "sc_history (sample_shared plan) =
    [\<lparr>v_by = Other, v_now = (sample_configmap, sample_coredns), v_seen = (sample_configmap, sample_coredns)\<rparr>]"
  by (simp add: sc_history_def sample_shared_def)

lemma sample_shared_stable: "stable ''coredns'' (v_now (hd (sc_history (sample_shared plan))))"
  by (simp add: sample_shared_start sample_stable)

lemma sample_among_simps [simp]:
  "Client sample_among = shared_client" "CoreDNSConfigMap sample_among = ''coredns''"
  by (simp_all add: sample_among_def)

definition sample_polite :: "shared_cluster PrivateDNSZoneReconciler" where
  "sample_polite = sample_among\<lparr>Client := polite_client\<rparr>"

lemma sample_polite_simps [simp]:
  "Client sample_polite = polite_client" "CoreDNSConfigMap sample_polite = ''coredns''"
  by (simp_all add: sample_polite_def)

lemma sample_specs_clean:
  "spec_clean (z_Spec sample_zone)" "record_clean_values (sample_spec ''team-a'' ''web'' ''www'' ''10.0.0.1'')"
proof -
  have "value_clean ''A'' ''10.0.0.1''" unfolding value_clean_def by code_simp
  then show "spec_clean (z_Spec sample_zone)" "record_clean_values (sample_spec ''team-a'' ''web'' ''www'' ''10.0.0.1'')"
    by (simp_all add: spec_clean_def sample_zone_def record_clean_values_def sample_spec_def)
qed

lemma shared_lists:
  "list_zones shared_client w = (Inr zones, w') \<Longrightarrow> zones = sc_zones w \<and> sc_records w' = sc_records w"
  "list_records shared_client w = (Inr records, w') \<Longrightarrow> records = sc_records w"
  by (auto simp: shared_client_def sc_status_def sc_next_def split: prod.splits fault.splits list.splits)

lemma polite_lists_objects:
  "list_zones polite_client w = (Inr zones, w') \<Longrightarrow> zones = sc_zones w \<and> sc_records w' = sc_records w"
  "list_records polite_client w = (Inr records, w') \<Longrightarrow> records = sc_records w"
  using shared_lists(1) [of "w\<lparr>sc_plan := _\<rparr>"] shared_lists(2) [of "w\<lparr>sc_plan := _\<rparr>"]
  by (fastforce simp: polite_client_def after_edits_def)+

lemma sample_lists_clean:
  assumes zones: "\<And>w zones w'. list_zones c w = (Inr zones, w') \<Longrightarrow> zones = sc_zones w \<and> sc_records w' = sc_records w"
    and records: "\<And>w records w'. list_records c w = (Inr records, w') \<Longrightarrow> records = sc_records w"
  shows "inputs_clean c (sample_shared plan)"
  unfolding inputs_clean_def
proof (intro allI impI conjI)
  fix zones w1
  assume "list_zones c (sample_shared plan) = (Inr zones, w1)"
  from assms(1) [OF this] have z: "zones = [sample_zone]"
    and r: "sc_records w1 = [sample_spec ''team-a'' ''web'' ''www'' ''10.0.0.1'']" by (simp_all add: sample_shared_def)
  show "\<forall>z \<in> set zones. spec_clean (z_Spec z)" using sample_specs_clean by (simp add: z)
  show "\<forall>e \<in> set records. record_clean_values e" if "list_records c w1 = (Inr records, w2)" for records w2
    using sample_specs_clean assms(2) [OF that] by (simp add: r)
qed

lemma sample_shared_clean: "inputs_clean shared_client (sample_shared plan)"
  by (rule sample_lists_clean) (rule shared_lists; assumption)+

lemma sample_polite_clean: "inputs_clean polite_client (sample_shared plan)"
  by (rule sample_lists_clean) (rule polite_lists_objects; assumption)+

lemma sample_passes:
  obtains res w' where "Reconcile sample_among sample_env (sample_shared sample_plan) = (res, w')"
    and "operates_among sample_among (sample_shared sample_plan) w'"
proof -
  obtain res w' where run: "Reconcile sample_among sample_env (sample_shared sample_plan) = (res, w')" by (rule prod.exhaust)
  have "operates_among sample_among (sample_shared sample_plan) w'"
    by (rule among_pass [OF among_start sample_env_ok _ run]) (simp add: sample_shared_clean)
  with run show ?thesis using that by blast
qed

section \<open>Safety among others\<close>

text \<open>C3. Passes of the operator while others write the same two objects at any time, between any two of its
  calls: as long as the others leave the operator's keys, mounts and stanzas alone and do not break
  the mounts themselves (\<open>cautious\<close>), every state that is ever stored, by the operator or by
  another, is safe. The operator relies on nothing else but the version check of the API server.
  The values listed in each pass hold no end marker (\<open>inputs_clean\<close>, in \<open>operates_among\<close>), and an
  update of a zone returns the spec that was sent (\<open>keeps_spec\<close>).\<close>
theorem passes_among_others_safe:
  assumes "operates_among r w0 w" and "shared_store (Client r) states (cautious (CoreDNSConfigMap r))"
    and "keeps_spec (Client r)" and "stable (CoreDNSConfigMap r) (v_now (hd (states w0)))"
  shows "\<exists>hs. states w = hs @ states w0 \<and> (\<forall>v \<in> set hs. safe (layout_of (CoreDNSConfigMap r) (v_now v)))"
proof -
  from among_stable [OF operates_among_grows [OF assms] assms(4)] obtain hs where
    "states w = hs @ states w0" "\<forall>v \<in> set hs. stable (CoreDNSConfigMap r) (v_now v)" by blast
  then show ?thesis using stableD(1) by blast
qed

theorem passes_among_others_safe_witness:
  "\<exists>res w' hs. Reconcile sample_among sample_env (sample_shared sample_plan) = (res, w')
     \<and> sc_history w' = hs @ sc_history (sample_shared sample_plan)
     \<and> (\<forall>v \<in> set hs. safe (layout_of ''coredns'' (v_now v)))"
proof -
  obtain res w' where run: "Reconcile sample_among sample_env (sample_shared sample_plan) = (res, w')"
    and ops: "operates_among sample_among (sample_shared sample_plan) w'" by (rule sample_passes)
  have "shared_store (Client sample_among) sc_history (cautious (CoreDNSConfigMap sample_among))"
    "keeps_spec (Client sample_among)"
    "stable (CoreDNSConfigMap sample_among) (v_now (hd (sc_history (sample_shared sample_plan))))"
    by (simp_all add: shared_client_store keeps_spec_shared sample_shared_stable)
  from passes_among_others_safe [OF ops this] run show ?thesis by auto
qed

text \<open>C4. The operator loses no edit of the others: each of its writes, whenever it takes effect, differs from
  the state stored before it only in what the operator owns. The keys that are not zone files, the
  text outside the block, the other annotations and the other volumes are those of the state it
  replaces, edits made since the operator read the object included, and no key of others is
  unmounted.\<close>
theorem others_edits_kept:
  assumes "operates_among r w0 w" and "shared_store (Client r) states (cautious (CoreDNSConfigMap r))"
    and "keeps_spec (Client r)" and "stable (CoreDNSConfigMap r) (v_now (hd (states w0)))"
  shows "grows (\<lambda>v v'. v_by v' = Operator \<longrightarrow> leaves_others (CoreDNSConfigMap r) (v_now v) (v_now v')) (states w0) (states w)"
  by (rule grows_mono [OF operates_among_grows [OF assms]]) (auto simp: shared_step_def own_step_def)

theorem others_edits_kept_witness:
  "\<exists>res w'. Reconcile sample_among sample_env (sample_shared sample_plan) = (res, w')
     \<and> grows (\<lambda>v v'. v_by v' = Operator \<longrightarrow> leaves_others ''coredns'' (v_now v) (v_now v'))
         (sc_history (sample_shared sample_plan)) (sc_history w')"
proof -
  obtain res w' where run: "Reconcile sample_among sample_env (sample_shared sample_plan) = (res, w')"
    and ops: "operates_among sample_among (sample_shared sample_plan) w'" by (rule sample_passes)
  have "shared_store (Client sample_among) sc_history (cautious (CoreDNSConfigMap sample_among))"
    "keeps_spec (Client sample_among)"
    "stable (CoreDNSConfigMap sample_among) (v_now (hd (sc_history (sample_shared sample_plan))))"
    by (simp_all add: shared_client_store keeps_spec_shared sample_shared_stable)
  from others_edits_kept [OF ops this] run show ?thesis by auto
qed

section \<open>Publishing among others\<close>

text \<open>C5. A pass that returns no error has published also when others write the two objects during
  the pass, as long as these are cautious: they may add and change keys, annotations and volumes of
  their own and the text outside the block, and restart CoreDNS, but they leave the managed keys,
  their annotation, the stanzas and the mounts of the managed keys as they are. What is stored when
  the pass returns then has every zone file of the pass with its content, mounted, exactly these
  files recorded as managed, and in the block the stanzas of the Corefile the pass computed. A
  foreign write to what the operator owns, such as the deletion of a zone file, is not covered.\<close>
theorem Reconcile_publishes_among:
  assumes "shared_store (Client r) states (cautious (CoreDNSConfigMap r))" and "keeps_spec (Client r)" and "env_ok env"
    and "inputs_clean (Client r) w" and "stable (CoreDNSConfigMap r) (v_now (hd (states w)))"
    and "Reconcile r env w = (None, w')"
  shows "published_for r env w (v_now (hd (states w')))"
  using Reconcile_among [OF assms(1) refl assms(2-6)] by blast

theorem Reconcile_publishes_among_witness:
  "\<exists>w'. Reconcile sample_polite sample_env (sample_shared sample_plan) = (None, w')
     \<and> published_for sample_polite sample_env (sample_shared sample_plan) (v_now (hd (sc_history w')))"
proof -
  note c = sample_polite_simps
  have st: "stable (CoreDNSConfigMap sample_polite) (v_now (hd (sc_history (sample_shared sample_plan))))"
    by (simp add: sample_shared_stable)
  have "mounts_now (CoreDNSConfigMap sample_polite) (sample_shared sample_plan)"
    by (simp add: sample_shared_start mounted_items_def mounts_def sample_coredns_def)
  then obtain w' where run: "Reconcile sample_polite sample_env (sample_shared sample_plan) = (None, w')"
    using polite_Reconcile [OF c(1) st] by blast
  have store: "shared_store (Client sample_polite) sc_history (cautious (CoreDNSConfigMap sample_polite))"
    and spec: "keeps_spec (Client sample_polite)"
    by (simp_all add: polite_client_store keeps_spec_polite)
  have "inputs_clean (Client sample_polite) (sample_shared sample_plan)" by (simp add: sample_polite_clean)
  from Reconcile_publishes_among [OF store spec sample_env_ok this st run] run show ?thesis by blast
qed

end
