(* ===== verification/Go_Heap.thy ===== *)
theory Go_Heap
  imports Prelude "HOL-Library.Monad_Syntax"
begin

text \<open>
  Memory of a Go program, as far as copying needs it: a list of cells, each an array of values
  of one type; an address is a position in the list and allocation appends. A pointer is a
  position in an array, a slice a range of one, \<open>None\<close> is nil. A variable made by \<^verbatim>\<open>new\<close> is an
  array of one. Access through a pointer that leads nowhere is \<open>None\<close>.

  The interface \<open>heap_copy\<close> is the contract of a deep copy: the copy denotes the same value, it
  lives in new cells alone, and no cell that was there has changed.
\<close>

section \<open>Cells, pointers and slices\<close>

record pointer =
  p_at :: nat
  p_index :: nat

record slice =
  sl_at :: nat
  sl_off :: nat
  sl_len :: nat

text \<open>The projection of a cell to the arrays of one type is a parameter (\<open>un\<close>), as is its
  injection (\<open>wr\<close>).\<close>

definition array_at :: "('c \<Rightarrow> 'a list option) \<Rightarrow> 'c list \<Rightarrow> nat \<Rightarrow> 'a list option" where
  "array_at un h a = (if a < length h then un (h ! a) else None)"

definition load :: "('c \<Rightarrow> 'a list option) \<Rightarrow> 'c list \<Rightarrow> pointer \<Rightarrow> 'a option" where
  "load un h p = do {
     xs \<leftarrow> array_at un h (p_at p);
     if p_index p < length xs then Some (xs ! p_index p) else None }"

definition store :: "('a list \<Rightarrow> 'c) \<Rightarrow> ('c \<Rightarrow> 'a list option) \<Rightarrow> pointer \<Rightarrow> 'a \<Rightarrow> 'c list \<Rightarrow> 'c list option" where
  "store wr un p x h = do {
     xs \<leftarrow> array_at un h (p_at p);
     if p_index p < length xs then Some (h[p_at p := wr (xs[p_index p := x])]) else None }"

text \<open>\<^verbatim>\<open>make([]T, n)\<close> and \<^verbatim>\<open>new(T)\<close>: an array of zero values in a new cell.\<close>

definition make_array :: "('a list \<Rightarrow> 'c) \<Rightarrow> 'a \<Rightarrow> nat \<Rightarrow> 'c list \<Rightarrow> nat \<times> 'c list" where
  "make_array wr zero n h = (length h, h @ [wr (replicate n zero)])"

definition elements :: "('c \<Rightarrow> 'a list option) \<Rightarrow> 'c list \<Rightarrow> slice \<Rightarrow> 'a list option" where
  "elements un h s = do {
     xs \<leftarrow> array_at un h (sl_at s);
     if sl_off s + sl_len s \<le> length xs then Some (take (sl_len s) (drop (sl_off s) xs)) else None }"

lemma array_at_append: "array_at un h a = Some xs \<Longrightarrow> array_at un (h @ e) a = Some xs"
  by (auto simp: array_at_def nth_append split: if_splits)

lemma array_at_dom: "array_at un h a = Some xs \<Longrightarrow> a < length h"
  by (auto simp: array_at_def split: if_splits)

lemma array_at_agree: "a < length h' \<Longrightarrow> h' ! a = h ! a \<Longrightarrow> array_at un h a = Some xs \<Longrightarrow> array_at un h' a = Some xs"
  by (auto simp: array_at_def split: if_splits)

lemma load_Some:
  "load un h p = Some x \<longleftrightarrow> (\<exists>xs. array_at un h (p_at p) = Some xs \<and> p_index p < length xs \<and> x = xs ! p_index p)"
  by (auto simp: load_def bind_eq_Some_conv)

lemma elements_Some:
  "elements un h s = Some xs \<longleftrightarrow>
     (\<exists>ys. array_at un h (sl_at s) = Some ys \<and> sl_off s + sl_len s \<le> length ys \<and> xs = take (sl_len s) (drop (sl_off s) ys))"
  by (auto simp: elements_def bind_eq_Some_conv)

lemma load_element:
  assumes "elements un h s = Some xs" and "i < length xs"
  shows "load un h \<lparr>p_at = sl_at s, p_index = sl_off s + i\<rparr> = Some (xs ! i)"
  using assms by (auto simp: elements_Some load_Some)

lemma elements_length: "elements un h s = Some xs \<Longrightarrow> length xs = sl_len s"
  by (auto simp: elements_Some)

section \<open>Copying\<close>

text \<open>The loop \<^verbatim>\<open>for i := range *in { (*in)[i].DeepCopyInto(&(*out)[i]) }\<close>, over the indices that
  remain; the builtin \<^verbatim>\<open>copy\<close> is the same loop with assignments.\<close>

fun copy_each ::
    "('a list \<Rightarrow> 'c) \<Rightarrow> ('c \<Rightarrow> 'a list option) \<Rightarrow> ('a \<Rightarrow> 'c list \<Rightarrow> ('a \<times> 'c list) option) \<Rightarrow> slice \<Rightarrow> nat
     \<Rightarrow> nat list \<Rightarrow> 'c list \<Rightarrow> 'c list option" where
  "copy_each wr un copy src dst [] h = Some h"
| "copy_each wr un copy src dst (i # is) h = do {
     x \<leftarrow> load un h \<lparr>p_at = sl_at src, p_index = sl_off src + i\<rparr>;
     (y, h) \<leftarrow> copy x h;
     h \<leftarrow> store wr un \<lparr>p_at = dst, p_index = i\<rparr> y h;
     copy_each wr un copy src dst is h }"

text \<open>\<^verbatim>\<open>if in.X != nil { *out = make([]T, len(*in)); ... }\<close>.\<close>

definition slice_copy ::
    "('a list \<Rightarrow> 'c) \<Rightarrow> ('c \<Rightarrow> 'a list option) \<Rightarrow> 'a \<Rightarrow> ('a \<Rightarrow> 'c list \<Rightarrow> ('a \<times> 'c list) option)
     \<Rightarrow> slice option \<Rightarrow> 'c list \<Rightarrow> (slice option \<times> 'c list) option" where
  "slice_copy wr un zero copy s h =
     (case s of
        None \<Rightarrow> Some (None, h)
      | Some src \<Rightarrow>
          (let (dst, h) = make_array wr zero (sl_len src) h in do {
             h \<leftarrow> copy_each wr un copy src dst [0..<sl_len src] h;
             Some (Some \<lparr>sl_at = dst, sl_off = 0, sl_len = sl_len src\<rparr>, h) }))"

text \<open>\<^verbatim>\<open>if in == nil { return nil }; out := new(T); in.DeepCopyInto(out); return out\<close>, and the same
  for an optional field.\<close>

definition pointer_copy ::
    "('a list \<Rightarrow> 'c) \<Rightarrow> ('c \<Rightarrow> 'a list option) \<Rightarrow> 'a \<Rightarrow> ('a \<Rightarrow> 'c list \<Rightarrow> ('a \<times> 'c list) option)
     \<Rightarrow> pointer option \<Rightarrow> 'c list \<Rightarrow> (pointer option \<times> 'c list) option" where
  "pointer_copy wr un zero copy p h =
     (case p of
        None \<Rightarrow> Some (None, h)
      | Some src \<Rightarrow>
          (let (dst, h) = make_array wr zero 1 h in do {
             x \<leftarrow> load un h src;
             (y, h) \<leftarrow> copy x h;
             h \<leftarrow> store wr un \<lparr>p_at = dst, p_index = 0\<rparr> y h;
             Some (Some \<lparr>p_at = dst, p_index = 0\<rparr>, h) }))"

definition plain_copy :: "'a \<Rightarrow> 'c list \<Rightarrow> ('a \<times> 'c list) option" where
  "plain_copy x h = Some (x, h)"

section \<open>The contract of a deep copy\<close>

text \<open>Two memories with the same cells at some addresses.\<close>

definition agree :: "nat set \<Rightarrow> 'c list \<Rightarrow> 'c list \<Rightarrow> bool" where
  "agree A h h' \<longleftrightarrow> (\<forall>a \<in> A. a < length h' \<and> h' ! a = h ! a)"

lemma agree_mono: "agree A h h' \<Longrightarrow> B \<subseteq> A \<Longrightarrow> agree B h h'"
  by (auto simp: agree_def)

lemma agree_append: "A \<subseteq> {..<length h} \<Longrightarrow> agree A h (h @ e)"
  by (auto simp: agree_def nth_append)

lemma agree_Un: "agree (A \<union> B) h h' \<longleftrightarrow> agree A h h' \<and> agree B h h'"
  by (auto simp: agree_def)

lemma agree_array_at: "agree A h h' \<Longrightarrow> a \<in> A \<Longrightarrow> array_at un h a = Some xs \<Longrightarrow> array_at un h' a = Some xs"
  using array_at_agree by (fastforce simp: agree_def)

text \<open>What a value denotes in a memory (\<open>view\<close>), the addresses that depends on (\<open>foot\<close>), and a
  function that copies it.\<close>

locale heap_copy =
  fixes view :: "'c list \<Rightarrow> 'a \<Rightarrow> 'v option"
    and foot :: "'c list \<Rightarrow> 'a \<Rightarrow> nat set"
    and copy :: "'a \<Rightarrow> 'c list \<Rightarrow> ('a \<times> 'c list) option"
  assumes foot_bound: "view h x = Some v \<Longrightarrow> foot h x \<subseteq> {..<length h}"
    and frame: "view h x = Some v \<Longrightarrow> agree (foot h x) h h' \<Longrightarrow> view h' x = Some v \<and> foot h' x = foot h x"
    and copies: "view h x = Some v \<Longrightarrow> \<exists>y e. copy x h = Some (y, h @ e) \<and> view (h @ e) y = Some v
        \<and> foot (h @ e) y \<subseteq> {length h..<length (h @ e)}"
begin

lemma view_append: "view h x = Some v \<Longrightarrow> view (h @ e) x = Some v \<and> foot (h @ e) x = foot h x"
  by (rule frame [OF _ agree_append [OF foot_bound]])

text \<open>Whatever happens to the memory of one of the two, the other denotes the same value.\<close>

lemma separate:
  assumes "view h x = Some v"
  shows "\<exists>y e. copy x h = Some (y, h @ e)
    \<and> (\<forall>g. agree {length h..<length (h @ e)} (h @ e) g \<longrightarrow> view g y = Some v)
    \<and> (\<forall>g. agree {..<length h} (h @ e) g \<longrightarrow> view g x = Some v)"
proof -
  obtain y e where c: "copy x h = Some (y, h @ e)" "view (h @ e) y = Some v" "foot (h @ e) y \<subseteq> {length h..<length (h @ e)}"
    using copies [OF assms] by blast
  note x = view_append [OF assms, of e]
  have "view g y = Some v" if "agree {length h..<length (h @ e)} (h @ e) g" for g
    using frame [OF c(2) agree_mono [OF that c(3)]] by blast
  moreover have "view g x = Some v" if "agree {..<length h} (h @ e) g" for g
    using frame [of "h @ e" x v g] x agree_mono [OF that] foot_bound [OF assms] by simp
  ultimately show ?thesis using c(1) by blast
qed

end

text \<open>Values without pointers.\<close>

lemma heap_copy_plain: "heap_copy (\<lambda>h. g) (\<lambda>h x. {}) plain_copy"
  by unfold_locales (auto simp: plain_copy_def intro: exI [of _ "[]"])

section \<open>Pairs and fields\<close>

definition pair_view :: "('h \<Rightarrow> 'a \<Rightarrow> 'v option) \<Rightarrow> ('h \<Rightarrow> 'b \<Rightarrow> 'w option) \<Rightarrow> 'h \<Rightarrow> 'a \<times> 'b \<Rightarrow> ('v \<times> 'w) option" where
  "pair_view va vb h p = do { a \<leftarrow> va h (fst p); b \<leftarrow> vb h (snd p); Some (a, b) }"

definition pair_foot :: "('h \<Rightarrow> 'a \<Rightarrow> nat set) \<Rightarrow> ('h \<Rightarrow> 'b \<Rightarrow> nat set) \<Rightarrow> 'h \<Rightarrow> 'a \<times> 'b \<Rightarrow> nat set" where
  "pair_foot fa fb h p = fa h (fst p) \<union> fb h (snd p)"

definition pair_copy ::
    "('a \<Rightarrow> 'c list \<Rightarrow> ('a \<times> 'c list) option) \<Rightarrow> ('b \<Rightarrow> 'c list \<Rightarrow> ('b \<times> 'c list) option)
     \<Rightarrow> 'a \<times> 'b \<Rightarrow> 'c list \<Rightarrow> (('a \<times> 'b) \<times> 'c list) option" where
  "pair_copy ca cb p h = do { (a, h) \<leftarrow> ca (fst p) h; (b, h) \<leftarrow> cb (snd p) h; Some ((a, b), h) }"

lemma heap_copy_pair:
  assumes A: "heap_copy va fa ca" and B: "heap_copy vb fb cb"
  shows "heap_copy (pair_view va vb) (pair_foot fa fb) (pair_copy ca cb)"
proof
  fix h p v
  assume "pair_view va vb h p = Some v"
  then obtain v1 v2 where v: "va h (fst p) = Some v1" "vb h (snd p) = Some v2" "v = (v1, v2)"
    by (auto simp: pair_view_def bind_eq_Some_conv)
  show "pair_foot fa fb h p \<subseteq> {..<length h}"
    using heap_copy.foot_bound [OF A v(1)] heap_copy.foot_bound [OF B v(2)] by (simp add: pair_foot_def)
  show "pair_view va vb h' p = Some v \<and> pair_foot fa fb h' p = pair_foot fa fb h p" if "agree (pair_foot fa fb h p) h h'" for h'
    using heap_copy.frame [OF A v(1)] heap_copy.frame [OF B v(2)] that v(3)
    by (simp add: pair_view_def pair_foot_def agree_Un)
  obtain y1 e1 where 1: "ca (fst p) h = Some (y1, h @ e1)" "va (h @ e1) y1 = Some v1"
      "fa (h @ e1) y1 \<subseteq> {length h..<length (h @ e1)}"
    using heap_copy.copies [OF A v(1)] by blast
  note x2 = heap_copy.view_append [OF B v(2), of e1]
  then obtain y2 e2 where 2: "cb (snd p) (h @ e1) = Some (y2, (h @ e1) @ e2)" "vb ((h @ e1) @ e2) y2 = Some v2"
      "fb ((h @ e1) @ e2) y2 \<subseteq> {length (h @ e1)..<length ((h @ e1) @ e2)}"
    using heap_copy.copies [OF B, of "h @ e1" "snd p" v2] by blast
  note y1 = heap_copy.view_append [OF A 1(2), of e2]
  show "\<exists>y e. pair_copy ca cb p h = Some (y, h @ e) \<and> pair_view va vb (h @ e) y = Some v
      \<and> pair_foot fa fb (h @ e) y \<subseteq> {length h..<length (h @ e)}"
    using 1 2 y1 v(3) by (intro exI [of _ "(y1, y2)"] exI [of _ "e1 @ e2"]) (auto simp: pair_copy_def pair_view_def pair_foot_def)
qed

text \<open>A struct whose pointers are in one part of it: the part is copied, the rest assigned.\<close>

lemma heap_copy_struct:
  assumes A: "heap_copy va fa ca"
    and view: "\<And>h s. view h s = map_option (mk s) (va h (get s))"
    and foot: "\<And>h s. foot h s = fa h (get s)"
    and copy: "\<And>s h. copy s h = (do { (a, h) \<leftarrow> ca (get s) h; Some (put a s, h) })"
    and get: "\<And>s a. get (put a s) = a" and mk: "\<And>s a. mk (put a s) = mk s"
  shows "heap_copy view foot copy"
proof
  fix h s v
  assume "view h s = Some v"
  then obtain u where u: "va h (get s) = Some u" "v = mk s u" by (auto simp: view)
  show "foot h s \<subseteq> {..<length h}" unfolding foot by (rule heap_copy.foot_bound [OF A u(1)])
  show "view h' s = Some v \<and> foot h' s = foot h s" if "agree (foot h s) h h'" for h'
    using heap_copy.frame [OF A u(1) that [unfolded foot]] u(2) by (simp add: view foot)
  obtain y e where "ca (get s) h = Some (y, h @ e)" "va (h @ e) y = Some u" "fa (h @ e) y \<subseteq> {length h..<length (h @ e)}"
    using heap_copy.copies [OF A u(1)] by blast
  then show "\<exists>y e. copy s h = Some (y, h @ e) \<and> view (h @ e) y = Some v \<and> foot (h @ e) y \<subseteq> {length h..<length (h @ e)}"
    by (intro exI [of _ "put y s"] exI [of _ e]) (simp add: view foot copy get mk u(2))
qed

section \<open>Arrays of copied values\<close>

definition views :: "('h \<Rightarrow> 'a \<Rightarrow> 'v option) \<Rightarrow> 'h \<Rightarrow> 'a list \<Rightarrow> 'v list option" where
  "views view h xs = those (map (view h) xs)"

lemma those_Some: "those xs = Some ys \<longleftrightarrow> xs = map Some ys"
  by (induction xs arbitrary: ys) (auto simp: map_eq_Cons_conv split: option.splits)

lemma views_nth: "views view h xs = Some vs \<longleftrightarrow> length vs = length xs \<and> (\<forall>i < length xs. view h (xs ! i) = Some (vs ! i))"
  by (auto simp: views_def those_Some list_eq_iff_nth_eq)

definition slice_view :: "('c \<Rightarrow> 'a list option) \<Rightarrow> ('c list \<Rightarrow> 'a \<Rightarrow> 'v option) \<Rightarrow> 'c list \<Rightarrow> slice option \<Rightarrow> 'v list option" where
  "slice_view un view h s = (case s of None \<Rightarrow> Some [] | Some s \<Rightarrow> do { xs \<leftarrow> elements un h s; views view h xs })"

definition slice_foot :: "('c \<Rightarrow> 'a list option) \<Rightarrow> ('c list \<Rightarrow> 'a \<Rightarrow> nat set) \<Rightarrow> 'c list \<Rightarrow> slice option \<Rightarrow> nat set" where
  "slice_foot un foot h s =
     (case s of None \<Rightarrow> {}
      | Some s \<Rightarrow> (case elements un h s of None \<Rightarrow> {} | Some xs \<Rightarrow> insert (sl_at s) (\<Union>x \<in> set xs. foot h x)))"

definition pointer_view :: "('c \<Rightarrow> 'a list option) \<Rightarrow> ('c list \<Rightarrow> 'a \<Rightarrow> 'v option) \<Rightarrow> 'c list \<Rightarrow> pointer option \<Rightarrow> 'v option option" where
  "pointer_view un view h p = (case p of None \<Rightarrow> Some None | Some p \<Rightarrow> do { x \<leftarrow> load un h p; v \<leftarrow> view h x; Some (Some v) })"

definition pointer_foot :: "('c \<Rightarrow> 'a list option) \<Rightarrow> ('c list \<Rightarrow> 'a \<Rightarrow> nat set) \<Rightarrow> 'c list \<Rightarrow> pointer option \<Rightarrow> nat set" where
  "pointer_foot un foot h p =
     (case p of None \<Rightarrow> {} | Some p \<Rightarrow> (case load un h p of None \<Rightarrow> {} | Some x \<Rightarrow> insert (p_at p) (foot h x)))"

lemma elements_agree:
  "agree A h h' \<Longrightarrow> sl_at s \<in> A \<Longrightarrow> elements un h s = Some xs \<Longrightarrow> elements un h' s = Some xs"
  by (fastforce simp: elements_Some dest: agree_array_at)

lemma load_agree: "agree A h h' \<Longrightarrow> p_at p \<in> A \<Longrightarrow> load un h p = Some x \<Longrightarrow> load un h' p = Some x"
  by (fastforce simp: load_Some dest: agree_array_at)

lemma elements_dom: "elements un h s = Some xs \<Longrightarrow> sl_at s < length h"
  by (auto simp: elements_Some dest: array_at_dom)

lemma load_dom: "load un h p = Some x \<Longrightarrow> p_at p < length h"
  by (auto simp: load_Some dest: array_at_dom)

text \<open>A type with an array cell of its own.\<close>

locale copied_array = heap_copy view foot copy
  for view :: "'c list \<Rightarrow> 'a \<Rightarrow> 'v option" and foot and copy +
  fixes wr :: "'a list \<Rightarrow> 'c" and un :: "'c \<Rightarrow> 'a list option" and zero :: 'a
  assumes un_wr: "un (wr xs) = Some xs"
begin

lemma array_at_new: "array_at un (h @ wr xs # e) (length h) = Some xs"
  by (simp add: array_at_def un_wr)

text \<open>The invariant of the loop: the elements before \<open>k\<close> are copied.\<close>

definition copied :: "'c list \<Rightarrow> 'a list \<Rightarrow> 'c list \<Rightarrow> 'v list \<Rightarrow> nat \<Rightarrow> bool" where
  "copied h ys e vs k \<longleftrightarrow> length ys = length vs
     \<and> (\<forall>j < k. view (h @ wr ys # e) (ys ! j) = Some (vs ! j)
          \<and> foot (h @ wr ys # e) (ys ! j) \<subseteq> {Suc (length h)..<length (h @ wr ys # e)})"

lemma copied_step:
  assumes "copied h ys e vs k" and "k < length vs" and "view (h @ wr ys # e) x = Some (vs ! k)"
  shows "\<exists>y e'. copy x (h @ wr ys # e) = Some (y, h @ wr ys # e @ e') \<and> copied h (ys[k := y]) (e @ e') vs (Suc k)"
proof -
  let ?g = "h @ wr ys # e"
  obtain y e' where y: "copy x ?g = Some (y, ?g @ e')" "view (?g @ e') y = Some (vs ! k)"
      "foot (?g @ e') y \<subseteq> {length ?g..<length (?g @ e')}"
    using copies [OF assms(3)] by blast
  let ?g' = "h @ wr (ys[k := y]) # e @ e'"
  have ag: "agree {Suc (length h)..<length (?g @ e')} (?g @ e') ?g'"
    by (auto simp: agree_def nth_append nth_Cons split: nat.splits)
  have keep: "view ?g' z = Some v \<and> foot ?g' z \<subseteq> {Suc (length h)..<length ?g'}"
    if "view (?g @ e') z = Some v" "foot (?g @ e') z \<subseteq> {Suc (length h)..<length (?g @ e')}" for z v
    using frame [OF that(1) agree_mono [OF ag that(2)]] that(2) by simp
  have "view ?g' (ys[k := y] ! j) = Some (vs ! j) \<and> foot ?g' (ys[k := y] ! j) \<subseteq> {Suc (length h)..<length ?g'}"
    if j: "j < Suc k" for j
  proof (cases "j = k")
    case True
    have "foot (?g @ e') y \<subseteq> {Suc (length h)..<length (?g @ e')}" using y(3) by auto
    then show ?thesis using keep [OF y(2)] True assms(1,2) by (simp add: copied_def)
  next
    case False
    then have "view ?g (ys ! j) = Some (vs ! j)" "foot ?g (ys ! j) \<subseteq> {Suc (length h)..<length ?g}"
      using j assms(1) by (simp_all add: copied_def)
    then have "view (?g @ e') (ys ! j) = Some (vs ! j)" "foot (?g @ e') (ys ! j) \<subseteq> {Suc (length h)..<length (?g @ e')}"
      using view_append [of ?g "ys ! j" "vs ! j" e'] by auto
    from keep [OF this] show ?thesis using False by simp
  qed
  then have "copied h (ys[k := y]) (e @ e') vs (Suc k)" using assms(1) by (simp add: copied_def)
  moreover have "copy x ?g = Some (y, h @ wr ys # e @ e')" using y(1) by simp
  ultimately show ?thesis by blast
qed

lemma store_new: "k < length ys \<Longrightarrow>
    store wr un \<lparr>p_at = length h, p_index = k\<rparr> y (h @ wr ys # e) = Some (h @ wr (ys[k := y]) # e)"
  by (simp add: store_def array_at_new)

lemma copy_each_copied:
  assumes "elements un h src = Some xs" and "views view h xs = Some vs" and "copied h ys e vs k" and "k \<le> length xs"
  shows "\<exists>ys' e'. copy_each wr un copy src (length h) [k..<length xs] (h @ wr ys # e) = Some (h @ wr ys' # e @ e')
    \<and> copied h ys' (e @ e') vs (length xs)"
  using assms(3,4)
proof (induction "length xs - k" arbitrary: k ys e)
  case 0
  then show ?case by (intro exI [of _ ys] exI [of _ "[]"]) simp
next
  case (Suc n)
  then have k: "k < length xs" "[k..<length xs] = k # [Suc k..<length xs]" by (simp_all add: upt_rec)
  have len: "length vs = length xs" and v: "view h (xs ! k) = Some (vs ! k)" using assms(2) k(1) by (simp_all add: views_nth)
  let ?g = "h @ wr ys # e"
  have "agree {..<length h} h ?g" by (rule agree_append) simp
  from elements_agree [OF this _ assms(1)] elements_dom [OF assms(1)] have "elements un ?g src = Some xs" by simp
  then have ld: "load un ?g \<lparr>p_at = sl_at src, p_index = sl_off src + k\<rparr> = Some (xs ! k)"
    using load_element k(1) by blast
  have "view ?g (xs ! k) = Some (vs ! k)" using view_append [OF v, of "wr ys # e"] by simp
  then obtain y e' where y: "copy (xs ! k) ?g = Some (y, h @ wr ys # e @ e')" "copied h (ys[k := y]) (e @ e') vs (Suc k)"
    using copied_step [OF Suc.prems(1)] k(1) len by metis
  have "length ys = length xs" using Suc.prems(1) len by (simp add: copied_def)
  then have st: "store wr un \<lparr>p_at = length h, p_index = k\<rparr> y (h @ wr ys # e @ e') = Some (h @ wr (ys[k := y]) # e @ e')"
    using store_new k(1) by simp
  have "n = length xs - Suc k" "Suc k \<le> length xs" using Suc.hyps(2) k(1) by simp_all
  from Suc.hyps(1) [OF this(1) y(2) this(2)] obtain ys' e'' where
    "copy_each wr un copy src (length h) [Suc k..<length xs] (h @ wr (ys[k := y]) # e @ e') = Some (h @ wr ys' # (e @ e') @ e'')"
    "copied h ys' ((e @ e') @ e'') vs (length xs)" by blast
  then show ?case
    unfolding k(2) using ld y(1) st by (intro exI [of _ ys'] exI [of _ "e' @ e''"]) simp
qed

lemma slice_copied:
  assumes "elements un h s = Some xs" and "views view h xs = Some vs"
  shows "\<exists>s' e. slice_copy wr un zero copy (Some s) h = Some (Some s', h @ e)
    \<and> slice_view un view (h @ e) (Some s') = Some vs \<and> slice_foot un foot (h @ e) (Some s') \<subseteq> {length h..<length (h @ e)}"
proof -
  have n: "sl_len s = length xs" "length vs = length xs"
    using elements_length [OF assms(1)] assms(2) by (simp_all add: views_nth)
  have "copied h (replicate (length xs) zero) [] vs 0" using n(2) by (simp add: copied_def)
  from copy_each_copied [OF assms this] obtain ys e where
    c: "copy_each wr un copy s (length h) [0..<length xs] (h @ [wr (replicate (length xs) zero)]) = Some (h @ wr ys # e)"
    "copied h ys e vs (length xs)" by auto
  let ?s = "\<lparr>sl_at = length h, sl_off = 0, sl_len = length xs\<rparr>" and ?g = "h @ wr ys # e"
  have len: "length ys = length xs" using c(2) n(2) by (simp add: copied_def)
  have el: "elements un ?g ?s = Some ys" by (simp add: elements_Some array_at_new len)
  have vs: "views view ?g ys = Some vs" using c(2) len n(2) by (simp add: views_nth copied_def)
  have "foot ?g y \<subseteq> {length h..<length ?g}" if "y \<in> set ys" for y
  proof -
    obtain j where "j < length ys" "y = ys ! j" using \<open>y \<in> set ys\<close> by (auto simp: in_set_conv_nth)
    then have "foot ?g y \<subseteq> {Suc (length h)..<length ?g}" using c(2) len by (auto simp: copied_def)
    then show ?thesis by auto
  qed
  then have "slice_foot un foot ?g (Some ?s) \<subseteq> {length h..<length ?g}" by (auto simp: slice_foot_def el)
  moreover have "slice_copy wr un zero copy (Some s) h = Some (Some ?s, ?g)"
    by (simp add: slice_copy_def make_array_def n(1) c(1))
  moreover have "slice_view un view ?g (Some ?s) = Some vs" by (simp add: slice_view_def el vs)
  ultimately show ?thesis by blast
qed

lemma pointer_copied:
  assumes "load un h p = Some x" and "view h x = Some v"
  shows "\<exists>q e. pointer_copy wr un zero copy (Some p) h = Some (Some q, h @ e)
    \<and> pointer_view un view (h @ e) (Some q) = Some (Some v) \<and> pointer_foot un foot (h @ e) (Some q) \<subseteq> {length h..<length (h @ e)}"
proof -
  let ?g = "h @ [wr [zero]]"
  have "agree {..<length h} h ?g" by (rule agree_append) simp
  from load_agree [OF this _ assms(1)] load_dom [OF assms(1)] have ld: "load un ?g p = Some x" by simp
  have "copied h [zero] [] [v] 0" by (simp add: copied_def)
  moreover have "view ?g x = Some ([v] ! 0)" using view_append [OF assms(2), of "[wr [zero]]"] by simp
  ultimately have "\<exists>y e. copy x ?g = Some (y, h @ wr [zero] # [] @ e) \<and> copied h ([zero][0 := y]) ([] @ e) [v] (Suc 0)"
    by (intro copied_step) simp_all
  then obtain y e where c: "copy x ?g = Some (y, h @ wr [zero] # e)" "copied h [y] e [v] (Suc 0)" by auto
  let ?q = "\<lparr>p_at = length h, p_index = 0\<rparr>" and ?k = "h @ wr [y] # e"
  have st: "store wr un ?q y (h @ wr [zero] # e) = Some ?k" using store_new [of 0 "[zero]" h y e] by simp
  have lq: "load un ?k ?q = Some y" by (simp add: load_Some array_at_new)
  have f: "view ?k y = Some v" "foot ?k y \<subseteq> {Suc (length h)..<length ?k}" using c(2) by (simp_all add: copied_def)
  have "pointer_copy wr un zero copy (Some p) h = Some (Some ?q, ?k)"
    using ld c(1) st by (simp add: pointer_copy_def make_array_def)
  moreover have "pointer_view un view ?k (Some ?q) = Some (Some v)" by (simp add: pointer_view_def lq f(1))
  moreover have "pointer_foot un foot ?k (Some ?q) \<subseteq> {length h..<length ?k}" using f(2) by (auto simp: pointer_foot_def lq)
  ultimately show ?thesis by blast
qed

end

text \<open>Slices and pointers are copied deeply when their elements are.\<close>

sublocale copied_array \<subseteq> slices: heap_copy "slice_view un view" "slice_foot un foot" "slice_copy wr un zero copy"
proof
  fix h s vs
  assume v: "slice_view un view h s = Some vs"
  show "slice_foot un foot h s \<subseteq> {..<length h}"
  proof (cases s)
    case (Some s')
    then obtain xs where xs: "elements un h s' = Some xs" "views view h xs = Some vs"
      using v by (auto simp: slice_view_def bind_eq_Some_conv)
    have "foot h x \<subseteq> {..<length h}" if "x \<in> set xs" for x
      using xs(2) foot_bound that by (fastforce simp: views_nth in_set_conv_nth)
    then show ?thesis using Some xs(1) elements_dom by (auto simp: slice_foot_def)
  qed (simp add: slice_foot_def)
  show "slice_view un view h' s = Some vs \<and> slice_foot un foot h' s = slice_foot un foot h s"
    if ag: "agree (slice_foot un foot h s) h h'" for h'
  proof (cases s)
    case None
    then show ?thesis using v by (simp add: slice_view_def slice_foot_def)
  next
    case (Some s')
    then obtain xs where xs: "elements un h s' = Some xs" "views view h xs = Some vs"
      using v by (auto simp: slice_view_def bind_eq_Some_conv)
    have ft: "slice_foot un foot h s = insert (sl_at s') (\<Union>x \<in> set xs. foot h x)" using Some xs(1) by (simp add: slice_foot_def)
    have el: "elements un h' s' = Some xs" using elements_agree [OF ag _ xs(1)] by (simp add: ft)
    have each: "view h' x = Some w \<and> foot h' x = foot h x" if "x \<in> set xs" "view h x = Some w" for x w
      using frame [OF that(2) agree_mono [OF ag]] that(1) unfolding ft by blast
    have nth: "length vs = length xs" "view h (xs ! i) = Some (vs ! i)" if "i < length xs" for i
      using xs(2) that by (simp_all add: views_nth)
    have "views view h' xs = Some vs"
      unfolding views_nth using xs(2) nth(2) each [OF nth_mem] by (simp add: views_nth)
    moreover have "foot h' x = foot h x" if x: "x \<in> set xs" for x
    proof -
      obtain i where "i < length xs" "x = xs ! i" using x unfolding in_set_conv_nth by blast
      then show ?thesis using each [OF x] nth(2) by blast
    qed
    ultimately show ?thesis using Some el xs(1) by (simp add: slice_view_def slice_foot_def)
  qed
  show "\<exists>y e. slice_copy wr un zero copy s h = Some (y, h @ e) \<and> slice_view un view (h @ e) y = Some vs
      \<and> slice_foot un foot (h @ e) y \<subseteq> {length h..<length (h @ e)}"
  proof (cases s)
    case None
    then show ?thesis using v
      by (intro exI [of _ None] exI [of _ "[]"]) (simp add: slice_copy_def slice_view_def slice_foot_def)
  next
    case (Some s')
    then obtain xs where "elements un h s' = Some xs" "views view h xs = Some vs"
      using v by (auto simp: slice_view_def bind_eq_Some_conv)
    then show ?thesis using slice_copied Some by blast
  qed
qed

sublocale copied_array \<subseteq> pointers: heap_copy "pointer_view un view" "pointer_foot un foot" "pointer_copy wr un zero copy"
proof
  fix h p w
  assume v: "pointer_view un view h p = Some w"
  show "pointer_foot un foot h p \<subseteq> {..<length h}"
  proof (cases p)
    case (Some q)
    then obtain x u where x: "load un h q = Some x" "view h x = Some u"
      using v by (auto simp: pointer_view_def bind_eq_Some_conv)
    then show ?thesis using Some load_dom [OF x(1)] foot_bound [OF x(2)] by (auto simp: pointer_foot_def)
  qed (simp add: pointer_foot_def)
  show "pointer_view un view h' p = Some w \<and> pointer_foot un foot h' p = pointer_foot un foot h p"
    if ag: "agree (pointer_foot un foot h p) h h'" for h'
  proof (cases p)
    case None
    then show ?thesis using v by (simp add: pointer_view_def pointer_foot_def)
  next
    case (Some q)
    then obtain x u where x: "load un h q = Some x" "view h x = Some u" "w = Some u"
      using v by (auto simp: pointer_view_def bind_eq_Some_conv)
    have ft: "pointer_foot un foot h p = insert (p_at q) (foot h x)" using Some x(1) by (simp add: pointer_foot_def)
    have "load un h' q = Some x" using load_agree [OF ag _ x(1)] by (simp add: ft)
    moreover have "view h' x = Some u \<and> foot h' x = foot h x"
      using frame [OF x(2) agree_mono [OF ag]] unfolding ft by blast
    ultimately show ?thesis using Some x by (simp add: pointer_view_def pointer_foot_def)
  qed
  show "\<exists>y e. pointer_copy wr un zero copy p h = Some (y, h @ e) \<and> pointer_view un view (h @ e) y = Some w
      \<and> pointer_foot un foot (h @ e) y \<subseteq> {length h..<length (h @ e)}"
  proof (cases p)
    case None
    then show ?thesis using v
      by (intro exI [of _ None] exI [of _ "[]"]) (simp add: pointer_copy_def pointer_view_def pointer_foot_def)
  next
    case (Some q)
    then obtain x u where "load un h q = Some x" "view h x = Some u" "w = Some u"
      using v by (auto simp: pointer_view_def bind_eq_Some_conv)
    then show ?thesis using pointer_copied Some by blast
  qed
qed

context copied_array
begin

lemma slice_heap_copy: "heap_copy (slice_view un view) (slice_foot un foot) (slice_copy wr un zero copy)"
  by (rule slices.heap_copy_axioms)

lemma pointer_heap_copy: "heap_copy (pointer_view un view) (pointer_foot un foot) (pointer_copy wr un zero copy)"
  by (rule pointers.heap_copy_axioms)

end

lemma copied_arrayI: "heap_copy view foot copy \<Longrightarrow> (\<And>xs. un (wr xs) = Some xs) \<Longrightarrow> copied_array view foot copy wr un"
  by (simp add: copied_array_def copied_array_axioms_def)

end
