(* ===== verification/Deep_Copy.thy ===== *)
theory Deep_Copy
  imports Go_Heap Api_Types
begin

text \<open>
  The generated deep copies of \<^verbatim>\<open>api/v1alpha1/zz_generated.deepcopy.go\<close>, on the API types as they
  lie in memory: an optional field is a pointer, a list is a slice. \<^verbatim>\<open>DeepCopyInto\<close> gives the
  value it leaves in \<^verbatim>\<open>*out\<close>: the assignment \<^verbatim>\<open>*out = *in\<close> is the argument itself, of which the
  fields with pointers are then replaced. The values of \<^verbatim>\<open>apimachinery\<close> that the types embed
  (object and list metadata, conditions) are of an arbitrary type, with their own deep
  copies as a parameter; \<open>lawful_library\<close> is the documented contract of these.
\<close>

section \<open>The types in memory\<close>

record NamespaceSelector_mem =
  nsm_MatchNames :: "slice option"

record PrivateDNSRecordSpecInline_mem =
  inm_Name :: string
  inm_Type :: DNSRecordType
  inm_TTL :: "pointer option"
  inm_Values :: "slice option"

record PrivateDNSZoneSpec_mem =
  zsm_Zone :: string
  zsm_TTL :: "pointer option"
  zsm_UnresolvedRecordPolicy :: UnresolvedRecordPolicy
  zsm_AllowedNamespaces :: NamespaceSelector_mem
  zsm_Records :: "slice option"

record PrivateDNSZoneStatus_mem =
  ztm_ObservedGeneration :: int64
  ztm_Conditions :: "slice option"
  ztm_Records :: int
  ztm_Serial :: string
  ztm_ZoneFileKey :: string
  ztm_LastAppliedHash :: string

record PrivateDNSRecordSpec_mem =
  rsm_ZoneRef :: ZoneReference
  rsm_Name :: string
  rsm_Type :: DNSRecordType
  rsm_TTL :: "pointer option"
  rsm_Values :: "slice option"

record PrivateDNSRecordStatus_mem =
  rtm_ObservedGeneration :: int64
  rtm_Conditions :: "slice option"
  rtm_FQDN :: string

text \<open>\<^verbatim>\<open>metav1.TypeMeta\<close> is two strings; the other metadata is a value of the library.\<close>

record TypeMeta =
  tm_Kind :: string
  tm_APIVersion :: string

record 'k PrivateDNSZone_mem =
  zm_TypeMeta :: TypeMeta
  zm_ObjectMeta :: 'k
  zm_Spec :: PrivateDNSZoneSpec_mem
  zm_Status :: PrivateDNSZoneStatus_mem

record 'k PrivateDNSRecord_mem =
  rm_TypeMeta :: TypeMeta
  rm_ObjectMeta :: 'k
  rm_Spec :: PrivateDNSRecordSpec_mem
  rm_Status :: PrivateDNSRecordStatus_mem

record 'k list_mem =
  lsm_TypeMeta :: TypeMeta
  lsm_ListMeta :: 'k
  lsm_Items :: "slice option"

datatype 'k cell =
    Int32s "int32 list" | Strings "string list" | Values "'k list"
  | Selectors "NamespaceSelector_mem list" | Inlines "PrivateDNSRecordSpecInline_mem list"
  | ZoneSpecs "PrivateDNSZoneSpec_mem list" | ZoneStatuses "PrivateDNSZoneStatus_mem list"
  | Zones "'k PrivateDNSZone_mem list" | ZoneReferences "ZoneReference list"
  | RecordSpecs "PrivateDNSRecordSpec_mem list" | RecordStatuses "PrivateDNSRecordStatus_mem list"
  | Records "'k PrivateDNSRecord_mem list" | Lists "'k list_mem list"

type_synonym 'k memory = "'k cell list"

fun the_Int32s where "the_Int32s (Int32s xs) = Some xs" | "the_Int32s _ = None"
fun the_Strings where "the_Strings (Strings xs) = Some xs" | "the_Strings _ = None"
fun the_Values where "the_Values (Values xs) = Some xs" | "the_Values _ = None"
fun the_Selectors where "the_Selectors (Selectors xs) = Some xs" | "the_Selectors _ = None"
fun the_Inlines where "the_Inlines (Inlines xs) = Some xs" | "the_Inlines _ = None"
fun the_ZoneSpecs where "the_ZoneSpecs (ZoneSpecs xs) = Some xs" | "the_ZoneSpecs _ = None"
fun the_ZoneStatuses where "the_ZoneStatuses (ZoneStatuses xs) = Some xs" | "the_ZoneStatuses _ = None"
fun the_Zones where "the_Zones (Zones xs) = Some xs" | "the_Zones _ = None"
fun the_ZoneReferences where "the_ZoneReferences (ZoneReferences xs) = Some xs" | "the_ZoneReferences _ = None"
fun the_RecordSpecs where "the_RecordSpecs (RecordSpecs xs) = Some xs" | "the_RecordSpecs _ = None"
fun the_RecordStatuses where "the_RecordStatuses (RecordStatuses xs) = Some xs" | "the_RecordStatuses _ = None"
fun the_Records where "the_Records (Records xs) = Some xs" | "the_Records _ = None"
fun the_Lists where "the_Lists (Lists xs) = Some xs" | "the_Lists _ = None"

section \<open>The library\<close>

type_synonym ('k, 'a) copier = "'a \<Rightarrow> 'k memory \<Rightarrow> ('a \<times> 'k memory) option"

text \<open>For each of the three embedded types: what a value denotes, where, and its \<^verbatim>\<open>DeepCopyInto\<close>.\<close>

record ('k, 'l) library =
  lib_zero :: 'k
  om_view :: "'k memory \<Rightarrow> 'k \<Rightarrow> ObjectMeta option"
  om_foot :: "'k memory \<Rightarrow> 'k \<Rightarrow> nat set"
  ObjectMeta_DeepCopyInto :: "('k, 'k) copier"
  lm_view :: "'k memory \<Rightarrow> 'k \<Rightarrow> 'l option"
  lm_foot :: "'k memory \<Rightarrow> 'k \<Rightarrow> nat set"
  ListMeta_DeepCopyInto :: "('k, 'k) copier"
  cond_view :: "'k memory \<Rightarrow> 'k \<Rightarrow> Condition option"
  cond_foot :: "'k memory \<Rightarrow> 'k \<Rightarrow> nat set"
  Condition_DeepCopyInto :: "('k, 'k) copier"

definition lawful_library :: "('k, 'l) library \<Rightarrow> bool" where
  "lawful_library lib \<longleftrightarrow>
     heap_copy (om_view lib) (om_foot lib) (ObjectMeta_DeepCopyInto lib)
     \<and> heap_copy (lm_view lib) (lm_foot lib) (ListMeta_DeepCopyInto lib)
     \<and> heap_copy (cond_view lib) (cond_foot lib) (Condition_DeepCopyInto lib)"

section \<open>The generated functions\<close>

text \<open>\<^verbatim>\<open>if in.Values != nil { ... make([]string, len(*in)); copy(*out, *in) }\<close> and
  \<^verbatim>\<open>if in.TTL != nil { ... *out = new(int32); **out = **in }\<close>.\<close>

definition copy_strings :: "('k, slice option) copier" where
  "copy_strings = slice_copy Strings the_Strings [] plain_copy"

definition copy_int32 :: "('k, pointer option) copier" where
  "copy_int32 = pointer_copy Int32s the_Int32s 0 plain_copy"

definition copy_conditions :: "('k, 'l) library \<Rightarrow> ('k, slice option) copier" where
  "copy_conditions lib = slice_copy Values the_Values (lib_zero lib) (Condition_DeepCopyInto lib)"

definition NamespaceSelector_DeepCopyInto :: "('k, NamespaceSelector_mem) copier" where
  "NamespaceSelector_DeepCopyInto src h = do {
     (names, h) \<leftarrow> copy_strings (nsm_MatchNames src) h;
     Some (src\<lparr>nsm_MatchNames := names\<rparr>, h) }"

definition ZoneReference_DeepCopyInto :: "('k, ZoneReference) copier" where
  "ZoneReference_DeepCopyInto src h = Some (src, h)"

definition PrivateDNSRecordSpecInline_DeepCopyInto :: "('k, PrivateDNSRecordSpecInline_mem) copier" where
  "PrivateDNSRecordSpecInline_DeepCopyInto src h = do {
     (ttl, h) \<leftarrow> copy_int32 (inm_TTL src) h;
     (vals, h) \<leftarrow> copy_strings (inm_Values src) h;
     Some (src\<lparr>inm_TTL := ttl, inm_Values := vals\<rparr>, h) }"

definition PrivateDNSRecordSpec_DeepCopyInto :: "('k, PrivateDNSRecordSpec_mem) copier" where
  "PrivateDNSRecordSpec_DeepCopyInto src h = do {
     (ttl, h) \<leftarrow> copy_int32 (rsm_TTL src) h;
     (vals, h) \<leftarrow> copy_strings (rsm_Values src) h;
     Some (src\<lparr>rsm_ZoneRef := rsm_ZoneRef src, rsm_TTL := ttl, rsm_Values := vals\<rparr>, h) }"

definition Inline_zero :: PrivateDNSRecordSpecInline_mem where
  "Inline_zero = \<lparr>inm_Name = [], inm_Type = [], inm_TTL = None, inm_Values = None\<rparr>"

definition PrivateDNSZoneSpec_DeepCopyInto :: "('k, PrivateDNSZoneSpec_mem) copier" where
  "PrivateDNSZoneSpec_DeepCopyInto src h = do {
     (ttl, h) \<leftarrow> copy_int32 (zsm_TTL src) h;
     (namespaces, h) \<leftarrow> NamespaceSelector_DeepCopyInto (zsm_AllowedNamespaces src) h;
     (records, h) \<leftarrow> slice_copy Inlines the_Inlines Inline_zero PrivateDNSRecordSpecInline_DeepCopyInto (zsm_Records src) h;
     Some (src\<lparr>zsm_TTL := ttl, zsm_AllowedNamespaces := namespaces, zsm_Records := records\<rparr>, h) }"

definition PrivateDNSZoneStatus_DeepCopyInto :: "('k, 'l) library \<Rightarrow> ('k, PrivateDNSZoneStatus_mem) copier" where
  "PrivateDNSZoneStatus_DeepCopyInto lib src h = do {
     (conditions, h) \<leftarrow> copy_conditions lib (ztm_Conditions src) h;
     Some (src\<lparr>ztm_Conditions := conditions\<rparr>, h) }"

definition PrivateDNSRecordStatus_DeepCopyInto :: "('k, 'l) library \<Rightarrow> ('k, PrivateDNSRecordStatus_mem) copier" where
  "PrivateDNSRecordStatus_DeepCopyInto lib src h = do {
     (conditions, h) \<leftarrow> copy_conditions lib (rtm_Conditions src) h;
     Some (src\<lparr>rtm_Conditions := conditions\<rparr>, h) }"

definition PrivateDNSZone_DeepCopyInto :: "('k, 'l) library \<Rightarrow> ('k, 'k PrivateDNSZone_mem) copier" where
  "PrivateDNSZone_DeepCopyInto lib src h = do {
     (meta, h) \<leftarrow> ObjectMeta_DeepCopyInto lib (zm_ObjectMeta src) h;
     (spec, h) \<leftarrow> PrivateDNSZoneSpec_DeepCopyInto (zm_Spec src) h;
     (status, h) \<leftarrow> PrivateDNSZoneStatus_DeepCopyInto lib (zm_Status src) h;
     Some (src\<lparr>zm_TypeMeta := zm_TypeMeta src, zm_ObjectMeta := meta, zm_Spec := spec, zm_Status := status\<rparr>, h) }"

definition PrivateDNSRecord_DeepCopyInto :: "('k, 'l) library \<Rightarrow> ('k, 'k PrivateDNSRecord_mem) copier" where
  "PrivateDNSRecord_DeepCopyInto lib src h = do {
     (meta, h) \<leftarrow> ObjectMeta_DeepCopyInto lib (rm_ObjectMeta src) h;
     (spec, h) \<leftarrow> PrivateDNSRecordSpec_DeepCopyInto (rm_Spec src) h;
     (status, h) \<leftarrow> PrivateDNSRecordStatus_DeepCopyInto lib (rm_Status src) h;
     Some (src\<lparr>rm_TypeMeta := rm_TypeMeta src, rm_ObjectMeta := meta, rm_Spec := spec, rm_Status := status\<rparr>, h) }"

section \<open>Zero values and lists\<close>

definition NamespaceSelector_zero :: NamespaceSelector_mem where
  "NamespaceSelector_zero = \<lparr>nsm_MatchNames = None\<rparr>"

definition ZoneReference_zero :: ZoneReference where
  "ZoneReference_zero = \<lparr>zr_Name = []\<rparr>"

definition ZoneSpec_zero :: PrivateDNSZoneSpec_mem where
  "ZoneSpec_zero = \<lparr>zsm_Zone = [], zsm_TTL = None, zsm_UnresolvedRecordPolicy = [],
     zsm_AllowedNamespaces = NamespaceSelector_zero, zsm_Records = None\<rparr>"

definition ZoneStatus_zero :: PrivateDNSZoneStatus_mem where
  "ZoneStatus_zero = \<lparr>ztm_ObservedGeneration = 0, ztm_Conditions = None, ztm_Records = 0, ztm_Serial = [],
     ztm_ZoneFileKey = [], ztm_LastAppliedHash = []\<rparr>"

definition RecordSpec_zero :: PrivateDNSRecordSpec_mem where
  "RecordSpec_zero = \<lparr>rsm_ZoneRef = ZoneReference_zero, rsm_Name = [], rsm_Type = [], rsm_TTL = None, rsm_Values = None\<rparr>"

definition RecordStatus_zero :: PrivateDNSRecordStatus_mem where
  "RecordStatus_zero = \<lparr>rtm_ObservedGeneration = 0, rtm_Conditions = None, rtm_FQDN = []\<rparr>"

definition TypeMeta_zero :: TypeMeta where
  "TypeMeta_zero = \<lparr>tm_Kind = [], tm_APIVersion = []\<rparr>"

definition Zone_zero :: "('k, 'l) library \<Rightarrow> 'k PrivateDNSZone_mem" where
  "Zone_zero lib = \<lparr>zm_TypeMeta = TypeMeta_zero, zm_ObjectMeta = lib_zero lib, zm_Spec = ZoneSpec_zero, zm_Status = ZoneStatus_zero\<rparr>"

definition Record_zero :: "('k, 'l) library \<Rightarrow> 'k PrivateDNSRecord_mem" where
  "Record_zero lib = \<lparr>rm_TypeMeta = TypeMeta_zero, rm_ObjectMeta = lib_zero lib, rm_Spec = RecordSpec_zero, rm_Status = RecordStatus_zero\<rparr>"

definition List_zero :: "('k, 'l) library \<Rightarrow> 'k list_mem" where
  "List_zero lib = \<lparr>lsm_TypeMeta = TypeMeta_zero, lsm_ListMeta = lib_zero lib, lsm_Items = None\<rparr>"

definition PrivateDNSZoneList_DeepCopyInto :: "('k, 'l) library \<Rightarrow> ('k, 'k list_mem) copier" where
  "PrivateDNSZoneList_DeepCopyInto lib src h = do {
     (meta, h) \<leftarrow> ListMeta_DeepCopyInto lib (lsm_ListMeta src) h;
     (items, h) \<leftarrow> slice_copy Zones the_Zones (Zone_zero lib) (PrivateDNSZone_DeepCopyInto lib) (lsm_Items src) h;
     Some (src\<lparr>lsm_TypeMeta := lsm_TypeMeta src, lsm_ListMeta := meta, lsm_Items := items\<rparr>, h) }"

definition PrivateDNSRecordList_DeepCopyInto :: "('k, 'l) library \<Rightarrow> ('k, 'k list_mem) copier" where
  "PrivateDNSRecordList_DeepCopyInto lib src h = do {
     (meta, h) \<leftarrow> ListMeta_DeepCopyInto lib (lsm_ListMeta src) h;
     (items, h) \<leftarrow> slice_copy Records the_Records (Record_zero lib) (PrivateDNSRecord_DeepCopyInto lib) (lsm_Items src) h;
     Some (src\<lparr>lsm_TypeMeta := lsm_TypeMeta src, lsm_ListMeta := meta, lsm_Items := items\<rparr>, h) }"

section \<open>Copies through a pointer\<close>

definition NamespaceSelector_DeepCopy :: "('k, pointer option) copier" where
  "NamespaceSelector_DeepCopy = pointer_copy Selectors the_Selectors NamespaceSelector_zero NamespaceSelector_DeepCopyInto"

definition ZoneReference_DeepCopy :: "('k, pointer option) copier" where
  "ZoneReference_DeepCopy = pointer_copy ZoneReferences the_ZoneReferences ZoneReference_zero ZoneReference_DeepCopyInto"

definition PrivateDNSRecordSpecInline_DeepCopy :: "('k, pointer option) copier" where
  "PrivateDNSRecordSpecInline_DeepCopy = pointer_copy Inlines the_Inlines Inline_zero PrivateDNSRecordSpecInline_DeepCopyInto"

definition PrivateDNSRecordSpec_DeepCopy :: "('k, pointer option) copier" where
  "PrivateDNSRecordSpec_DeepCopy = pointer_copy RecordSpecs the_RecordSpecs RecordSpec_zero PrivateDNSRecordSpec_DeepCopyInto"

definition PrivateDNSRecordStatus_DeepCopy :: "('k, 'l) library \<Rightarrow> ('k, pointer option) copier" where
  "PrivateDNSRecordStatus_DeepCopy lib =
     pointer_copy RecordStatuses the_RecordStatuses RecordStatus_zero (PrivateDNSRecordStatus_DeepCopyInto lib)"

definition PrivateDNSZoneSpec_DeepCopy :: "('k, pointer option) copier" where
  "PrivateDNSZoneSpec_DeepCopy = pointer_copy ZoneSpecs the_ZoneSpecs ZoneSpec_zero PrivateDNSZoneSpec_DeepCopyInto"

definition PrivateDNSZoneStatus_DeepCopy :: "('k, 'l) library \<Rightarrow> ('k, pointer option) copier" where
  "PrivateDNSZoneStatus_DeepCopy lib =
     pointer_copy ZoneStatuses the_ZoneStatuses ZoneStatus_zero (PrivateDNSZoneStatus_DeepCopyInto lib)"

definition PrivateDNSZone_DeepCopy :: "('k, 'l) library \<Rightarrow> ('k, pointer option) copier" where
  "PrivateDNSZone_DeepCopy lib = pointer_copy Zones the_Zones (Zone_zero lib) (PrivateDNSZone_DeepCopyInto lib)"

definition PrivateDNSRecord_DeepCopy :: "('k, 'l) library \<Rightarrow> ('k, pointer option) copier" where
  "PrivateDNSRecord_DeepCopy lib = pointer_copy Records the_Records (Record_zero lib) (PrivateDNSRecord_DeepCopyInto lib)"

definition PrivateDNSZoneList_DeepCopy :: "('k, 'l) library \<Rightarrow> ('k, pointer option) copier" where
  "PrivateDNSZoneList_DeepCopy lib = pointer_copy Lists the_Lists (List_zero lib) (PrivateDNSZoneList_DeepCopyInto lib)"

definition PrivateDNSRecordList_DeepCopy :: "('k, 'l) library \<Rightarrow> ('k, pointer option) copier" where
  "PrivateDNSRecordList_DeepCopy lib = pointer_copy Lists the_Lists (List_zero lib) (PrivateDNSRecordList_DeepCopyInto lib)"

section \<open>Copies through the interface\<close>

text \<open>A value of \<^verbatim>\<open>runtime.Object\<close> is a pointer with its type, or nil (\<open>None\<close>). The interface
  of a nil pointer is not nil.\<close>

datatype runtime_Object =
    Zone_object "pointer option" | Record_object "pointer option"
  | ZoneList_object "pointer option" | RecordList_object "pointer option"

definition PrivateDNSZone_DeepCopyObject ::
    "('k, 'l) library \<Rightarrow> pointer option \<Rightarrow> 'k memory \<Rightarrow> (runtime_Object option \<times> 'k memory) option" where
  "PrivateDNSZone_DeepCopyObject lib src h = do {
     (c, h) \<leftarrow> PrivateDNSZone_DeepCopy lib src h;
     Some (if c \<noteq> None then Some (Zone_object c) else None, h) }"

definition PrivateDNSRecord_DeepCopyObject ::
    "('k, 'l) library \<Rightarrow> pointer option \<Rightarrow> 'k memory \<Rightarrow> (runtime_Object option \<times> 'k memory) option" where
  "PrivateDNSRecord_DeepCopyObject lib src h = do {
     (c, h) \<leftarrow> PrivateDNSRecord_DeepCopy lib src h;
     Some (if c \<noteq> None then Some (Record_object c) else None, h) }"

definition PrivateDNSZoneList_DeepCopyObject ::
    "('k, 'l) library \<Rightarrow> pointer option \<Rightarrow> 'k memory \<Rightarrow> (runtime_Object option \<times> 'k memory) option" where
  "PrivateDNSZoneList_DeepCopyObject lib src h = do {
     (c, h) \<leftarrow> PrivateDNSZoneList_DeepCopy lib src h;
     Some (if c \<noteq> None then Some (ZoneList_object c) else None, h) }"

definition PrivateDNSRecordList_DeepCopyObject ::
    "('k, 'l) library \<Rightarrow> pointer option \<Rightarrow> 'k memory \<Rightarrow> (runtime_Object option \<times> 'k memory) option" where
  "PrivateDNSRecordList_DeepCopyObject lib src h = do {
     (c, h) \<leftarrow> PrivateDNSRecordList_DeepCopy lib src h;
     Some (if c \<noteq> None then Some (RecordList_object c) else None, h) }"

section \<open>The base of a status patch\<close>

text \<open>
  \<^verbatim>\<open>patch := client.MergeFrom(zone.DeepCopy()); zone.Status = status\<close>: the status is assigned to
  the object that was listed, and the patch is the difference of that object to its copy.
\<close>

definition zone_patch_base ::
    "('k, 'l) library \<Rightarrow> pointer \<Rightarrow> PrivateDNSZoneStatus_mem \<Rightarrow> 'k memory \<Rightarrow> (pointer option \<times> 'k memory) option" where
  "zone_patch_base lib zone status h = do {
     (base, h) \<leftarrow> PrivateDNSZone_DeepCopy lib (Some zone) h;
     z \<leftarrow> load the_Zones h zone;
     h \<leftarrow> store Zones the_Zones zone (z\<lparr>zm_Status := status\<rparr>) h;
     Some (base, h) }"

definition record_patch_base ::
    "('k, 'l) library \<Rightarrow> pointer \<Rightarrow> PrivateDNSRecordStatus_mem \<Rightarrow> 'k memory \<Rightarrow> (pointer option \<times> 'k memory) option" where
  "record_patch_base lib record status h = do {
     (base, h) \<leftarrow> PrivateDNSRecord_DeepCopy lib (Some record) h;
     r \<leftarrow> load the_Records h record;
     h \<leftarrow> store Records the_Records record (r\<lparr>rm_Status := status\<rparr>) h;
     Some (base, h) }"

end
