(* ===== verification/Deep_Copy_Views.thy ===== *)
theory Deep_Copy_Views
  imports Deep_Copy
begin

text \<open>
  What the values of \<^verbatim>\<open>Deep_Copy\<close> denote: the API types of \<^verbatim>\<open>Api_Types\<close>, on which the rest of the
  program is modelled (a nil slice and an empty one are the same list there), and the cells
  that depends on. Each \<^verbatim>\<open>DeepCopyInto\<close> meets the contract \<open>heap_copy\<close> for these.
\<close>

section \<open>Strings and numbers\<close>

definition strings_view :: "'k memory \<Rightarrow> slice option \<Rightarrow> string list option" where
  "strings_view = slice_view the_Strings (\<lambda>h. Some)"

definition strings_foot :: "'k memory \<Rightarrow> slice option \<Rightarrow> nat set" where
  "strings_foot = slice_foot the_Strings (\<lambda>h x. {})"

definition int32_view :: "'k memory \<Rightarrow> pointer option \<Rightarrow> int32 option option" where
  "int32_view = pointer_view the_Int32s (\<lambda>h. Some)"

definition int32_foot :: "'k memory \<Rightarrow> pointer option \<Rightarrow> nat set" where
  "int32_foot = pointer_foot the_Int32s (\<lambda>h x. {})"

interpretation string_arrays: copied_array "\<lambda>h. Some" "\<lambda>h x. {}" plain_copy Strings the_Strings "[]"
  by (rule copied_arrayI [OF heap_copy_plain]) simp

interpretation int32_arrays: copied_array "\<lambda>h. Some" "\<lambda>h x. {}" plain_copy Int32s the_Int32s 0
  by (rule copied_arrayI [OF heap_copy_plain]) simp

lemma heap_copy_strings: "heap_copy strings_view strings_foot copy_strings"
  unfolding strings_view_def strings_foot_def copy_strings_def by (rule string_arrays.slice_heap_copy)

lemma heap_copy_int32: "heap_copy int32_view int32_foot copy_int32"
  unfolding int32_view_def int32_foot_def copy_int32_def by (rule int32_arrays.pointer_heap_copy)

section \<open>Structs without metadata\<close>

definition selector_view :: "'k memory \<Rightarrow> NamespaceSelector_mem \<Rightarrow> NamespaceSelector option" where
  "selector_view h s = do { names \<leftarrow> strings_view h (nsm_MatchNames s); Some \<lparr>MatchNames = names\<rparr> }"

definition selector_foot :: "'k memory \<Rightarrow> NamespaceSelector_mem \<Rightarrow> nat set" where
  "selector_foot h s = strings_foot h (nsm_MatchNames s)"

definition inline_view :: "'k memory \<Rightarrow> PrivateDNSRecordSpecInline_mem \<Rightarrow> PrivateDNSRecordSpecInline option" where
  "inline_view h s = do {
     ttl \<leftarrow> int32_view h (inm_TTL s);
     vals \<leftarrow> strings_view h (inm_Values s);
     Some \<lparr>in_Name = inm_Name s, in_Type = inm_Type s, in_TTL = ttl, in_Values = vals\<rparr> }"

definition inline_foot :: "'k memory \<Rightarrow> PrivateDNSRecordSpecInline_mem \<Rightarrow> nat set" where
  "inline_foot h s = int32_foot h (inm_TTL s) \<union> strings_foot h (inm_Values s)"

definition record_spec_view :: "'k memory \<Rightarrow> PrivateDNSRecordSpec_mem \<Rightarrow> PrivateDNSRecordSpec option" where
  "record_spec_view h s = do {
     ttl \<leftarrow> int32_view h (rsm_TTL s);
     vals \<leftarrow> strings_view h (rsm_Values s);
     Some \<lparr>rs_ZoneRef = rsm_ZoneRef s, rs_Name = rsm_Name s, rs_Type = rsm_Type s, rs_TTL = ttl, rs_Values = vals\<rparr> }"

definition record_spec_foot :: "'k memory \<Rightarrow> PrivateDNSRecordSpec_mem \<Rightarrow> nat set" where
  "record_spec_foot h s = int32_foot h (rsm_TTL s) \<union> strings_foot h (rsm_Values s)"

definition zone_spec_view :: "'k memory \<Rightarrow> PrivateDNSZoneSpec_mem \<Rightarrow> PrivateDNSZoneSpec option" where
  "zone_spec_view h s = do {
     ttl \<leftarrow> int32_view h (zsm_TTL s);
     namespaces \<leftarrow> selector_view h (zsm_AllowedNamespaces s);
     records \<leftarrow> slice_view the_Inlines inline_view h (zsm_Records s);
     Some \<lparr>zs_Zone = zsm_Zone s, zs_TTL = ttl, zs_UnresolvedRecordPolicy = zsm_UnresolvedRecordPolicy s,
       zs_AllowedNamespaces = namespaces, zs_Records = records\<rparr> }"

definition zone_spec_foot :: "'k memory \<Rightarrow> PrivateDNSZoneSpec_mem \<Rightarrow> nat set" where
  "zone_spec_foot h s = int32_foot h (zsm_TTL s) \<union> (selector_foot h (zsm_AllowedNamespaces s)
     \<union> slice_foot the_Inlines inline_foot h (zsm_Records s))"

lemmas struct_parts = pair_view_def pair_foot_def pair_copy_def

lemma heap_copy_selector: "heap_copy selector_view selector_foot NamespaceSelector_DeepCopyInto"
  by (rule heap_copy_struct [OF heap_copy_strings, where get = nsm_MatchNames
        and put = "\<lambda>a s. s\<lparr>nsm_MatchNames := a\<rparr>" and mk = "\<lambda>s names. \<lparr>MatchNames = names\<rparr>"])
    (simp_all add: selector_view_def selector_foot_def NamespaceSelector_DeepCopyInto_def split: bind_splits)

lemma heap_copy_inline: "heap_copy inline_view inline_foot PrivateDNSRecordSpecInline_DeepCopyInto"
  by (rule heap_copy_struct [OF heap_copy_pair [OF heap_copy_int32 heap_copy_strings],
        where get = "\<lambda>s. (inm_TTL s, inm_Values s)" and put = "\<lambda>(t, vs) s. s\<lparr>inm_TTL := t, inm_Values := vs\<rparr>"
        and mk = "\<lambda>s (t, vs). \<lparr>in_Name = inm_Name s, in_Type = inm_Type s, in_TTL = t, in_Values = vs\<rparr>"])
    (auto simp: inline_view_def inline_foot_def PrivateDNSRecordSpecInline_DeepCopyInto_def struct_parts split: bind_splits)

lemma heap_copy_record_spec: "heap_copy record_spec_view record_spec_foot PrivateDNSRecordSpec_DeepCopyInto"
  by (rule heap_copy_struct [OF heap_copy_pair [OF heap_copy_int32 heap_copy_strings],
        where get = "\<lambda>s. (rsm_TTL s, rsm_Values s)" and put = "\<lambda>(t, vs) s. s\<lparr>rsm_TTL := t, rsm_Values := vs\<rparr>"
        and mk = "\<lambda>s (t, vs). \<lparr>rs_ZoneRef = rsm_ZoneRef s, rs_Name = rsm_Name s, rs_Type = rsm_Type s, rs_TTL = t, rs_Values = vs\<rparr>"])
    (auto simp: record_spec_view_def record_spec_foot_def PrivateDNSRecordSpec_DeepCopyInto_def struct_parts split: bind_splits)

interpretation inlines: copied_array inline_view inline_foot PrivateDNSRecordSpecInline_DeepCopyInto Inlines the_Inlines Inline_zero
  by (rule copied_arrayI [OF heap_copy_inline]) simp

lemma heap_copy_zone_spec: "heap_copy zone_spec_view zone_spec_foot PrivateDNSZoneSpec_DeepCopyInto"
  by (rule heap_copy_struct [OF heap_copy_pair [OF heap_copy_int32 heap_copy_pair [OF heap_copy_selector inlines.slice_heap_copy]],
        where get = "\<lambda>s. (zsm_TTL s, zsm_AllowedNamespaces s, zsm_Records s)"
        and put = "\<lambda>(t, ns, rs) s. s\<lparr>zsm_TTL := t, zsm_AllowedNamespaces := ns, zsm_Records := rs\<rparr>"
        and mk = "\<lambda>s (t, ns, rs). \<lparr>zs_Zone = zsm_Zone s, zs_TTL = t, zs_UnresolvedRecordPolicy = zsm_UnresolvedRecordPolicy s,
          zs_AllowedNamespaces = ns, zs_Records = rs\<rparr>"])
    (auto simp: zone_spec_view_def zone_spec_foot_def PrivateDNSZoneSpec_DeepCopyInto_def struct_parts split: bind_splits)

interpretation zone_specs: heap_copy zone_spec_view zone_spec_foot PrivateDNSZoneSpec_DeepCopyInto
  by (rule heap_copy_zone_spec)

section \<open>Structs with metadata\<close>

definition conditions_view :: "('k, 'l) library \<Rightarrow> 'k memory \<Rightarrow> slice option \<Rightarrow> Condition list option" where
  "conditions_view lib = slice_view the_Values (cond_view lib)"

definition conditions_foot :: "('k, 'l) library \<Rightarrow> 'k memory \<Rightarrow> slice option \<Rightarrow> nat set" where
  "conditions_foot lib = slice_foot the_Values (cond_foot lib)"

definition zone_status_view :: "('k, 'l) library \<Rightarrow> 'k memory \<Rightarrow> PrivateDNSZoneStatus_mem \<Rightarrow> PrivateDNSZoneStatus option" where
  "zone_status_view lib h s = do {
     conditions \<leftarrow> conditions_view lib h (ztm_Conditions s);
     Some \<lparr>zst_ObservedGeneration = ztm_ObservedGeneration s, zst_Conditions = conditions, zst_Records = ztm_Records s,
       zst_Serial = ztm_Serial s, zst_ZoneFileKey = ztm_ZoneFileKey s, zst_LastAppliedHash = ztm_LastAppliedHash s\<rparr> }"

definition zone_status_foot :: "('k, 'l) library \<Rightarrow> 'k memory \<Rightarrow> PrivateDNSZoneStatus_mem \<Rightarrow> nat set" where
  "zone_status_foot lib h s = conditions_foot lib h (ztm_Conditions s)"

definition record_status_view :: "('k, 'l) library \<Rightarrow> 'k memory \<Rightarrow> PrivateDNSRecordStatus_mem \<Rightarrow> PrivateDNSRecordStatus option" where
  "record_status_view lib h s = do {
     conditions \<leftarrow> conditions_view lib h (rtm_Conditions s);
     Some \<lparr>rst_ObservedGeneration = rtm_ObservedGeneration s, rst_Conditions = conditions, rst_FQDN = rtm_FQDN s\<rparr> }"

definition record_status_foot :: "('k, 'l) library \<Rightarrow> 'k memory \<Rightarrow> PrivateDNSRecordStatus_mem \<Rightarrow> nat set" where
  "record_status_foot lib h s = conditions_foot lib h (rtm_Conditions s)"

definition zone_view :: "('k, 'l) library \<Rightarrow> 'k memory \<Rightarrow> 'k PrivateDNSZone_mem \<Rightarrow> (TypeMeta \<times> PrivateDNSZone) option" where
  "zone_view lib h s = do {
     meta \<leftarrow> om_view lib h (zm_ObjectMeta s);
     spec \<leftarrow> zone_spec_view h (zm_Spec s);
     status \<leftarrow> zone_status_view lib h (zm_Status s);
     Some (zm_TypeMeta s, \<lparr>z_Meta = meta, z_Spec = spec, z_Status = status\<rparr>) }"

definition zone_foot :: "('k, 'l) library \<Rightarrow> 'k memory \<Rightarrow> 'k PrivateDNSZone_mem \<Rightarrow> nat set" where
  "zone_foot lib h s = om_foot lib h (zm_ObjectMeta s) \<union> (zone_spec_foot h (zm_Spec s) \<union> zone_status_foot lib h (zm_Status s))"

definition record_view :: "('k, 'l) library \<Rightarrow> 'k memory \<Rightarrow> 'k PrivateDNSRecord_mem \<Rightarrow> (TypeMeta \<times> PrivateDNSRecord) option" where
  "record_view lib h s = do {
     meta \<leftarrow> om_view lib h (rm_ObjectMeta s);
     spec \<leftarrow> record_spec_view h (rm_Spec s);
     status \<leftarrow> record_status_view lib h (rm_Status s);
     Some (rm_TypeMeta s, \<lparr>rec_Meta = meta, rec_Spec = spec, rec_Status = status\<rparr>) }"

definition record_foot :: "('k, 'l) library \<Rightarrow> 'k memory \<Rightarrow> 'k PrivateDNSRecord_mem \<Rightarrow> nat set" where
  "record_foot lib h s = om_foot lib h (rm_ObjectMeta s) \<union> (record_spec_foot h (rm_Spec s) \<union> record_status_foot lib h (rm_Status s))"

text \<open>A list of objects, for either kind.\<close>

definition list_view ::
    "('k, 'l) library \<Rightarrow> ('k cell \<Rightarrow> 'a list option) \<Rightarrow> ('k memory \<Rightarrow> 'a \<Rightarrow> 'v option) \<Rightarrow> 'k memory \<Rightarrow> 'k list_mem
     \<Rightarrow> (TypeMeta \<times> 'l \<times> 'v list) option" where
  "list_view lib un view h s = do {
     meta \<leftarrow> lm_view lib h (lsm_ListMeta s);
     items \<leftarrow> slice_view un view h (lsm_Items s);
     Some (lsm_TypeMeta s, meta, items) }"

definition list_foot ::
    "('k, 'l) library \<Rightarrow> ('k cell \<Rightarrow> 'a list option) \<Rightarrow> ('k memory \<Rightarrow> 'a \<Rightarrow> nat set) \<Rightarrow> 'k memory \<Rightarrow> 'k list_mem \<Rightarrow> nat set" where
  "list_foot lib un foot h s = lm_foot lib h (lsm_ListMeta s) \<union> slice_foot un foot h (lsm_Items s)"

lemma lawful_libraryD:
  assumes "lawful_library lib"
  shows "heap_copy (om_view lib) (om_foot lib) (ObjectMeta_DeepCopyInto lib)"
    and "heap_copy (lm_view lib) (lm_foot lib) (ListMeta_DeepCopyInto lib)"
    and "heap_copy (cond_view lib) (cond_foot lib) (Condition_DeepCopyInto lib)"
  using assms by (simp_all add: lawful_library_def)

lemma heap_copy_conditions: "lawful_library lib \<Longrightarrow> heap_copy (conditions_view lib) (conditions_foot lib) (copy_conditions lib)"
  unfolding conditions_view_def conditions_foot_def copy_conditions_def
  by (rule copied_array.slice_heap_copy [OF copied_arrayI]) (simp_all add: lawful_libraryD)

lemma heap_copy_zone_status:
  "lawful_library lib \<Longrightarrow> heap_copy (zone_status_view lib) (zone_status_foot lib) (PrivateDNSZoneStatus_DeepCopyInto lib)"
  by (rule heap_copy_struct [OF heap_copy_conditions, where get = ztm_Conditions and put = "\<lambda>a s. s\<lparr>ztm_Conditions := a\<rparr>"
        and mk = "\<lambda>s cs. \<lparr>zst_ObservedGeneration = ztm_ObservedGeneration s, zst_Conditions = cs, zst_Records = ztm_Records s,
          zst_Serial = ztm_Serial s, zst_ZoneFileKey = ztm_ZoneFileKey s, zst_LastAppliedHash = ztm_LastAppliedHash s\<rparr>"])
    (auto simp: zone_status_view_def zone_status_foot_def PrivateDNSZoneStatus_DeepCopyInto_def split: bind_splits)

lemma heap_copy_record_status:
  "lawful_library lib \<Longrightarrow> heap_copy (record_status_view lib) (record_status_foot lib) (PrivateDNSRecordStatus_DeepCopyInto lib)"
  by (rule heap_copy_struct [OF heap_copy_conditions, where get = rtm_Conditions and put = "\<lambda>a s. s\<lparr>rtm_Conditions := a\<rparr>"
        and mk = "\<lambda>s cs. \<lparr>rst_ObservedGeneration = rtm_ObservedGeneration s, rst_Conditions = cs, rst_FQDN = rtm_FQDN s\<rparr>"])
    (auto simp: record_status_view_def record_status_foot_def PrivateDNSRecordStatus_DeepCopyInto_def split: bind_splits)

lemma heap_copy_zone: "lawful_library lib \<Longrightarrow> heap_copy (zone_view lib) (zone_foot lib) (PrivateDNSZone_DeepCopyInto lib)"
  by (rule heap_copy_struct [OF heap_copy_pair [OF lawful_libraryD(1) heap_copy_pair [OF heap_copy_zone_spec heap_copy_zone_status]],
        where get = "\<lambda>s. (zm_ObjectMeta s, zm_Spec s, zm_Status s)"
        and put = "\<lambda>(m, sp, st) s. s\<lparr>zm_ObjectMeta := m, zm_Spec := sp, zm_Status := st\<rparr>"
        and mk = "\<lambda>s (m, sp, st). (zm_TypeMeta s, \<lparr>z_Meta = m, z_Spec = sp, z_Status = st\<rparr>)"])
    (auto simp: zone_view_def zone_foot_def PrivateDNSZone_DeepCopyInto_def struct_parts split: bind_splits)

lemma heap_copy_record: "lawful_library lib \<Longrightarrow> heap_copy (record_view lib) (record_foot lib) (PrivateDNSRecord_DeepCopyInto lib)"
  by (rule heap_copy_struct [OF heap_copy_pair [OF lawful_libraryD(1) heap_copy_pair [OF heap_copy_record_spec heap_copy_record_status]],
        where get = "\<lambda>s. (rm_ObjectMeta s, rm_Spec s, rm_Status s)"
        and put = "\<lambda>(m, sp, st) s. s\<lparr>rm_ObjectMeta := m, rm_Spec := sp, rm_Status := st\<rparr>"
        and mk = "\<lambda>s (m, sp, st). (rm_TypeMeta s, \<lparr>rec_Meta = m, rec_Spec = sp, rec_Status = st\<rparr>)"])
    (auto simp: record_view_def record_foot_def PrivateDNSRecord_DeepCopyInto_def struct_parts split: bind_splits)

lemma copied_zones:
  "lawful_library lib \<Longrightarrow> copied_array (zone_view lib) (zone_foot lib) (PrivateDNSZone_DeepCopyInto lib) Zones the_Zones"
  by (rule copied_arrayI [OF heap_copy_zone]) simp_all

lemma copied_records:
  "lawful_library lib \<Longrightarrow> copied_array (record_view lib) (record_foot lib) (PrivateDNSRecord_DeepCopyInto lib) Records the_Records"
  by (rule copied_arrayI [OF heap_copy_record]) simp_all

lemma heap_copy_zone_slice:
  "lawful_library lib \<Longrightarrow> heap_copy (slice_view the_Zones (zone_view lib)) (slice_foot the_Zones (zone_foot lib))
     (slice_copy Zones the_Zones (Zone_zero lib) (PrivateDNSZone_DeepCopyInto lib))"
  by (rule copied_array.slice_heap_copy [OF copied_zones])

lemma heap_copy_zone_list:
  assumes "lawful_library lib"
  shows "heap_copy (list_view lib the_Zones (zone_view lib)) (list_foot lib the_Zones (zone_foot lib)) (PrivateDNSZoneList_DeepCopyInto lib)"
  by (rule heap_copy_struct [OF heap_copy_pair [OF lawful_libraryD(2) heap_copy_zone_slice], OF assms assms,
        where get = "\<lambda>s. (lsm_ListMeta s, lsm_Items s)" and put = "\<lambda>(m, xs) s. s\<lparr>lsm_ListMeta := m, lsm_Items := xs\<rparr>"
        and mk = "\<lambda>s (m, xs). (lsm_TypeMeta s, m, xs)"])
    (auto simp: list_view_def list_foot_def PrivateDNSZoneList_DeepCopyInto_def struct_parts split: bind_splits)

lemma heap_copy_record_slice:
  "lawful_library lib \<Longrightarrow> heap_copy (slice_view the_Records (record_view lib)) (slice_foot the_Records (record_foot lib))
     (slice_copy Records the_Records (Record_zero lib) (PrivateDNSRecord_DeepCopyInto lib))"
  by (rule copied_array.slice_heap_copy [OF copied_records])

lemma heap_copy_record_list:
  assumes "lawful_library lib"
  shows "heap_copy (list_view lib the_Records (record_view lib)) (list_foot lib the_Records (record_foot lib)) (PrivateDNSRecordList_DeepCopyInto lib)"
  by (rule heap_copy_struct [OF heap_copy_pair [OF lawful_libraryD(2) heap_copy_record_slice], OF assms assms,
        where get = "\<lambda>s. (lsm_ListMeta s, lsm_Items s)" and put = "\<lambda>(m, xs) s. s\<lparr>lsm_ListMeta := m, lsm_Items := xs\<rparr>"
        and mk = "\<lambda>s (m, xs). (lsm_TypeMeta s, m, xs)"])
    (auto simp: list_view_def list_foot_def PrivateDNSRecordList_DeepCopyInto_def struct_parts split: bind_splits)

end
