(* ===== verification/Deep_Copy_Properties.thy ===== *)
theory Deep_Copy_Properties
  imports Deep_Copy_Views
begin

text \<open>
  The deep copies of whole objects and lists, through the interface \<^verbatim>\<open>runtime.Object\<close>, are
  separate from what they were copied from. Two memories agree on a set of addresses when
  their cells there are the same: \<open>agree {..<length h}\<close> is any later memory in which the cells
  of before the copy are unchanged, whatever was written to the copy.
\<close>

section \<open>Copies through a pointer\<close>

context copied_array
begin

lemma pointer_separate:
  assumes "pointer_view un view h (Some p) = Some v"
  shows "\<exists>q e. pointer_copy wr un zero copy (Some p) h = Some (Some q, h @ e)
    \<and> (\<forall>g. agree {length h..<length (h @ e)} (h @ e) g \<longrightarrow> pointer_view un view g (Some q) = Some v)
    \<and> (\<forall>g. agree {..<length h} (h @ e) g \<longrightarrow> pointer_view un view g (Some p) = Some v)"
proof -
  obtain y e where y: "pointer_copy wr un zero copy (Some p) h = Some (y, h @ e)"
      "\<forall>g. agree {length h..<length (h @ e)} (h @ e) g \<longrightarrow> pointer_view un view g y = Some v"
      "\<forall>g. agree {..<length h} (h @ e) g \<longrightarrow> pointer_view un view g (Some p) = Some v"
    using pointers.separate [OF assms] by blast
  from y(1) obtain q where "y = Some q"
    by (auto simp: pointer_copy_def make_array_def bind_eq_Some_conv)
  with y show ?thesis by blast
qed

end

lemma pointer_copy_nil: "pointer_copy wr un zero copy None h = Some (None, h)"
  by (simp add: pointer_copy_def)

lemma copied_zone_lists:
  "lawful_library lib \<Longrightarrow> copied_array (list_view lib the_Zones (zone_view lib)) (list_foot lib the_Zones (zone_foot lib))
     (PrivateDNSZoneList_DeepCopyInto lib) Lists the_Lists"
  by (rule copied_arrayI [OF heap_copy_zone_list]) simp_all

lemma copied_record_lists:
  "lawful_library lib \<Longrightarrow> copied_array (list_view lib the_Records (record_view lib)) (list_foot lib the_Records (record_foot lib))
     (PrivateDNSRecordList_DeepCopyInto lib) Lists the_Lists"
  by (rule copied_arrayI [OF heap_copy_record_list]) simp_all

section \<open>Objects and lists\<close>

text \<open>What a pointer to an object or to a list denotes.\<close>

definition zone_at :: "('k, 'l) library \<Rightarrow> 'k memory \<Rightarrow> pointer \<Rightarrow> (TypeMeta \<times> PrivateDNSZone) option" where
  "zone_at lib h p = do { s \<leftarrow> load the_Zones h p; zone_view lib h s }"

definition record_at :: "('k, 'l) library \<Rightarrow> 'k memory \<Rightarrow> pointer \<Rightarrow> (TypeMeta \<times> PrivateDNSRecord) option" where
  "record_at lib h p = do { s \<leftarrow> load the_Records h p; record_view lib h s }"

definition zone_list_at :: "('k, 'l) library \<Rightarrow> 'k memory \<Rightarrow> pointer \<Rightarrow> (TypeMeta \<times> 'l \<times> (TypeMeta \<times> PrivateDNSZone) list) option" where
  "zone_list_at lib h p = do { s \<leftarrow> load the_Lists h p; list_view lib the_Zones (zone_view lib) h s }"

definition record_list_at :: "('k, 'l) library \<Rightarrow> 'k memory \<Rightarrow> pointer \<Rightarrow> (TypeMeta \<times> 'l \<times> (TypeMeta \<times> PrivateDNSRecord) list) option" where
  "record_list_at lib h p = do { s \<leftarrow> load the_Lists h p; list_view lib the_Records (record_view lib) h s }"

lemma pointer_view_at: "pointer_view un view h (Some p) = Some (Some v) \<longleftrightarrow> do { s \<leftarrow> load un h p; view h s } = Some v"
  by (auto simp: pointer_view_def bind_eq_Some_conv)

lemmas at_defs = zone_at_def record_at_def zone_list_at_def record_list_at_def

lemma PrivateDNSZone_separate:
  assumes "lawful_library lib" and "zone_at lib h p = Some v"
  shows "\<exists>q e. PrivateDNSZone_DeepCopy lib (Some p) h = Some (Some q, h @ e)
    \<and> (\<forall>g. agree {length h..<length (h @ e)} (h @ e) g \<longrightarrow> zone_at lib g q = Some v)
    \<and> (\<forall>g. agree {..<length h} (h @ e) g \<longrightarrow> zone_at lib g p = Some v)"
  using copied_array.pointer_separate [OF copied_zones [OF assms(1)], of h p "Some v" "Zone_zero lib"] assms(2)
  by (simp add: pointer_view_at at_defs PrivateDNSZone_DeepCopy_def)

lemma PrivateDNSRecord_separate:
  assumes "lawful_library lib" and "record_at lib h p = Some v"
  shows "\<exists>q e. PrivateDNSRecord_DeepCopy lib (Some p) h = Some (Some q, h @ e)
    \<and> (\<forall>g. agree {length h..<length (h @ e)} (h @ e) g \<longrightarrow> record_at lib g q = Some v)
    \<and> (\<forall>g. agree {..<length h} (h @ e) g \<longrightarrow> record_at lib g p = Some v)"
  using copied_array.pointer_separate [OF copied_records [OF assms(1)], of h p "Some v" "Record_zero lib"] assms(2)
  by (simp add: pointer_view_at at_defs PrivateDNSRecord_DeepCopy_def)

lemma PrivateDNSRecordList_separate:
  assumes "lawful_library lib" and "record_list_at lib h p = Some v"
  shows "\<exists>q e. PrivateDNSRecordList_DeepCopyObject lib (Some p) h = Some (Some (RecordList_object (Some q)), h @ e)
    \<and> (\<forall>g. agree {length h..<length (h @ e)} (h @ e) g \<longrightarrow> record_list_at lib g q = Some v)
    \<and> (\<forall>g. agree {..<length h} (h @ e) g \<longrightarrow> record_list_at lib g p = Some v)"
  using copied_array.pointer_separate [OF copied_record_lists [OF assms(1)], of h p "Some v" "List_zero lib"] assms(2)
  by (auto simp: pointer_view_at at_defs PrivateDNSRecordList_DeepCopyObject_def PrivateDNSRecordList_DeepCopy_def)

text \<open>The interface of a nil pointer: not an interface that holds a nil pointer.\<close>

lemma DeepCopyObject_nil:
  "PrivateDNSZone_DeepCopyObject lib None h = Some (None, h)"
  "PrivateDNSRecord_DeepCopyObject lib None h = Some (None, h)"
  "PrivateDNSZoneList_DeepCopyObject lib None h = Some (None, h)"
  "PrivateDNSRecordList_DeepCopyObject lib None h = Some (None, h)"
  by (simp_all add: PrivateDNSZone_DeepCopyObject_def PrivateDNSZone_DeepCopy_def
      PrivateDNSRecord_DeepCopyObject_def PrivateDNSRecord_DeepCopy_def
      PrivateDNSZoneList_DeepCopyObject_def PrivateDNSZoneList_DeepCopy_def
      PrivateDNSRecordList_DeepCopyObject_def PrivateDNSRecordList_DeepCopy_def pointer_copy_nil)

text \<open>C23. A deep copy of a list of zones denotes the same list, to the last TTL, value and
  condition. It shares no cell with the original: as long as the cells of the copy are
  unchanged the copy denotes this list, and as long as the cells from before are unchanged so
  does the original, whatever happens to the memory of the other.\<close>

theorem PrivateDNSZoneList_copy_separate:
  assumes "lawful_library lib" and "zone_list_at lib h p = Some v"
  shows "\<exists>q e. PrivateDNSZoneList_DeepCopyObject lib (Some p) h = Some (Some (ZoneList_object (Some q)), h @ e)
    \<and> (\<forall>g. agree {length h..<length (h @ e)} (h @ e) g \<longrightarrow> zone_list_at lib g q = Some v)
    \<and> (\<forall>g. agree {..<length h} (h @ e) g \<longrightarrow> zone_list_at lib g p = Some v)"
  using copied_array.pointer_separate [OF copied_zone_lists [OF assms(1)], of h p "Some v" "List_zero lib"] assms(2)
  by (auto simp: pointer_view_at at_defs PrivateDNSZoneList_DeepCopyObject_def PrivateDNSZoneList_DeepCopy_def)

section \<open>The base of a status patch\<close>

lemma agree_assign: "p_at p \<notin> A \<Longrightarrow> A \<subseteq> {..<length h} \<Longrightarrow> agree A h ((h @ e)[p_at p := c])"
  unfolding agree_def by (metis (no_types, lifting) length_append length_list_update lessThan_iff nth_append
      nth_list_update_neq subsetD trans_less_add1)

text \<open>Copy, then assign to the original.\<close>

context copied_array
begin

lemma copy_then_assign:
  assumes "load un h p = Some x" and "view h x = Some v"
  shows "\<exists>q e g. pointer_copy wr un zero copy (Some p) h = Some (Some q, h @ e) \<and> load un (h @ e) p = Some x
    \<and> store wr un p y (h @ e) = Some g \<and> load un g p = Some y \<and> pointer_view un view g (Some q) = Some (Some v)
    \<and> (\<forall>A. A \<subseteq> {..<length h} \<longrightarrow> p_at p \<notin> A \<longrightarrow> agree A h g)"
proof -
  have "pointer_view un view h (Some p) = Some (Some v)" using assms by (simp add: pointer_view_def)
  from pointer_separate [OF this] obtain q e where
    c: "pointer_copy wr un zero copy (Some p) h = Some (Some q, h @ e)"
    and keep: "\<And>g. agree {length h..<length (h @ e)} (h @ e) g \<Longrightarrow> pointer_view un view g (Some q) = Some (Some v)" by blast
  obtain xs where xs: "array_at un (h @ e) (p_at p) = Some xs" "p_index p < length xs" "x = xs ! p_index p"
    using assms(1) array_at_append [of un h "p_at p" _ e] by (auto simp: load_Some)
  note at = load_dom [OF assms(1)]
  let ?g = "(h @ e)[p_at p := wr (xs[p_index p := y])]"
  have "load un (h @ e) p = Some x" using xs by (simp add: load_Some)
  moreover have "store wr un p y (h @ e) = Some ?g" using xs by (simp add: store_def)
  moreover have "load un ?g p = Some y" using xs at by (simp add: load_Some array_at_def un_wr)
  moreover have "pointer_view un view ?g (Some q) = Some (Some v)"
    by (rule keep) (use at in \<open>auto simp: agree_def\<close>)
  moreover have "\<forall>A. A \<subseteq> {..<length h} \<longrightarrow> p_at p \<notin> A \<longrightarrow> agree A h ?g"
    by (intro allI impI agree_assign)
  ultimately show ?thesis using c by (intro exI [of _ q] exI [of _ e] exI [of _ ?g] conjI)
qed

end

text \<open>C22. When the status of a zone is written, the base of the patch is the zone as it was
  listed, down to its conditions, and the zone it is compared with has the new status and is
  otherwise the same: the patch carries the change of the status and nothing else. This rests
  on the deep copy; a base that shared memory with the zone would change with it. The zone must
  not lie inside its own metadata or conditions.\<close>

theorem zone_patch_base_status:
  assumes lib: "lawful_library lib" and z: "load the_Zones h zone = Some z" "zone_view lib h z = Some (tm, v)"
    and st: "zone_status_view lib h status = Some st"
    and apart: "p_at zone \<notin> zone_foot lib h z" "p_at zone \<notin> zone_status_foot lib h status"
  shows "\<exists>base g. zone_patch_base lib zone status h = Some (Some base, g)
    \<and> zone_at lib g base = Some (tm, v) \<and> zone_at lib g zone = Some (tm, v\<lparr>z_Status := st\<rparr>)"
proof -
  note zc = heap_copy_zone [OF lib] and sc = heap_copy_zone_status [OF lib]
  from copied_array.copy_then_assign [OF copied_zones [OF lib] z, where y = "z\<lparr>zm_Status := status\<rparr>" and zero = "Zone_zero lib"]
  obtain q e g where c: "PrivateDNSZone_DeepCopy lib (Some zone) h = Some (Some q, h @ e)"
      "load the_Zones (h @ e) zone = Some z" "store Zones the_Zones zone (z\<lparr>zm_Status := status\<rparr>) (h @ e) = Some g"
      "load the_Zones g zone = Some (z\<lparr>zm_Status := status\<rparr>)" "pointer_view the_Zones (zone_view lib) g (Some q) = Some (Some (tm, v))"
    and ag: "\<And>A. A \<subseteq> {..<length h} \<Longrightarrow> p_at zone \<notin> A \<Longrightarrow> agree A h g"
    unfolding PrivateDNSZone_DeepCopy_def by blast
  have "zone_view lib g z = Some (tm, v)"
    using heap_copy.frame [OF zc z(2) ag [OF heap_copy.foot_bound [OF zc z(2)] apart(1)]] by simp
  moreover have "zone_status_view lib g status = Some st"
    using heap_copy.frame [OF sc st ag [OF heap_copy.foot_bound [OF sc st] apart(2)]] by simp
  ultimately have "zone_at lib g zone = Some (tm, v\<lparr>z_Status := st\<rparr>)"
    using c(4) by (auto simp: zone_at_def zone_view_def bind_eq_Some_conv)
  moreover have "zone_at lib g q = Some (tm, v)" using c(5) by (simp add: pointer_view_at zone_at_def)
  moreover have "zone_patch_base lib zone status h = Some (Some q, g)" using c(1-3) by (simp add: zone_patch_base_def)
  ultimately show ?thesis by blast
qed

text \<open>The same for a record.\<close>

lemma record_patch_base_status:
  assumes lib: "lawful_library lib" and r: "load the_Records h record = Some r" "record_view lib h r = Some (tm, v)"
    and st: "record_status_view lib h status = Some st"
    and apart: "p_at record \<notin> record_foot lib h r" "p_at record \<notin> record_status_foot lib h status"
  shows "\<exists>base g. record_patch_base lib record status h = Some (Some base, g)
    \<and> record_at lib g base = Some (tm, v) \<and> record_at lib g record = Some (tm, v\<lparr>rec_Status := st\<rparr>)"
proof -
  note rc = heap_copy_record [OF lib] and sc = heap_copy_record_status [OF lib]
  from copied_array.copy_then_assign [OF copied_records [OF lib] r, where y = "r\<lparr>rm_Status := status\<rparr>" and zero = "Record_zero lib"]
  obtain q e g where c: "PrivateDNSRecord_DeepCopy lib (Some record) h = Some (Some q, h @ e)"
      "load the_Records (h @ e) record = Some r" "store Records the_Records record (r\<lparr>rm_Status := status\<rparr>) (h @ e) = Some g"
      "load the_Records g record = Some (r\<lparr>rm_Status := status\<rparr>)" "pointer_view the_Records (record_view lib) g (Some q) = Some (Some (tm, v))"
    and ag: "\<And>A. A \<subseteq> {..<length h} \<Longrightarrow> p_at record \<notin> A \<Longrightarrow> agree A h g"
    unfolding PrivateDNSRecord_DeepCopy_def by blast
  have "record_view lib g r = Some (tm, v)"
    using heap_copy.frame [OF rc r(2) ag [OF heap_copy.foot_bound [OF rc r(2)] apart(1)]] by simp
  moreover have "record_status_view lib g status = Some st"
    using heap_copy.frame [OF sc st ag [OF heap_copy.foot_bound [OF sc st] apart(2)]] by simp
  ultimately have "record_at lib g record = Some (tm, v\<lparr>rec_Status := st\<rparr>)"
    using c(4) by (auto simp: record_at_def record_view_def bind_eq_Some_conv)
  moreover have "record_at lib g q = Some (tm, v)" using c(5) by (simp add: pointer_view_at record_at_def)
  moreover have "record_patch_base lib record status h = Some (Some q, g)" using c(1-3) by (simp add: record_patch_base_def)
  ultimately show ?thesis by blast
qed

section \<open>A library and a memory\<close>

text \<open>A library whose object metadata has a slice of its own, the finalizers.\<close>

record sample_value =
  sv_Meta :: ObjectMeta
  sv_Finalizers :: "slice option"
  sv_Condition :: Condition

definition sample_condition :: Condition where
  "sample_condition = \<lparr>c_Type = ''Ready'', c_Status = ''False'', c_ObservedGeneration = 1, c_LastTransitionTime = 7,
     c_Reason = ''Error'', c_Message = []\<rparr>"

definition sample_value :: sample_value where
  "sample_value = \<lparr>sv_Meta = \<lparr>om_Name = ''z'', om_Namespace = [], om_Generation = 1, om_DeletionTimestamp = None,
     om_Finalizers = []\<rparr>, sv_Finalizers = Some \<lparr>sl_at = 0, sl_off = 1, sl_len = 1\<rparr>, sv_Condition = sample_condition\<rparr>"

definition sample_library :: "(sample_value, unit) library" where
  "sample_library =
     \<lparr>lib_zero = sample_value,
      om_view = (\<lambda>h s. do { fs \<leftarrow> strings_view h (sv_Finalizers s); Some ((sv_Meta s)\<lparr>om_Finalizers := fs\<rparr>) }),
      om_foot = (\<lambda>h s. strings_foot h (sv_Finalizers s)),
      ObjectMeta_DeepCopyInto = (\<lambda>s h. do { (fs, h) \<leftarrow> copy_strings (sv_Finalizers s) h; Some (s\<lparr>sv_Finalizers := fs\<rparr>, h) }),
      lm_view = (\<lambda>h s. Some ()), lm_foot = (\<lambda>h s. {}), ListMeta_DeepCopyInto = plain_copy,
      cond_view = (\<lambda>h s. Some (sv_Condition s)), cond_foot = (\<lambda>h s. {}), Condition_DeepCopyInto = plain_copy\<rparr>"

lemma lawful_sample_library: "lawful_library sample_library"
proof -
  have "heap_copy (om_view sample_library) (om_foot sample_library) (ObjectMeta_DeepCopyInto sample_library)"
    by (rule heap_copy_struct [OF heap_copy_strings, where get = sv_Finalizers and put = "\<lambda>a s. s\<lparr>sv_Finalizers := a\<rparr>"
          and mk = "\<lambda>s fs. (sv_Meta s)\<lparr>om_Finalizers := fs\<rparr>"])
      (simp_all add: sample_library_def split: bind_splits)
  then show ?thesis using heap_copy_plain by (simp add: lawful_library_def) (simp add: sample_library_def heap_copy_plain)
qed

definition sample_spec_mem :: PrivateDNSZoneSpec_mem where
  "sample_spec_mem = \<lparr>zsm_Zone = ''corp'', zsm_TTL = Some \<lparr>p_at = 1, p_index = 0\<rparr>, zsm_UnresolvedRecordPolicy = ''Forward'',
     zsm_AllowedNamespaces = \<lparr>nsm_MatchNames = Some \<lparr>sl_at = 0, sl_off = 0, sl_len = 1\<rparr>\<rparr>,
     zsm_Records = Some \<lparr>sl_at = 2, sl_off = 0, sl_len = 1\<rparr>\<rparr>"

definition sample_status_mem :: "slice option \<Rightarrow> PrivateDNSZoneStatus_mem" where
  "sample_status_mem cs = \<lparr>ztm_ObservedGeneration = 1, ztm_Conditions = cs, ztm_Records = 1, ztm_Serial = ''2024010101'',
     ztm_ZoneFileKey = [], ztm_LastAppliedHash = []\<rparr>"

definition sample_zone_mem :: "sample_value PrivateDNSZone_mem" where
  "sample_zone_mem = \<lparr>zm_TypeMeta = TypeMeta_zero, zm_ObjectMeta = sample_value, zm_Spec = sample_spec_mem,
     zm_Status = sample_status_mem (Some \<lparr>sl_at = 3, sl_off = 0, sl_len = 1\<rparr>)\<rparr>"

definition sample_memory :: "sample_value memory" where
  "sample_memory =
     [Strings [''apps'', ''keep''], Int32s [300],
      Inlines [\<lparr>inm_Name = ''www'', inm_Type = ''A'', inm_TTL = None, inm_Values = Some \<lparr>sl_at = 0, sl_off = 0, sl_len = 2\<rparr>\<rparr>],
      Values [sample_value],
      Zones [sample_zone_mem],
      Lists [\<lparr>lsm_TypeMeta = TypeMeta_zero, lsm_ListMeta = sample_value, lsm_Items = Some \<lparr>sl_at = 4, sl_off = 0, sl_len = 1\<rparr>\<rparr>]]"

lemmas memory_eval = sample_memory_def sample_zone_mem_def sample_status_mem_def sample_spec_mem_def sample_value_def
  sample_library_def strings_view_def strings_foot_def int32_view_def int32_foot_def slice_view_def slice_foot_def
  pointer_view_def pointer_foot_def load_def elements_def array_at_def views_def

lemmas views_eval = zone_view_def zone_foot_def zone_spec_view_def zone_spec_foot_def zone_status_view_def zone_status_foot_def
  selector_view_def selector_foot_def inline_view_def inline_foot_def conditions_view_def conditions_foot_def list_view_def

definition sample_zone_value :: PrivateDNSZone where
  "sample_zone_value =
     \<lparr>z_Meta = (sv_Meta sample_value)\<lparr>om_Finalizers := [''keep'']\<rparr>,
      z_Spec = \<lparr>zs_Zone = ''corp'', zs_TTL = Some 300, zs_UnresolvedRecordPolicy = ''Forward'',
        zs_AllowedNamespaces = \<lparr>MatchNames = [''apps'']\<rparr>,
        zs_Records = [\<lparr>in_Name = ''www'', in_Type = ''A'', in_TTL = None, in_Values = [''apps'', ''keep'']\<rparr>]\<rparr>,
      z_Status = \<lparr>zst_ObservedGeneration = 1, zst_Conditions = [sample_condition], zst_Records = 1,
        zst_Serial = ''2024010101'', zst_ZoneFileKey = [], zst_LastAppliedHash = []\<rparr>\<rparr>"

lemma sample_zone_denotes: "zone_view sample_library sample_memory sample_zone_mem = Some (TypeMeta_zero, sample_zone_value)"
  by (simp add: memory_eval views_eval sample_zone_value_def)

lemma sample_zone_apart: "4 \<notin> zone_foot sample_library sample_memory sample_zone_mem"
  by (simp add: memory_eval views_eval)

lemma sample_list_denotes:
  "zone_list_at sample_library sample_memory \<lparr>p_at = 5, p_index = 0\<rparr> = Some (TypeMeta_zero, (), [(TypeMeta_zero, sample_zone_value)])"
proof -
  have "elements the_Zones sample_memory \<lparr>sl_at = 4, sl_off = 0, sl_len = 1\<rparr> = Some [sample_zone_mem]"
    by (simp add: elements_def array_at_def) (simp add: sample_memory_def)
  then have "slice_view the_Zones (zone_view sample_library) sample_memory (Some \<lparr>sl_at = 4, sl_off = 0, sl_len = 1\<rparr>)
      = Some [(TypeMeta_zero, sample_zone_value)]"
    using sample_zone_denotes by (simp add: slice_view_def views_def)
  moreover have "load the_Lists sample_memory \<lparr>p_at = 5, p_index = 0\<rparr> =
      Some \<lparr>lsm_TypeMeta = TypeMeta_zero, lsm_ListMeta = sample_value, lsm_Items = Some \<lparr>sl_at = 4, sl_off = 0, sl_len = 1\<rparr>\<rparr>"
    by (simp add: load_def array_at_def) (simp add: sample_memory_def)
  moreover have "lm_view sample_library h x = Some ()" for h x by (simp add: sample_library_def)
  ultimately show ?thesis by (simp add: zone_list_at_def list_view_def)
qed

text \<open>After the copy every cell of it is overwritten, and the original still denotes the same list.\<close>

theorem PrivateDNSZoneList_copy_separate_witness:
  "\<exists>q e. PrivateDNSZoneList_DeepCopyObject sample_library (Some \<lparr>p_at = 5, p_index = 0\<rparr>) sample_memory
      = Some (Some (ZoneList_object (Some q)), sample_memory @ e)
    \<and> zone_list_at sample_library (sample_memory @ e) q = Some (TypeMeta_zero, (), [(TypeMeta_zero, sample_zone_value)])
    \<and> zone_list_at sample_library (sample_memory @ map (\<lambda>_. Int32s []) e) \<lparr>p_at = 5, p_index = 0\<rparr>
      = Some (TypeMeta_zero, (), [(TypeMeta_zero, sample_zone_value)])"
proof -
  note sep = PrivateDNSZoneList_copy_separate [OF lawful_sample_library sample_list_denotes]
  have refl: "agree {length h..<length g} g g" for h g :: "sample_value memory" by (simp add: agree_def)
  have other: "agree {..<length h} (h @ e) (h @ map f e)" for h e :: "sample_value memory" and f
    by (simp add: agree_def nth_append)
  from sep refl other show ?thesis by blast
qed

theorem zone_patch_base_status_witness:
  "\<exists>base g. zone_patch_base sample_library \<lparr>p_at = 4, p_index = 0\<rparr> (sample_status_mem None) sample_memory = Some (Some base, g)
    \<and> zone_at sample_library g base = Some (TypeMeta_zero, sample_zone_value)
    \<and> zone_at sample_library g \<lparr>p_at = 4, p_index = 0\<rparr>
      = Some (TypeMeta_zero, sample_zone_value\<lparr>z_Status := (z_Status sample_zone_value)\<lparr>zst_Conditions := []\<rparr>\<rparr>)"
proof (rule zone_patch_base_status [OF lawful_sample_library _ sample_zone_denotes])
  show "load the_Zones sample_memory \<lparr>p_at = 4, p_index = 0\<rparr> = Some sample_zone_mem"
    by (simp add: load_def array_at_def) (simp add: sample_memory_def)
  show "zone_status_view sample_library sample_memory (sample_status_mem None)
      = Some ((z_Status sample_zone_value)\<lparr>zst_Conditions := []\<rparr>)"
    by (simp add: memory_eval views_eval sample_zone_value_def)
  show "p_at \<lparr>p_at = 4, p_index = 0\<rparr> \<notin> zone_foot sample_library sample_memory sample_zone_mem"
    using sample_zone_apart by simp
  show "p_at \<lparr>p_at = 4, p_index = 0\<rparr> \<notin> zone_status_foot sample_library sample_memory (sample_status_mem None)"
    by (simp add: memory_eval views_eval)
qed

end
