(* ===== verification/Api_Registration.thy ===== *)
theory Api_Registration
  imports Prelude
begin

text \<open>
  \<^verbatim>\<open>groupversion_info.go\<close> and the \<^verbatim>\<open>init\<close> functions of the two files of types: what
  \<^verbatim>\<open>dnsv1alpha1.AddToScheme\<close> registers. The scheme and its builder belong to \<^verbatim>\<open>apimachinery\<close> and
  are parameters; \<open>lawful_builder\<close> is their documented behaviour, that \<^verbatim>\<open>AddToScheme\<close> applies the
  stored functions in order and abandons the attempt at the first error.
\<close>

record schema_GroupVersion =
  gv_Group :: string
  gv_Version :: string

definition GroupVersion :: schema_GroupVersion where
  "GroupVersion = \<lparr>gv_Group = ''dns.custlynotts.io'', gv_Version = ''v1alpha1''\<rparr>"

text \<open>The Go types that are registered with a scheme or named to the manager.\<close>

datatype go_type =
    ConfigMap_type | Deployment_type
  | PrivateDNSZone_type | PrivateDNSZoneList_type | PrivateDNSRecord_type | PrivateDNSRecordList_type

text \<open>A function on a scheme returns its error and the scheme it leaves.\<close>

type_synonym 's scheme_function = "'s \<Rightarrow> string option \<times> 's"

record ('s, 'b) scheme_library =
  AddToGroupVersion :: "schema_GroupVersion \<Rightarrow> 's \<Rightarrow> 's"
  AddKnownTypes :: "schema_GroupVersion \<Rightarrow> go_type list \<Rightarrow> 's \<Rightarrow> 's"
  NewSchemeBuilder :: "'s scheme_function list \<Rightarrow> 'b"
  Builder_Register :: "'s scheme_function list \<Rightarrow> 'b \<Rightarrow> 'b"
  Builder_AddToScheme :: "'b \<Rightarrow> 's scheme_function"

fun apply_all :: "'s scheme_function list \<Rightarrow> 's scheme_function" where
  "apply_all [] s = (None, s)"
| "apply_all (f # fs) s = (case f s of (Some e, s) \<Rightarrow> (Some e, s) | (None, s) \<Rightarrow> apply_all fs s)"

definition lawful_builder :: "('s, 'b) scheme_library \<Rightarrow> bool" where
  "lawful_builder lib \<longleftrightarrow> (\<exists>stored.
     (\<forall>fs. stored (NewSchemeBuilder lib fs) = fs)
     \<and> (\<forall>fs b. stored (Builder_Register lib fs b) = stored b @ fs)
     \<and> (\<forall>b. Builder_AddToScheme lib b = apply_all (stored b)))"

definition addGroupVersion :: "('s, 'b) scheme_library \<Rightarrow> 's scheme_function" where
  "addGroupVersion lib scheme = (None, AddToGroupVersion lib GroupVersion scheme)"

definition registerTypes :: "('s, 'b) scheme_library \<Rightarrow> go_type list \<Rightarrow> 's scheme_function" where
  "registerTypes lib objects scheme = (None, AddKnownTypes lib GroupVersion objects scheme)"

text \<open>The package variable after the two \<^verbatim>\<open>init\<close> functions: Go runs them in the order of the
  file names.\<close>

definition init_record_types :: "('s, 'b) scheme_library \<Rightarrow> 'b \<Rightarrow> 'b" where
  "init_record_types lib = Builder_Register lib [registerTypes lib [PrivateDNSRecord_type, PrivateDNSRecordList_type]]"

definition init_zone_types :: "('s, 'b) scheme_library \<Rightarrow> 'b \<Rightarrow> 'b" where
  "init_zone_types lib = Builder_Register lib [registerTypes lib [PrivateDNSZone_type, PrivateDNSZoneList_type]]"

definition SchemeBuilder :: "('s, 'b) scheme_library \<Rightarrow> 'b" where
  "SchemeBuilder lib = init_zone_types lib (init_record_types lib (NewSchemeBuilder lib [addGroupVersion lib]))"

definition AddToScheme :: "('s, 'b) scheme_library \<Rightarrow> 's scheme_function" where
  "AddToScheme lib = Builder_AddToScheme lib (SchemeBuilder lib)"

lemma AddToScheme_registers:
  assumes "lawful_builder lib"
  shows "AddToScheme lib s = (None,
    AddKnownTypes lib GroupVersion [PrivateDNSZone_type, PrivateDNSZoneList_type]
      (AddKnownTypes lib GroupVersion [PrivateDNSRecord_type, PrivateDNSRecordList_type]
        (AddToGroupVersion lib GroupVersion s)))"
  using assms
  by (auto simp: lawful_builder_def AddToScheme_def SchemeBuilder_def init_zone_types_def init_record_types_def
      registerTypes_def addGroupVersion_def)

text \<open>A builder that stores the functions in a list is lawful.\<close>

lemma lawful_list_builder:
  "lawful_builder \<lparr>AddToGroupVersion = gv, AddKnownTypes = kt, NewSchemeBuilder = (\<lambda>fs. fs),
     Builder_Register = (\<lambda>fs b. b @ fs), Builder_AddToScheme = apply_all\<rparr>"
  by (auto simp: lawful_builder_def intro: exI [of _ "\<lambda>b. b"])

end
