(* ===== verification/Go_Flag.thy ===== *)
theory Go_Flag
  imports Prelude
begin

text \<open>
  What the source uses of the package \<^verbatim>\<open>flag\<close>: \<^verbatim>\<open>flag.Parse\<close> on the arguments of the process, for
  string and boolean flags and for flags that libraries define, and \<^verbatim>\<open>strconv.ParseBool\<close>. The
  result is the list of assignments in the order they were made, with the arguments that
  are left. Each spelling of a flag is read back as the assignment it stands for.
\<close>

definition ParseBool :: "string \<Rightarrow> bool option" where
  "ParseBool str =
     (if str \<in> set [''1'', ''t'', ''T'', ''true'', ''TRUE'', ''True''] then Some True
      else if str \<in> set [''0'', ''f'', ''F'', ''false'', ''FALSE'', ''False''] then Some False
      else None)"

text \<open>The kind of a flag; of a flag of a library, whether it is boolean and the values it accepts.\<close>

datatype flag_kind = StringFlag | BoolFlag | LibraryFlag bool "string \<Rightarrow> bool"

fun is_bool_flag :: "flag_kind \<Rightarrow> bool" where
  "is_bool_flag StringFlag = False"
| "is_bool_flag BoolFlag = True"
| "is_bool_flag (LibraryFlag b ok) = b"

fun accepts :: "flag_kind \<Rightarrow> string \<Rightarrow> bool" where
  "accepts StringFlag value = True"
| "accepts BoolFlag value = (ParseBool value \<noteq> None)"
| "accepts (LibraryFlag b ok) value = ok value"

datatype flag_error = BadSyntax | NotDefined | HelpRequested | NeedsArgument | InvalidValue

definition flag_name :: "string \<Rightarrow> string" where
  "flag_name s = takeWhile (\<lambda>c. c \<noteq> CHR ''='') s"

definition flag_value :: "string \<Rightarrow> string option" where
  "flag_value s = (if CHR ''='' \<in> set s then Some (drop (Suc (length (flag_name s))) s) else None)"

fun parse_args ::
    "(string \<Rightarrow> flag_kind option) \<Rightarrow> string list \<Rightarrow> (string \<times> string) list
     \<Rightarrow> flag_error + (string \<times> string) list \<times> string list" where
  "parse_args kinds [] given = Inr (given, [])"
| "parse_args kinds (arg # args) given =
     (if length arg < 2 \<or> hd arg \<noteq> CHR ''-'' then Inr (given, arg # args)
      else if arg = ''--'' then Inr (given, args)
      else
        let s = (if arg ! 1 = CHR ''-'' then drop 2 arg else drop 1 arg) in
        if s = [] \<or> hd s = CHR ''-'' \<or> hd s = CHR ''='' then Inl BadSyntax
        else
          (case kinds (flag_name s) of
             None \<Rightarrow> Inl (if flag_name s = ''help'' \<or> flag_name s = ''h'' then HelpRequested else NotDefined)
           | Some k \<Rightarrow>
               (case flag_value s of
                  Some v \<Rightarrow> if accepts k v then parse_args kinds args (given @ [(flag_name s, v)]) else Inl InvalidValue
                | None \<Rightarrow>
                    if is_bool_flag k then
                      if accepts k ''true'' then parse_args kinds args (given @ [(flag_name s, ''true'')]) else Inl InvalidValue
                    else
                      (case args of
                         [] \<Rightarrow> Inl NeedsArgument
                       | v # args \<Rightarrow>
                           if accepts k v then parse_args kinds args (given @ [(flag_name s, v)]) else Inl InvalidValue))))"

section \<open>Spellings\<close>

text \<open>The ways to write the assignment of a value to a flag: one dash or two, the value after an
  equals sign, as the next argument, or left out for a boolean flag.\<close>

datatype spelling = Equals | Next | Bare

definition spelled :: "(bool \<times> spelling) \<times> string \<times> string \<Rightarrow> string list" where
  "spelled g =
     (case g of ((two, sp), name, v) \<Rightarrow>
        let flag = (if two then ''--'' else ''-'') @ name in
        (case sp of Equals \<Rightarrow> [flag @ ''='' @ v] | Next \<Rightarrow> [flag, v] | Bare \<Rightarrow> [flag]))"

definition spelling_ok :: "(string \<Rightarrow> flag_kind option) \<Rightarrow> (bool \<times> spelling) \<times> string \<times> string \<Rightarrow> bool" where
  "spelling_ok kinds g =
     (case g of ((two, sp), name, v) \<Rightarrow>
        name \<noteq> [] \<and> hd name \<noteq> CHR ''-'' \<and> CHR ''='' \<notin> set name
        \<and> (case kinds name of
             None \<Rightarrow> False
           | Some k \<Rightarrow> accepts k v
               \<and> (case sp of Equals \<Rightarrow> True | Next \<Rightarrow> \<not> is_bool_flag k | Bare \<Rightarrow> is_bool_flag k \<and> v = ''true'')))"

text \<open>Arguments at which the parsing stops.\<close>

definition no_flag :: "string list \<Rightarrow> bool" where
  "no_flag args = (case args of [] \<Rightarrow> True | arg # _ \<Rightarrow> length arg < 2 \<or> hd arg \<noteq> CHR ''-'')"

lemma flag_name_value [simp]:
  assumes "CHR ''='' \<notin> set name"
  shows "flag_name (name @ ''='' @ v) = name" and "flag_value (name @ ''='' @ v) = Some v"
    and "flag_name name = name" and "flag_value name = None"
proof -
  have all: "takeWhile (\<lambda>c. c \<noteq> CHR ''='') name = name" using assms by (simp add: takeWhile_eq_all_conv) metis
  show n: "flag_name (name @ ''='' @ v) = name" using assms by (simp add: flag_name_def takeWhile_append all)
  show "flag_value (name @ ''='' @ v) = Some v" unfolding flag_value_def n by simp
  show "flag_name name = name" by (simp add: flag_name_def all)
  show "flag_value name = None" using assms by (simp add: flag_value_def)
qed

lemma parse_args_stop: "no_flag rest \<Longrightarrow> parse_args kinds rest given = Inr (given, rest)"
  by (cases rest) (auto simp: no_flag_def)

lemma parse_args_flag:
  assumes "spelling_ok kinds ((two, sp), name, v)"
  shows "parse_args kinds (spelled ((two, sp), name, v) @ rest) given = parse_args kinds rest (given @ [(name, v)])"
proof -
  from assms obtain k where k: "name \<noteq> []" "hd name \<noteq> CHR ''-''" "CHR ''='' \<notin> set name" "kinds name = Some k" "accepts k v"
      "sp = Next \<Longrightarrow> \<not> is_bool_flag k" "sp = Bare \<Longrightarrow> is_bool_flag k \<and> v = ''true''"
    by (auto simp: spelling_ok_def split: option.splits spelling.splits)
  then obtain c cs where n: "name = c # cs" "c \<noteq> CHR ''-''" "c \<noteq> CHR ''=''" by (cases name) auto
  note nv = flag_name_value [OF k(3), unfolded n(1) append_Cons append_Nil]
  show ?thesis
    by (cases sp; cases two) (use k n nv in \<open>simp_all add: spelled_def\<close>)
qed

lemma parse_args_all:
  "\<forall>g \<in> set gs. spelling_ok kinds g \<Longrightarrow>
   parse_args kinds (concat (map spelled gs) @ rest) given = parse_args kinds rest (given @ map snd gs)"
proof (induction gs arbitrary: given)
  case (Cons g gs)
  obtain two sp name v where g: "g = ((two, sp), name, v)" by (metis prod.exhaust)
  have "spelling_ok kinds ((two, sp), name, v)" using Cons.prems g by simp
  from parse_args_flag [OF this] show ?case using Cons.IH Cons.prems g by simp
qed simp

end
