(* ===== verification/Operator_Main.thy ===== *)
theory Operator_Main
  imports Controller_Reconcile Api_Registration Go_Flag
begin

text \<open>
  \<^verbatim>\<open>cmd/main.go\<close> and \<^verbatim>\<open>SetupWithManager\<close>: the flags with their defaults from the environment, the
  options of the manager, the controller that is built, and the order of the steps up to
  \<^verbatim>\<open>mgr.Start\<close>, with the exit code. The environment is the function \<^verbatim>\<open>os.Getenv\<close>, which gives the
  empty string for a variable that is not set. The manager and the flags of the logger and of the
  client configuration belong to \<^verbatim>\<open>controller-runtime\<close> and are parameters, as is the
  registration of the client's own types.
\<close>

section \<open>The controller\<close>

text \<open>An object a watch delivers, as far as a type assertion can tell it.\<close>

datatype client_Object = Zone_event PrivateDNSZone | Record_event PrivateDNSRecord | Other_event go_type

definition map_event :: "client_Object \<Rightarrow> string list" where
  "map_event obj = (case obj of Record_event record \<Rightarrow> mapRecord record | _ \<Rightarrow> [])"

text \<open>What the builder is given: \<^verbatim>\<open>Named\<close>, \<^verbatim>\<open>For\<close>, \<^verbatim>\<open>Watches\<close> and the reconciler of \<^verbatim>\<open>Complete\<close>.\<close>

record 'w controller =
  ctl_Named :: string
  ctl_For :: go_type
  ctl_Watches :: "(go_type \<times> (client_Object \<Rightarrow> string list)) list"
  ctl_Reconciler :: "'w PrivateDNSZoneReconciler"

record manager_options =
  mo_DisableFor :: "go_type list"
  mo_MetricsBindAddress :: string
  mo_HealthProbeBindAddress :: string
  mo_LeaderElection :: bool
  mo_LeaderElectionID :: string

text \<open>The calls of \<^verbatim>\<open>controller-runtime\<close>. Those that can fail give an error or the manager they
  leave; \<^verbatim>\<open>GetConfigOrDie\<close> may end the process.\<close>

record ('c, 's, 'm, 'w) manager_library =
  LibraryFlags :: "string \<Rightarrow> flag_kind option"
  GetConfigOrDie :: "(string \<times> string) list \<Rightarrow> 'c option"
  NewManager :: "'c \<Rightarrow> 's \<Rightarrow> manager_options \<Rightarrow> string + 'm"
  GetClient :: "'m \<Rightarrow> 'w client"
  CompleteController :: "'w controller \<Rightarrow> 'm \<Rightarrow> string + 'm"
  AddHealthzCheck :: "string \<Rightarrow> 'm \<Rightarrow> string + 'm"
  AddReadyzCheck :: "string \<Rightarrow> 'm \<Rightarrow> string + 'm"
  StartManager :: "'m \<Rightarrow> string option"

definition SetupWithManager ::
    "('c, 's, 'm, 'w) manager_library \<Rightarrow> 'w PrivateDNSZoneReconciler \<Rightarrow> 'm \<Rightarrow> string + 'm" where
  "SetupWithManager lib r mgr =
     CompleteController lib
       \<lparr>ctl_Named = ''privatednszone'', ctl_For = PrivateDNSZone_type,
        ctl_Watches = [(PrivateDNSRecord_type, map_event)], ctl_Reconciler = r\<rparr> mgr"

section \<open>Flags\<close>

definition envDefault :: "(string \<Rightarrow> string) \<Rightarrow> string \<Rightarrow> string \<Rightarrow> string" where
  "envDefault getenv name fallback = (let value = getenv name in if value \<noteq> [] then value else fallback)"

text \<open>The flags that \<^verbatim>\<open>main\<close> defines, and the value each variable has after \<^verbatim>\<open>flag.Parse\<close>: that of the
  last assignment, or the default.\<close>

definition own_flags :: "string \<Rightarrow> flag_kind option" where
  "own_flags = map_of
     [(''metrics-bind-address'', StringFlag), (''health-probe-bind-address'', StringFlag), (''leader-elect'', BoolFlag),
      (''coredns-namespace'', StringFlag), (''coredns-configmap'', StringFlag), (''coredns-deployment'', StringFlag)]"

definition all_flags :: "('c, 's, 'm, 'w) manager_library \<Rightarrow> string \<Rightarrow> flag_kind option" where
  "all_flags lib name = (case own_flags name of Some k \<Rightarrow> Some k | None \<Rightarrow> LibraryFlags lib name)"

definition string_flag :: "(string \<times> string) list \<Rightarrow> string \<Rightarrow> string \<Rightarrow> string" where
  "string_flag given name value = (case map_of (rev given) name of Some v \<Rightarrow> v | None \<Rightarrow> value)"

definition bool_flag :: "(string \<times> string) list \<Rightarrow> string \<Rightarrow> bool \<Rightarrow> bool" where
  "bool_flag given name value = (case map_of (rev given) name of Some v \<Rightarrow> ParseBool v = Some True | None \<Rightarrow> value)"

definition main_options :: "(string \<times> string) list \<Rightarrow> manager_options" where
  "main_options given =
     \<lparr>mo_DisableFor = [ConfigMap_type, Deployment_type],
      mo_MetricsBindAddress = string_flag given ''metrics-bind-address'' '':8080'',
      mo_HealthProbeBindAddress = string_flag given ''health-probe-bind-address'' '':8081'',
      mo_LeaderElection = bool_flag given ''leader-elect'' False,
      mo_LeaderElectionID = ''private-dns-operator.dns.custlynotts.io''\<rparr>"

definition main_reconciler ::
    "(string \<Rightarrow> string) \<Rightarrow> (string \<times> string) list \<Rightarrow> 'w client \<Rightarrow> 'w PrivateDNSZoneReconciler" where
  "main_reconciler getenv given c =
     \<lparr>Client = c,
      CoreDNSNamespace = string_flag given ''coredns-namespace''
        (envDefault getenv ''PRIVATE_DNS_COREDNS_NAMESPACE'' ''kube-system''),
      CoreDNSConfigMap = string_flag given ''coredns-configmap''
        (envDefault getenv ''PRIVATE_DNS_COREDNS_CONFIGMAP'' ''coredns''),
      CoreDNSDeployment = string_flag given ''coredns-deployment''
        (envDefault getenv ''PRIVATE_DNS_COREDNS_DEPLOYMENT'' ''coredns'')\<rparr>"

section \<open>Start-up\<close>

text \<open>The \<^verbatim>\<open>init\<close> function: \<^verbatim>\<open>utilruntime.Must\<close> panics on an error (\<open>None\<close>).\<close>

definition init_scheme :: "'s scheme_function \<Rightarrow> ('s, 'b) scheme_library \<Rightarrow> 's \<Rightarrow> 's option" where
  "init_scheme clientgo lib scheme =
     (case clientgo scheme of
        (Some e, _) \<Rightarrow> None
      | (None, scheme) \<Rightarrow> (case AddToScheme lib scheme of (Some e, _) \<Rightarrow> None | (None, scheme) \<Rightarrow> Some scheme))"

text \<open>\<^verbatim>\<open>main\<close> up to \<^verbatim>\<open>mgr.Start\<close>: the exit code, or the manager that is started. A bad command line
  ends the process in \<^verbatim>\<open>flag.Parse\<close>, with 0 when help was asked for.\<close>

definition main_manager ::
    "('c, 's, 'm, 'w) manager_library \<Rightarrow> 's \<Rightarrow> (string \<Rightarrow> string) \<Rightarrow> string list \<Rightarrow> nat + 'm" where
  "main_manager lib scheme getenv args =
     (case parse_args (all_flags lib) args [] of
        Inl HelpRequested \<Rightarrow> Inl 0
      | Inl e \<Rightarrow> Inl 2
      | Inr (given, _) \<Rightarrow>
          (case GetConfigOrDie lib given of
             None \<Rightarrow> Inl 1
           | Some config \<Rightarrow>
               (case NewManager lib config scheme (main_options given) of
                  Inl e \<Rightarrow> Inl 1
                | Inr mgr \<Rightarrow>
                    (case SetupWithManager lib (main_reconciler getenv given (GetClient lib mgr)) mgr of
                       Inl e \<Rightarrow> Inl 1
                     | Inr mgr \<Rightarrow>
                         (case AddHealthzCheck lib ''healthz'' mgr of
                            Inl e \<Rightarrow> Inl 1
                          | Inr mgr \<Rightarrow>
                              (case AddReadyzCheck lib ''readyz'' mgr of
                                 Inl e \<Rightarrow> Inl 1
                               | Inr mgr \<Rightarrow> Inr mgr))))))"

definition main_exit ::
    "('c, 's, 'm, 'w) manager_library \<Rightarrow> 's \<Rightarrow> (string \<Rightarrow> string) \<Rightarrow> string list \<Rightarrow> nat" where
  "main_exit lib scheme getenv args =
     (case main_manager lib scheme getenv args of
        Inl code \<Rightarrow> code
      | Inr mgr \<Rightarrow> (case StartManager lib mgr of Some e \<Rightarrow> 1 | None \<Rightarrow> 0))"

section \<open>Lemmas\<close>

text \<open>An empty variable counts as not set, an empty flag does not.\<close>

lemma envDefault_nonempty: "fallback \<noteq> [] \<Longrightarrow> envDefault getenv name fallback \<noteq> []"
  by (simp add: envDefault_def Let_def)

lemma string_flag_last: "string_flag (given @ [(name, v)]) name value = v"
  by (simp add: string_flag_def)

lemma main_reconciler_defaults:
  assumes "\<And>name. getenv name = []"
  shows "main_reconciler getenv [] c
    = \<lparr>Client = c, CoreDNSNamespace = ''kube-system'', CoreDNSConfigMap = ''coredns'', CoreDNSDeployment = ''coredns''\<rparr>"
  using assms by (simp add: main_reconciler_def string_flag_def envDefault_def)

text \<open>A manager that is started has taken each step, in this order, without an error.\<close>

lemma main_manager_steps:
  "main_manager lib scheme getenv args = Inr mgr \<longleftrightarrow>
   (\<exists>given rest config m1 m2 m3. parse_args (all_flags lib) args [] = Inr (given, rest)
      \<and> GetConfigOrDie lib given = Some config
      \<and> NewManager lib config scheme (main_options given) = Inr m1
      \<and> SetupWithManager lib (main_reconciler getenv given (GetClient lib m1)) m1 = Inr m2
      \<and> AddHealthzCheck lib ''healthz'' m2 = Inr m3
      \<and> AddReadyzCheck lib ''readyz'' m3 = Inr mgr)"
  by (auto simp: main_manager_def split: sum.splits option.splits flag_error.splits)

text \<open>The value of a flag after the assignments of a command line, made in order.\<close>

fun assigned :: "(string \<times> string) list \<Rightarrow> string \<Rightarrow> string \<Rightarrow> string" where
  "assigned [] name value = value"
| "assigned ((n, v) # given) name value = assigned given name (if n = name then v else value)"

lemma string_flag_assigned: "string_flag given name v0 = assigned given name v0"
  by (induction given name v0 rule: assigned.induct) (auto simp: string_flag_def map_add_def split: option.splits)

lemma bool_flag_assigned: "bool_flag given name False \<longleftrightarrow> ParseBool (assigned given name ''false'') = Some True"
proof -
  have "ParseBool ''false'' = Some False" by (simp add: ParseBool_def)
  then show ?thesis
    by (simp add: string_flag_assigned [symmetric] string_flag_def bool_flag_def split: option.split)
qed

text \<open>C40. However its flags are spelled, \<^verbatim>\<open>main\<close> ends with code 0 exactly when each step of the
  start-up succeeds, in the order configuration, manager, controller, health check, ready
  check, and the manager then stops without an error; otherwise it ends with code 1. The manager does
  not cache ConfigMaps and Deployments and has the addresses and the leader election of the last
  assignments to their flags; the controller reconciles zones, is told of a zone by each record
  that names it, and works on the CoreDNS objects of the last assignments to their flags, or else of
  the environment variables that are not empty, or else \<^verbatim>\<open>coredns\<close> in \<^verbatim>\<open>kube-system\<close>.\<close>

theorem main_exit_spelled:
  fixes getenv lib gs
  assumes "\<forall>g \<in> set gs. spelling_ok (all_flags lib) g" and "no_flag rest"
  defines "flag \<equiv> assigned (map snd gs)" and "variable \<equiv> \<lambda>name value. if getenv name = [] then value else getenv name"
  shows "main_exit lib scheme getenv (concat (map spelled gs) @ rest) =
    (if \<exists>config m1 m2 m3 m4. GetConfigOrDie lib (map snd gs) = Some config
         \<and> NewManager lib config scheme
             \<lparr>mo_DisableFor = [ConfigMap_type, Deployment_type],
              mo_MetricsBindAddress = flag ''metrics-bind-address'' '':8080'',
              mo_HealthProbeBindAddress = flag ''health-probe-bind-address'' '':8081'',
              mo_LeaderElection = (ParseBool (flag ''leader-elect'' ''false'') = Some True),
              mo_LeaderElectionID = ''private-dns-operator.dns.custlynotts.io''\<rparr> = Inr m1
         \<and> CompleteController lib
             \<lparr>ctl_Named = ''privatednszone'', ctl_For = PrivateDNSZone_type,
              ctl_Watches = [(PrivateDNSRecord_type, map_event)],
              ctl_Reconciler =
                \<lparr>Client = GetClient lib m1,
                 CoreDNSNamespace = flag ''coredns-namespace'' (variable ''PRIVATE_DNS_COREDNS_NAMESPACE'' ''kube-system''),
                 CoreDNSConfigMap = flag ''coredns-configmap'' (variable ''PRIVATE_DNS_COREDNS_CONFIGMAP'' ''coredns''),
                 CoreDNSDeployment = flag ''coredns-deployment'' (variable ''PRIVATE_DNS_COREDNS_DEPLOYMENT'' ''coredns'')\<rparr>\<rparr>
             m1 = Inr m2
         \<and> AddHealthzCheck lib ''healthz'' m2 = Inr m3
         \<and> AddReadyzCheck lib ''readyz'' m3 = Inr m4
         \<and> StartManager lib m4 = None
     then 0 else 1)"
proof -
  have p: "parse_args (all_flags lib) (concat (map spelled gs) @ rest) [] = Inr (map snd gs, rest)"
    using parse_args_all [OF assms(1)] parse_args_stop [OF assms(2)] by simp
  have env: "envDefault getenv = variable" by (intro ext) (simp add: envDefault_def variable_def)
  show ?thesis
    unfolding main_exit_def main_manager_def p main_options_def main_reconciler_def SetupWithManager_def
      string_flag_assigned bool_flag_assigned env flag_def
    by (auto split: sum.splits option.splits)
qed

text \<open>A manager that starts only with the options and the names it is expected to be given.\<close>

definition sample_manager :: "(unit, unit, string list, sim) manager_library" where
  "sample_manager =
     \<lparr>LibraryFlags = (\<lambda>name. if name = ''zap-devel'' then Some (LibraryFlag True (\<lambda>v. ParseBool v \<noteq> None)) else None),
      GetConfigOrDie = (\<lambda>given. Some ()),
      NewManager = (\<lambda>config scheme options.
        if mo_LeaderElection options \<and> mo_DisableFor options = [ConfigMap_type, Deployment_type]
        then Inr [mo_MetricsBindAddress options, mo_HealthProbeBindAddress options] else Inl ''options''),
      GetClient = (\<lambda>mgr. sim_client),
      CompleteController = (\<lambda>ctl mgr. Inr (mgr @ [CoreDNSNamespace (ctl_Reconciler ctl),
        CoreDNSConfigMap (ctl_Reconciler ctl), CoreDNSDeployment (ctl_Reconciler ctl)])),
      AddHealthzCheck = (\<lambda>name mgr. Inr (mgr @ [name])), AddReadyzCheck = (\<lambda>name mgr. Inr (mgr @ [name])),
      StartManager = (\<lambda>mgr. if mgr = ['':8080'', '':9090'', ''dns'', ''zones'', ''coredns'', ''healthz'', ''readyz'']
        then None else Some ''not as expected'')\<rparr>"

definition sample_getenv :: "string \<Rightarrow> string" where
  "sample_getenv name = (if name = ''PRIVATE_DNS_COREDNS_CONFIGMAP'' then ''zones''
     else if name = ''PRIVATE_DNS_COREDNS_NAMESPACE'' then ''unused'' else [])"

theorem main_exit_spelled_witness:
  "main_exit sample_manager () sample_getenv
     [''-coredns-namespace'', ''kube'', ''--zap-devel=false'', ''-leader-elect'', ''--coredns-namespace=dns'',
      ''-health-probe-bind-address=:9090'', ''rest''] = 0"
proof -
  let ?gs = "[((False, Next), ''coredns-namespace'', ''kube''), ((True, Equals), ''zap-devel'', ''false''),
    ((False, Bare), ''leader-elect'', ''true''), ((True, Equals), ''coredns-namespace'', ''dns''),
    ((False, Equals), ''health-probe-bind-address'', '':9090'')]"
  have ok: "\<forall>g \<in> set ?gs. spelling_ok (all_flags sample_manager) g"
    by (auto simp: spelling_ok_def all_flags_def own_flags_def sample_manager_def ParseBool_def)
  have rest: "no_flag [''rest'']" by (simp add: no_flag_def)
  have "main_exit sample_manager () sample_getenv (concat (map spelled ?gs) @ [''rest'']) = 0"
    unfolding main_exit_spelled [OF ok rest]
    by (simp add: sample_manager_def sample_getenv_def ParseBool_def)
  then show ?thesis by (simp add: spelled_def)
qed

end
