(* ===== verification/Limits.thy ===== *)
theory Limits
  imports Reconcile_Properties
begin

text \<open>
  Where the code does less than it means to: inputs that it accepts and does not serve as they
  were meant, each shown on a concrete value. They mark the limits of the properties: what is
  valid is not always what is served, and the hypotheses on names and keys are needed.
\<close>

section \<open>Values\<close>

text \<open>An IPv4-mapped IPv6 literal is accepted for an A record, and rendered as it is.\<close>

lemmas [go_eval] = parse_ip_def parse_v6_def parse_v6_loop.simps hex_val_def is_digit_def parse_v4_fields_def digit_val_def
  is_v4_def atoi_def digits_val_def

lemma mapped_literal:
  "trim_space ''::ffff:10.0.0.1'' = ''::ffff:10.0.0.1''"
  "parse_ip ''::ffff:10.0.0.1'' = Some (replicate 10 0 @ [255, 255, 10, 0, 0, 1])"
  by code_simp (simp add: go_eval)

lemma mapped_address_accepted:
  "validateValue DNSRecordTypeA ''::ffff:10.0.0.1'' = None \<and> renderValue DNSRecordTypeA ''::ffff:10.0.0.1'' = ''::ffff:10.0.0.1''"
  by (simp add: validateValue_def renderValue_def mapped_literal is_v4_def)

text \<open>A target is validated after it was normalised and rendered as it was written.\<close>

lemma target_not_normalised:
  "validateValue DNSRecordTypeCNAME ''WWW.example.com..'' = None
   \<and> renderValue DNSRecordTypeCNAME ''WWW.example.com..'' = ''WWW.example.com..''"
  by code_simp

text \<open>The numbers of an MX record are not bounded.\<close>

lemma priority_fields:
  "str_fields (trim_space ''99999 mail.example.com'') = [''99999'', ''mail.example.com'']"
  "validateDomain (normalizeDomain ''mail.example.com'') = None"
  by code_simp+

lemma priority_not_bounded: "validateValue DNSRecordTypeMX ''99999 mail.example.com'' = None"
proof -
  have "atoi ''99999'' = Some 99999" by (simp add: go_eval)
  then show ?thesis by (simp add: validateValue_def priority_fields Let_def)
qed

text \<open>Two texts that differ in case only are one value.\<close>

lemma text_case_dropped: "uniqueSorted [''Token'', ''token''] = [''Token'']"
  by code_simp

section \<open>Records\<close>

text \<open>Two records of one source with the same name, type and TTL are valid together, and the values of
  the first are not rendered.\<close>

definition sample_twice :: "Record list" where
  "sample_twice =
     [sample_record ''www.example.com.'' ''A'' [''10.0.0.1''] [] ''example'',
      sample_record ''www.example.com.'' ''A'' [''10.0.0.2''] [] ''example'']"

lemma single_values: "uniqueSorted [''10.0.0.1''] = [''10.0.0.1'']" "uniqueSorted [''10.0.0.2''] = [''10.0.0.2'']"
  by code_simp+

lemma valid_addresses:
  assumes "\<forall>r \<in> set rs. \<exists>v ns name. v \<in> {''10.0.0.1'', ''10.0.0.2''} \<and> r = sample_record ''www.example.com.'' ''A'' [v] ns name"
  shows "ValidateRecords rs = []"
proof -
  have "ValidateRecord r = [] \<and> r_Type r = ''A''" if "r \<in> set rs" for r
    using assms that sample_values by (fastforce simp: ValidateRecord_Nil sample_record_def)
  then show ?thesis by (fastforce simp: ValidateRecords_Nil dest: cname_conflictD)
qed

lemma same_source_dropped:
  "ValidateRecords sample_twice = [] \<and> renderedRecordCount sample_twice = 2
   \<and> map r_Values (DeduplicateAndSort (\<lambda>xs. xs) sample_twice) = [[''10.0.0.2'']]"
proof (intro conjI)
  show "ValidateRecords sample_twice = []" by (rule valid_addresses) (auto simp: sample_twice_def)
  show "renderedRecordCount sample_twice = 2" by (simp add: renderedRecordCount_sum sample_twice_def sample_record_def)
  show "map r_Values (DeduplicateAndSort (\<lambda>xs. xs) sample_twice) = [[''10.0.0.2'']]"
    by (simp add: DeduplicateAndSort_def collapse_def dedup_key_def sample_twice_def sample_record_def sort_slice_def single_values)
qed

text \<open>Records whose objects have the same name in two namespaces are rendered in either order.\<close>

definition sample_tied :: "Record list" where
  "sample_tied =
     [sample_record ''www.example.com.'' ''A'' [''10.0.0.1''] ''team-a'' ''web'',
      sample_record ''www.example.com.'' ''A'' [''10.0.0.2''] ''team-b'' ''web'']"

lemma tied_records_move:
  "ValidateRecords sample_tied = []
   \<and> map r_Values (DeduplicateAndSort (\<lambda>xs. xs) sample_tied) = [[''10.0.0.1''], [''10.0.0.2'']]
   \<and> map r_Values (DeduplicateAndSort rev sample_tied) = [[''10.0.0.2''], [''10.0.0.1'']]"
proof (intro conjI)
  show "ValidateRecords sample_tied = []" by (rule valid_addresses) (auto simp: sample_tied_def)
  show "map r_Values (DeduplicateAndSort (\<lambda>xs. xs) sample_tied) = [[''10.0.0.1''], [''10.0.0.2'']]"
    "map r_Values (DeduplicateAndSort rev sample_tied) = [[''10.0.0.2''], [''10.0.0.1'']]"
    by (simp_all add: DeduplicateAndSort_def collapse_def dedup_key_def sample_tied_def sample_record_def sort_slice_def
        single_values rr_order_of_def)
qed

section \<open>Zones\<close>

text \<open>The file key is nine bytes longer than the zone, and a name can be longer than the 253 bytes of a
  ConfigMap key leave room for.\<close>

lemma file_key_length:
  assumes "canonical n"
  shows "length (ZoneFileKey n) = length n + 9"
proof -
  obtain v where v: "n = v @ ''.''" using assms by (auto simp: canonical_iff)
  have "NormalizeZone n = Inr n" using assms by (simp add: NormalizeZone_iff)
  then show ?thesis by (simp add: ZoneFileKey_def Let_def) (simp add: v trim_suffix_def suffix_def)
qed

definition sample_long :: string where
  "sample_long = join ''.'' (replicate 5 (replicate 49 CHR ''a'')) @ ''.''"

lemma length_join_dot: "ps \<noteq> [] \<Longrightarrow> Suc (length (join [c] ps)) = sum_list (map length ps) + length ps"
proof (induction ps)
  case (Cons a ps)
  then show ?case by (cases "ps = []") (auto simp: join_Cons)
qed simp

lemma sample_long_canonical: "canonical sample_long" "length sample_long = 250"
proof -
  let ?ls = "replicate 5 (replicate 49 CHR ''a'')"
  have len: "Suc (length (join ''.'' ?ls)) = 250" by (subst length_join_dot) (simp_all add: sum_list_replicate)
  have "split_on CHR ''.'' (join ''.'' ?ls) = ?ls" by (rule split_join) simp_all
  moreover have "valid_label (replicate 49 CHR ''a'')" by (simp add: valid_label_def ldh_def label_rune_ok_def list_all_iff)
  ultimately have "valid_name (join ''.'' ?ls)" using len by (simp add: valid_name_def list_all_iff)
  then show "canonical sample_long" by (auto simp: canonical_iff sample_long_def)
  show "length sample_long = 250" using len by (simp add: sample_long_def)
qed

lemma file_key_too_long: "NormalizeZone sample_long = Inr sample_long \<and> length (ZoneFileKey sample_long) = 259"
  using sample_long_canonical file_key_length [OF sample_long_canonical(1)] by (simp add: NormalizeZone_iff)

text \<open>Two zones with one suffix make two stanzas of it.\<close>

lemma same_suffix_twice:
  "length (filter (\<lambda>d. zd_Zone d = ''example.com.'') (rn_directives (renderZones sample_env [] sample_previous
     [sample_zone, sample_zone\<lparr>z_Meta := (z_Meta sample_zone)\<lparr>om_Name := ''other''\<rparr>\<rparr>]))) = 2"
proof -
  let ?y = "sample_zone\<lparr>z_Meta := (z_Meta sample_zone)\<lparr>om_Name := ''other''\<rparr>\<rparr>"
  have one: "\<exists>d. fst (snd (contribution_of sample_env [] sample_previous z)) = [d] \<and> zd_Zone d = ''example.com.''"
    if "z_Spec z = z_Spec sample_zone" for z
  proof -
    obtain res ds fs where cb: "contribution_of sample_env [] sample_previous z = (res, ds, fs)" by (metis prod.exhaust)
    have "res_rendered res" using sample_spec_rendered [OF that, of "[]" sample_previous] cb by simp
    moreover have "NormalizeZone (zs_Zone (z_Spec z)) = Inr ''example.com.''"
      using sample_normalize by (simp add: that) (simp add: sample_zone_def)
    ultimately show ?thesis using contribution_rendered [OF cb] cb by fastforce
  qed
  obtain d d' where "fst (snd (contribution_of sample_env [] sample_previous sample_zone)) = [d]" "zd_Zone d = ''example.com.''"
      "fst (snd (contribution_of sample_env [] sample_previous ?y)) = [d']" "zd_Zone d' = ''example.com.''"
    using one [of sample_zone] one [of ?y] by auto
  moreover have "live [sample_zone, ?y] = [sample_zone, ?y]" by (simp add: sample_zone_def)
  ultimately show ?thesis unfolding renderZones_contributions(1) by simp
qed

section \<open>The managed block\<close>

text \<open>
  A value with the end marker, written into the block of a zone that forwards. The next pass takes it
  for the end of the block and leaves the rest outside, with the end marker before the start marker, so
  that every pass after that one fails on the order of the markers.
\<close>

lemma first_occurrence:
  assumes "sub \<noteq> []" and "sublist sub s"
  shows "\<exists>a t. s = a @ sub @ t \<and> \<not> sublist sub a"
  using assms(2)
proof (induction s)
  case (Cons c s)
  show ?case
  proof (cases "prefix sub (c # s)")
    case True
    then obtain t where "c # s = sub @ t" by (auto simp: prefix_def)
    then show ?thesis using assms(1) by (intro exI [of _ "[]"] exI [of _ t]) simp
  next
    case False
    then obtain a t where a: "s = a @ sub @ t" "\<not> sublist sub a" using Cons by (auto simp: sublist_Cons_right)
    have "\<not> prefix sub (c # a)" using False a(1) by (metis append_Cons prefix_append prefix_order.trans)
    then show ?thesis using a by (intro exI [of _ "c # a"] exI [of _ t]) (simp add: sublist_Cons_right)
  qed
qed (use assms(1) in simp)

lemma end_marker_wedges:
  assumes "block_fit cf" and "PatchCorefile ordD ordR cf ds = Inr cf1"
    and "sublist ManagedBlockEnd (stanzas ordD ordR ds)" and "\<not> sublist ManagedBlockStart (stanzas ordD ordR ds)"
  shows "\<exists>cf2. PatchCorefile ordD' ordR' cf1 ds' = Inr cf2 \<and> \<not> markers_ok cf2"
proof -
  let ?S = ManagedBlockStart and ?E = ManagedBlockEnd and ?o = "outside_block cf"
  have o: "\<not> sublist ?S ?o" "\<not> sublist ?E ?o" using assms(1) by (simp_all add: block_fit_def marker_free_def)
  obtain a t where s: "stanzas ordD ordR ds = a @ ?E @ t" and a: "\<not> sublist ?E a"
    using first_occurrence [OF markers_line(4) assms(3)] by blast
  have t: "\<not> sublist ?S t" using assms(4) by (metis s sublist_append sublist_appendI append_assoc)
  have "a = [] \<or> hd a = nl"
    using stanzas_hd [of ordD ordR ds] by (cases a) (auto simp: s)
  then have A: "\<not> sublist ?E (?o @ nl # nl # ?S @ a)"
    using o(2) inside_marker_free [OF _ a] by (simp add: sublist_line sublist_Cons_line)
  let ?rest = "t @ [nl] @ ?E @ [nl]"
  have cf1: "cf1 = (?o @ nl # nl # ?S @ a) @ ?E @ ?rest"
    unfolding patched_managed_file [OF assms(2)] managed_file_def s by simp
  have "str_index ?E cf1 = Some (length (?o @ nl # nl # ?S @ a))"
    unfolding cf1 by (rule str_index_first [OF markers_self_delimiting(2) A])
  moreover have "str_index ?S cf1 = Some (length ?o + 2)"
    unfolding patched_managed_file [OF assms(2)] by (rule start_in_managed_file [OF o(1)])
  moreover have "take (length ?o + 2) cf1 = ?o @ [nl, nl]"
    "drop (length (?o @ nl # nl # ?S @ a) + length ?E) cf1 = ?rest" by (simp_all add: cf1)
  ultimately have strip: "removeManagedBlock cf1 = Inr (?o @ [nl, nl] @ ?rest)" by (simp add: removeManagedBlock_def)
  have trim: "trim_right_char nl (?o @ [nl, nl] @ ?rest) = ?o @ [nl, nl] @ t @ [nl] @ ?E"
  proof -
    have "last (?o @ [nl, nl] @ t @ [nl] @ ?E) \<noteq> nl" by (simp add: ManagedBlockEnd_def)
    then have "trim_right_char nl ((?o @ [nl, nl] @ t @ [nl] @ ?E) @ [nl]) = ?o @ [nl, nl] @ t @ [nl] @ ?E"
      by (simp only: trim_right_char_snoc simp_thms if_True trim_right_char_id)
    then show ?thesis by simp
  qed
  let ?o2 = "?o @ [nl, nl] @ t @ [nl] @ ?E" and ?in = "stanzas ordD' ordR' ds'"
  have p2: "PatchCorefile ordD' ordR' cf1 ds' = Inr (managed_file ?o2 ?in)"
    unfolding PatchCorefile_managed_file strip by (simp only: map_sum.simps trim)
  have "\<not> sublist ?S ?E" by code_simp
  then have "\<not> sublist ?S ?o2" using o(1) t by (simp add: sublist_line sublist_Cons_line)
  then have i: "str_index ?S (managed_file ?o2 ?in) = Some (length ?o2 + 2)" by (rule start_in_managed_file)
  have "sublist ?E (((?o @ [nl, nl] @ t @ [nl]) @ ?E) @ [])" by (metis sublist_appendI append_assoc)
  then have "sublist ?E ?o2" by simp
  then obtain b u where b: "?o2 = b @ ?E @ u" "\<not> sublist ?E b"
    using first_occurrence [OF markers_line(4)] by meson
  have "str_index ?E (managed_file ?o2 ?in) = Some (length b)"
    unfolding managed_file_def b(1) append_assoc by (rule str_index_first [OF markers_self_delimiting(2) b(2)])
  moreover have "length b \<le> length ?o2" unfolding b(1) by simp
  ultimately show ?thesis using p2 i by (intro exI [of _ "managed_file ?o2 ?in"]) (simp add: markers_ok_def)
qed

end
