(* ===== verification/Spec2Isabelle.thy ===== *)
theory Spec2Isabelle
  imports Dns_Properties Coredns_Properties Controller_Properties Records_Properties Reconcile_Properties
    Shared_Properties Deep_Copy_Properties Operator_Main Limits
begin

text \<open>
  A verification library of the private DNS operator, a Kubernetes controller written in Go.

  The program. Zones (\<^verbatim>\<open>PrivateDNSZone\<close>) and delegated records (\<^verbatim>\<open>PrivateDNSRecord\<close>) are objects
  of the cluster. Each pass of the controller (\<^verbatim>\<open>Reconcile\<close>) lists them all, compiles the records
  of each zone, renders each zone to a zone file or to template stanzas, puts the stanzas into
  the marked block of the Corefile, which lies together with the zone files in the ConfigMap of
  CoreDNS, mounts the zone files in its Deployment, releases terminating zones and reports
  conditions. A zone that fails keeps the output of the pass before. The writes are ordered so
  that CoreDNS never sees a Corefile that names a file that is not there, nor a mount of a key
  that does not exist, wherever a pass stops.

  The parts, in the order of their imports. File names are under \<^verbatim>\<open>src/\<close>.

  \<^item> \<^verbatim>\<open>Prelude\<close>, \<^verbatim>\<open>Regions\<close>: Go maps as association lists, iteration orders (\<open>is_order\<close>: any
    permutation), the two sorting routines of \<^verbatim>\<open>sort\<close>, and the interface \<open>owned_region\<close> of a
    part of a shared object that the operator owns. It is interpreted for the block of the
    Corefile (\<^verbatim>\<open>Coredns_Block\<close>) and for the annotation of managed keys (\<^verbatim>\<open>Coredns_ConfigMap\<close>).
  \<^item> \<^verbatim>\<open>Go_Unicode\<close>, \<^verbatim>\<open>Go_Strings\<close>, \<^verbatim>\<open>Go_Strconv\<close>, \<^verbatim>\<open>Go_Net\<close>, \<^verbatim>\<open>Go_Crypto\<close>: what the source uses of
    the standard library. Strings are lists of bytes, decoded as UTF-8 where Go does.
  \<^item> \<^verbatim>\<open>Api_Types\<close>: the fields of \<^verbatim>\<open>api/v1alpha1\<close>. TTLs are words of 32 bits, read as signed.
  \<^item> \<^verbatim>\<open>Dns_Names\<close>, \<^verbatim>\<open>Dns_Record\<close>, \<^verbatim>\<open>Dns_Dedup\<close>: \<^verbatim>\<open>internal/dns/record.go\<close>, names, the validation of
    records and record sets, deduplication. \<^verbatim>\<open>Dns_Render\<close>: \<^verbatim>\<open>internal/dns/render.go\<close>, the serial,
    the file key and the zone file.
  \<^item> \<^verbatim>\<open>Coredns_Corefile\<close>, \<^verbatim>\<open>Coredns_Block\<close>, \<^verbatim>\<open>Coredns_ConfigMap\<close>, \<^verbatim>\<open>Coredns_Deployment\<close>: the package
    \<^verbatim>\<open>internal/coredns\<close>; \<^verbatim>\<open>Coredns_Held\<close>: what one pass writes as the next pass reads it.
  \<^item> \<^verbatim>\<open>Kube_Api\<close>: the client of the API as a record of calls on an abstract cluster, and
    \<open>lawful_store\<close>, what the code relies on when no one else writes the CoreDNS objects.
    \<^verbatim>\<open>Shared_Store\<close>: \<open>shared_store\<close>, the same when others write them too, with the writer of each
    entry of the history.
  \<^item> \<^verbatim>\<open>Controller_Conditions\<close>: \<^verbatim>\<open>internal/controller/conditions.go\<close>.
  \<^item> \<^verbatim>\<open>Controller_Commit\<close>, \<^verbatim>\<open>Controller_Records\<close>, \<^verbatim>\<open>Controller_Status\<close>, \<^verbatim>\<open>Controller_Reconcile\<close>: the
    definitions of \<^verbatim>\<open>internal/controller/privatednszone_controller.go\<close>, one definition for each
    function and each loop body; a loop over a list is a fold or a recursion on the list.
    Calls of the client thread the state of the cluster, an early return returns the state
    that was reached, and an error is a value of a sum or an option.
  \<^item> \<^verbatim>\<open>Go_Heap\<close>, \<^verbatim>\<open>Deep_Copy\<close>, \<^verbatim>\<open>Deep_Copy_Views\<close>: the API types as they lie in memory, with pointers
    and slices, the functions of \<^verbatim>\<open>zz_generated.deepcopy.go\<close> on them, and what they denote: the
    values of \<^verbatim>\<open>Api_Types\<close>. The interface \<open>heap_copy\<close> is the contract of a deep copy; \<open>copied_array\<close>
    extends it to arrays, and gives it for slices and for pointers. They are interpreted for
    strings, TTLs and inline records, and instantiated for the types that embed metadata.
  \<^item> \<^verbatim>\<open>Api_Registration\<close>: \<^verbatim>\<open>groupversion_info.go\<close>. \<^verbatim>\<open>Go_Flag\<close>, \<^verbatim>\<open>Operator_Main\<close>: the command line, and
    \<^verbatim>\<open>cmd/main.go\<close> with \<^verbatim>\<open>SetupWithManager\<close>.

  What the lemmas show.

  \<^item> \<^verbatim>\<open>Dns_Properties\<close>: which names and record sets are accepted, exactly; that rendering is
    independent of the orders of Go's maps when no records tie in the sort, and is then repeated
    without a change of the serial; that a change gets a greater serial below the 32-bit
    maximum; that values cannot inject lines.
  \<^item> \<^verbatim>\<open>Coredns_Properties\<close>: patching touches nothing but the block; the stanzas read back are
    those written; mounts are computed exactly.
  \<^item> \<^verbatim>\<open>Commit_Protocol\<close>, \<^verbatim>\<open>Controller_Files\<close>, \<^verbatim>\<open>Controller_Properties\<close>: the writes of
    \<^verbatim>\<open>commitCoreDNS\<close> as a step relation on layouts (\<open>proto\<close>: expand the data, expand the mount,
    switch the Corefile, contract the mount, contract the data). Each step keeps a layout safe,
    and every stored state follows from the one before by such a step, however calls fail.
    \<^verbatim>\<open>Commit_Settled\<close>: a commit that succeeds leaves nothing to write.
  \<^item> \<^verbatim>\<open>Records_Properties\<close>: each record gets exactly its verdict, records that are not admitted
    have no influence, conflicts withhold only the name they are at, and reporting settles.
  \<^item> \<^verbatim>\<open>Controller_Pass\<close>, \<^verbatim>\<open>Controller_Run\<close>: a pass from a coherent state meets what the commit asks
    for, so all its states are safe; the loop over the zones is a function of each zone alone.
    \<^verbatim>\<open>Controller_Health\<close>: passes over an API server that answers end without an error.
    \<^verbatim>\<open>Controller_Trace\<close>: the calls of a pass as a log, and the order in them.
    \<^verbatim>\<open>Controller_Failures\<close>: a pass that returns an error has a call in its log that failed.
  \<^item> \<^verbatim>\<open>Controller_History\<close>: an invariant (\<open>stable\<close>) that every stored state of every pass
    satisfies again, so that histories of passes, complete or not, stay safe and recover.
    \<^verbatim>\<open>Controller_Steady\<close>: after a pass without error the next pass over the same objects computes
    what is stored in any map order, unless records tie in the sort, so it writes nothing. \<^verbatim>\<open>Controller_Served\<close>: what a stored state says of the
    records of a zone (\<open>zone_served\<close>), as the specification of a pass from end to end.
  \<^item> \<^verbatim>\<open>Reconcile_Properties\<close>: the properties of whole passes, drawn from the theories above.
  \<^item> \<^verbatim>\<open>Shared_Commit\<close>, \<^verbatim>\<open>Shared_Pass\<close>, \<^verbatim>\<open>Shared_Properties\<close>: passes among other writers, by rely and
    guarantee. What the others may do between any two calls is \<open>cautious\<close> (they leave the keys, the
    mounts and the stanzas of the operator alone and keep the invariant of the mounts); what each
    write of the operator does is \<open>own_step\<close> (the invariant \<open>stable\<close>, and nothing of others is
    changed). So every state stored by anyone is safe, no edit of the others is lost, and a pass
    without error has published. \<^verbatim>\<open>Shared_Cluster\<close>: a simulated server with edits of others at
    scheduled places. \<^verbatim>\<open>Shared_Health\<close>: one whose others do not write between the read of an object
    and its update, on which a pass ends without an error. These properties are instantiated on
    the two.
  \<^item> \<^verbatim>\<open>Deep_Copy_Properties\<close>: a deep copy denotes the same value and shares no cell with its
    original, whatever is written to either; so the base of a status patch is the object as it was
    listed. \<^verbatim>\<open>Operator_Main\<close>: the exit code of \<^verbatim>\<open>main\<close> and the configuration it runs with.
  \<^item> \<^verbatim>\<open>Limits\<close>: concrete inputs that the code accepts and does not serve as they were meant; they
    show that the hypotheses of the properties are needed.

  Parameters. The client of the API is an argument; \<open>lawful_store\<close> says of the history of the
  two CoreDNS objects that a read that succeeds returns what is stored (the manager of
  \<^verbatim>\<open>cmd/main.go\<close> does not cache these two kinds), that a write that succeeds stores its object
  and one that fails has stored it or not, and that nothing else writes them during a pass.
  \<open>shared_store\<close> drops the last of these: an update takes effect only when the object is still
  the one the client was last given (the documented check of \<^verbatim>\<open>resourceVersion\<close>, which the code
  never touches), and otherwise fails. A lawful store is a shared one (\<open>lawful_shared\<close>).
  \<open>lawful_store\<close> is satisfied by a simulated server with an arbitrary schedule of failures, on
  which all properties with this hypothesis are instantiated. \<open>answers\<close> says that calls succeed,
  which includes that the API accepts every object it is sent; of the properties only the one on
  recovery uses it.
  The clock, the iteration orders of maps and the ties of unstable sorts are arguments
  (\<open>environment\<close>), and so are the two helpers of \<^verbatim>\<open>apimachinery\<close> for conditions, with their
  documented behaviour as \<open>lawful_conditions\<close>, the deep copies of the embedded metadata
  (\<open>lawful_library\<close>), the scheme and its builder (\<open>lawful_builder\<close>), the manager of
  \<^verbatim>\<open>controller-runtime\<close> and \<^verbatim>\<open>os.Getenv\<close>.

  Bounds. No definition needs fuel: every loop of the code runs over a list, over the bytes of a
  string or over the bits of a word. Serials and TTLs are kept at 32 bits; counters of the
  status are natural numbers, since a count of values does not reach the bound of \<^verbatim>\<open>int\<close>.

  Not modelled. Logging is left out, and so are the fields of Kubernetes objects that the code
  does not touch and the field \<^verbatim>\<open>Scheme\<close> of the reconciler, which nothing reads. What makes another
  writer break the mounts or the block of the operator is not treated: \<open>cautious\<close> excludes it.
  Convergence and recovery are stated without other writers, since edits that go on for ever
  can make every update fail. Outside \<^verbatim>\<open>Deep_Copy\<close> values have no identity; the
  only place where the code assigns to an object it has copied is the status patch, which is
  treated there (\<open>zone_patch_base\<close>). What the manager does once it is started (watches, the work
  queue, leader election) belongs to \<^verbatim>\<open>controller-runtime\<close>.
\<close>

end
